(* ===== verification/Prelude.thy ===== *)
theory Prelude
  imports Main "HOL-Library.Word" "HOL-Library.Sublist"
begin

text \<open>
  Shared vocabulary of the development: the machine types of the Go program, its error
  values, the result type of fallible operations, and the generic facts about lists and
  words that every component uses. A Go \<open>int64\<close> is a \<^typ>\<open>64 word\<close>: addition and
  multiplication wrap as they do in Go, and \<open>sint\<close> reads the signed value.
\<close>

named_theorems io_laws \<open>laws of readers and writers, used by every protocol proof\<close>
named_theorems go_simps \<open>functional characterisations of the translated operations\<close>

unbundle bit_operations_syntax

section \<open>Machine types\<close>

type_synonym byte = "8 word"
type_synonym int64 = "64 word"

section \<open>Error values\<close>

text \<open>
  The values of Go's \<open>error\<close> interface that the program creates, returns or inspects.
  \<open>Errorf\<close> is \<open>fmt.Errorf\<close> with integer arguments only, \<open>Errorf_v\<close> with a cause under
  \<open>%v\<close> (printed, not wrapped; the integers are the other arguments), \<open>Errorf_w\<close> is \<open>fmt.Errorf\<close> with \<open>%w\<close>.
  \<open>Panic\<close> stands for a run-time panic that unwinds the goroutine. \<open>Blocked\<close> is
  not an error of the program: it marks a read on an open connection on which nothing is
  left to read, where the goroutine is parked.
\<close>

datatype go_error =
    EOF
  | UnexpectedEOF
  | NoProgress
  | NetClosed
  | Canceled
  | ServerClosed
  | NetError nat
  | HexInvalidByte byte
  | HexErrLength
  | ErrorNew string
  | Errorf string "int list"
  | Errorf_v string "int list" go_error
  | Errorf_w string go_error
  | Panic string
  | Blocked

type_synonym 'a result = "go_error + 'a"

definition nil_deref :: go_error where
  "nil_deref = Panic ''invalid memory address or nil pointer dereference''"

text \<open>\<open>errors.Is\<close>: the error itself or one of those it wraps with \<open>%w\<close>.\<close>

fun errors_is :: "go_error \<Rightarrow> go_error \<Rightarrow> bool" where
  "errors_is (Errorf_w m c) t = (Errorf_w m c = t \<or> errors_is c t)"
| "errors_is e t = (e = t)"

lemma errors_is_refl [simp]: "errors_is e e"
  by (cases e) simp_all

lemma errors_is_Errorf_v [simp]: "errors_is (Errorf_v m as c) t \<longleftrightarrow> t = Errorf_v m as c"
  by auto

text \<open>A panic is not wrapped by the callers it unwinds.\<close>

definition wrap_v :: "string \<Rightarrow> int list \<Rightarrow> go_error \<Rightarrow> go_error" where
  "wrap_v m as e = (case e of Panic s \<Rightarrow> Panic s | Blocked \<Rightarrow> Blocked | _ \<Rightarrow> Errorf_v m as e)"

definition wrap_w :: "string \<Rightarrow> go_error \<Rightarrow> go_error" where
  "wrap_w m e = (case e of Panic s \<Rightarrow> Panic s | Blocked \<Rightarrow> Blocked | _ \<Rightarrow> Errorf_w m e)"

lemma wrap_w_simps [simp]:
  "wrap_w m EOF = Errorf_w m EOF" "wrap_w m Blocked = Blocked" "wrap_w m (Panic s) = Panic s"
  by (simp_all add: wrap_w_def)

lemma wrap_v_EOF [simp]:
  "wrap_v m as EOF = Errorf_v m as EOF"
  "wrap_v m as UnexpectedEOF = Errorf_v m as UnexpectedEOF"
  "wrap_v m as Blocked = Blocked"
  "wrap_v m as (Panic s) = Panic s"
  by (simp_all add: wrap_v_def)

section \<open>Sequencing of results\<close>

definition bind_result :: "'a result \<Rightarrow> ('a \<Rightarrow> 'b result) \<Rightarrow> 'b result" where
  "bind_result r f = (case r of Inl e \<Rightarrow> Inl e | Inr a \<Rightarrow> f a)"

lemma bind_result_simps [simp]:
  "bind_result (Inl e) f = Inl e"
  "bind_result (Inr a) f = f a"
  by (simp_all add: bind_result_def)

lemma bind_result_Inr_conv:
  "bind_result r f = Inr b \<longleftrightarrow> (\<exists>a. r = Inr a \<and> f a = Inr b)"
  by (cases r) simp_all

lemma bind_result_cong [fundef_cong]:
  "r = r' \<Longrightarrow> (\<And>a. r' = Inr a \<Longrightarrow> f a = f' a) \<Longrightarrow> bind_result r f = bind_result r' f'"
  by (cases r') simp_all

section \<open>Loops over a range\<close>

text \<open>
  A \<open>for i := range xs\<close> loop over a state that may return early with an error, one that
  stops at the first \<open>false\<close>, and one that rewrites the elements while threading a state.
\<close>

fun fold_result :: "('a \<Rightarrow> 's \<Rightarrow> 's result) \<Rightarrow> 'a list \<Rightarrow> 's \<Rightarrow> 's result" where
  "fold_result f [] s = Inr s"
| "fold_result f (x # xs) s = bind_result (f x s) (fold_result f xs)"

fun all_result :: "('a \<Rightarrow> bool result) \<Rightarrow> 'a list \<Rightarrow> bool result" where
  "all_result p [] = Inr True"
| "all_result p (x # xs) = bind_result (p x) (\<lambda>b. if b then all_result p xs else Inr False)"

fun map_state :: "('a \<Rightarrow> 's \<Rightarrow> 'b \<times> 's) \<Rightarrow> 'a list \<Rightarrow> 's \<Rightarrow> 'b list \<times> 's" where
  "map_state f [] s = ([], s)"
| "map_state f (x # xs) s =
     (let (y, s') = f x s; (ys, s'') = map_state f xs s' in (y # ys, s''))"

text \<open>
  The same loop where the state is an effect on the outside, so it is kept when the loop
  returns early; and the one that also rewrites the elements, leaving those after the
  failing one as they were.
\<close>

fun run_all ::
  "('a \<Rightarrow> 's \<Rightarrow> go_error option \<times> 's) \<Rightarrow> 'a list \<Rightarrow> 's \<Rightarrow> go_error option \<times> 's"
where
  "run_all f [] s = (None, s)"
| "run_all f (x # xs) s =
     (case f x s of (Some e, s') \<Rightarrow> (Some e, s') | (None, s') \<Rightarrow> run_all f xs s')"

fun update_all ::
  "('a \<Rightarrow> 's \<Rightarrow> go_error option \<times> 'a \<times> 's) \<Rightarrow> 'a list \<Rightarrow> 's \<Rightarrow> go_error option \<times> 'a list \<times> 's"
where
  "update_all f [] s = (None, [], s)"
| "update_all f (x # xs) s =
     (case f x s of
        (Some e, y, s') \<Rightarrow> (Some e, y # xs, s')
      | (None, y, s') \<Rightarrow> (case update_all f xs s' of (err, ys, s'') \<Rightarrow> (err, y # ys, s'')))"

text \<open>A loop whose body may not return; as a combinator of recursive bodies it is monotone.\<close>

primrec run_opt ::
  "('a \<Rightarrow> 's \<Rightarrow> (go_error option \<times> 's) option) \<Rightarrow> 'a list \<Rightarrow> 's \<Rightarrow> (go_error option \<times> 's) option"
where
  "run_opt f [] s = Some (None, s)"
| "run_opt f (x # xs) s =
     Option.bind (f x s) (\<lambda>(err, s'). case err of Some e \<Rightarrow> Some (Some e, s') | None \<Rightarrow> run_opt f xs s')"

lemma run_opt_mono [partial_function_mono]:
  fixes C :: "'a \<Rightarrow> 's \<Rightarrow> ('b \<Rightarrow> 'c option) \<Rightarrow> (go_error option \<times> 's) option"
  assumes "\<And>x s. mono_option (C x s)"
  shows "mono_option (\<lambda>f. run_opt (\<lambda>x s. C x s f) xs s)"
proof (induction xs arbitrary: s)
  case Nil
  then show ?case by (simp add: option.const_mono)
next
  case (Cons x xs)
  have "mono_option (\<lambda>f. case y of (err, s') \<Rightarrow>
      case err of Some e \<Rightarrow> Some (Some e, s') | None \<Rightarrow> run_opt (\<lambda>x s. C x s f) xs s')" for y
    using Cons by (cases y; cases "fst y") (simp_all add: option.const_mono)
  then show ?case
    by (simp add: bind_mono assms)
qed

lemma run_all_cong [fundef_cong]:
  "xs = ys \<Longrightarrow> s = t \<Longrightarrow> (\<And>x s. x \<in> set ys \<Longrightarrow> f x s = g x s) \<Longrightarrow>
     run_all f xs s = run_all g ys t"
  by (induction ys arbitrary: xs s t) (auto split: prod.splits option.splits)

lemma update_all_cong [fundef_cong]:
  "xs = ys \<Longrightarrow> s = t \<Longrightarrow> (\<And>x s. x \<in> set ys \<Longrightarrow> f x s = g x s) \<Longrightarrow>
     update_all f xs s = update_all g ys t"
  by (induction ys arbitrary: xs s t) (auto split: prod.splits option.splits)

lemma fold_result_cong [fundef_cong]:
  "xs = ys \<Longrightarrow> s = t \<Longrightarrow> (\<And>x s. x \<in> set ys \<Longrightarrow> f x s = g x s) \<Longrightarrow>
     fold_result f xs s = fold_result g ys t"
proof (induction ys arbitrary: xs s t)
  case (Cons y ys)
  then have "fold_result f ys = fold_result g ys" by (intro ext) auto
  with Cons.prems show ?case by simp
qed simp

lemma all_result_cong [fundef_cong]:
  "xs = ys \<Longrightarrow> (\<And>x. x \<in> set ys \<Longrightarrow> p x = q x) \<Longrightarrow> all_result p xs = all_result q ys"
  by (induction ys arbitrary: xs) (auto intro: bind_result_cong)

lemma map_state_cong [fundef_cong]:
  "xs = ys \<Longrightarrow> s = t \<Longrightarrow> (\<And>x s. x \<in> set ys \<Longrightarrow> f x s = g x s) \<Longrightarrow>
     map_state f xs s = map_state g ys t"
  by (induction ys arbitrary: xs s t) (auto split: prod.splits)

lemma length_map_state [simp]: "length (fst (map_state f xs s)) = length xs"
  by (induction xs arbitrary: s) (auto simp: Let_def split: prod.splits dest: arg_cong [of _ _ fst],
      metis fst_conv)

lemma all_result_Inr:
  "(\<And>x. x \<in> set xs \<Longrightarrow> p x = Inr (q x)) \<Longrightarrow> all_result p xs = Inr (list_all q xs)"
  by (induction xs) auto

text \<open>An invariant of a loop over \<open>0, \<dots>, n - 1\<close> that never fails.\<close>

lemma fold_result_upt_inv:
  assumes step: "\<And>i s. i < n \<Longrightarrow> I i s \<Longrightarrow> \<exists>s'. f i s = Inr s' \<and> I (Suc i) s'"
    and "m \<le> n" "I m s"
  shows "\<exists>s'. fold_result f [m..<n] s = Inr s' \<and> I n s'"
  using assms(2,3)
proof (induction "n - m" arbitrary: m s)
  case 0
  then show ?case by simp
next
  case (Suc k)
  then have "m < n" by simp
  with step Suc.prems obtain s' where "f m s = Inr s'" "I (Suc m) s'" by blast
  moreover have "\<exists>t. fold_result f [Suc m..<n] s' = Inr t \<and> I n t"
    using Suc.hyps(1) [of "Suc m" s'] Suc.hyps(2) \<open>m < n\<close> calculation(2) by simp
  ultimately show ?case
    using \<open>m < n\<close> by (simp add: upt_conv_Cons)
qed

text \<open>A loop whose body keeps \<open>I\<close>, or ends it with an error when \<open>E\<close> allows one.\<close>

lemma run_opt_upt_either:
  assumes step: "\<And>i s. i < n \<Longrightarrow> I i s \<Longrightarrow>
      (\<exists>s'. f i s = Some (None, s') \<and> I (Suc i) s') \<or> (\<exists>e s'. f i s = Some (Some e, s') \<and> E)"
    and "m \<le> n" "I m s"
  shows "(\<exists>s'. run_opt f [m..<n] s = Some (None, s') \<and> I n s') \<or>
    (\<exists>e s'. run_opt f [m..<n] s = Some (Some e, s') \<and> E)"
  using assms(2,3)
proof (induction "n - m" arbitrary: m s)
  case 0
  then show ?case by simp
next
  case (Suc k)
  then have "m < n" by simp
  then have upt: "[m..<n] = m # [Suc m..<n]" by (rule upt_conv_Cons)
  from step [OF \<open>m < n\<close> Suc.prems(2)] show ?case
  proof (elim disjE exE conjE)
    fix s' assume s': "f m s = Some (None, s')" "I (Suc m) s'"
    have "(\<exists>t. run_opt f [Suc m..<n] s' = Some (None, t) \<and> I n t) \<or>
        (\<exists>e t. run_opt f [Suc m..<n] s' = Some (Some e, t) \<and> E)"
      using Suc.hyps(1) [of "Suc m" s'] Suc.hyps(2) \<open>m < n\<close> s'(2) by simp
    with s'(1) show ?thesis by (simp add: upt)
  qed (simp add: upt)
qed

lemma run_opt_upt_inv:
  assumes "\<And>i s. i < n \<Longrightarrow> I i s \<Longrightarrow> \<exists>s'. f i s = Some (None, s') \<and> I (Suc i) s'"
    and "m \<le> n" "I m s"
  shows "\<exists>s'. run_opt f [m..<n] s = Some (None, s') \<and> I n s'"
  using run_opt_upt_either [of n I f False m s] assms by blast

lemma fold_result_map: "fold_result f (map h xs) = fold_result (\<lambda>x. f (h x)) xs"
  by (induction xs) (auto intro!: ext)

lemma in_set_enumerateE:
  assumes "x \<in> set (enumerate 0 xs)"
  obtains i where "x = (i, xs ! i)" "i < length xs" "xs ! i \<in> set xs"
  using assms
  by (intro that [of "fst x"]) (auto simp: in_set_enumerate_eq prod_eq_iff dest: nth_mem [of "fst x" xs])

lemma fold_result_enumerate:
  "fold_result (\<lambda>(i, c). f i c) (enumerate 0 xs) = fold_result (\<lambda>i. f i (xs ! i)) [0..<length xs]"
proof -
  have "enumerate 0 xs = map (\<lambda>i. (i, xs ! i)) [0..<length xs]"
    by (rule nth_equalityI) (simp_all add: nth_enumerate_eq)
  then show ?thesis by (simp add: fold_result_map)
qed

text \<open>Applying a fallible function to every element, the first error ends the loop.\<close>

fun map_result :: "('a \<Rightarrow> 'b result) \<Rightarrow> 'a list \<Rightarrow> 'b list result" where
  "map_result f [] = Inr []"
| "map_result f (x # xs) = bind_result (f x) (\<lambda>y. bind_result (map_result f xs) (\<lambda>ys. Inr (y # ys)))"

lemma map_result_cong [fundef_cong]:
  "xs = ys \<Longrightarrow> (\<And>x. x \<in> set ys \<Longrightarrow> f x = g x) \<Longrightarrow> map_result f xs = map_result g ys"
  by (induction ys arbitrary: xs) (auto intro!: bind_result_cong)

lemma map_result_Inr:
  assumes "list_all2 (\<lambda>x y. \<exists>z. f x = Inr z \<and> R y z) xs ys"
  shows "\<exists>zs. map_result f xs = Inr zs \<and> list_all2 R ys zs"
  using assms by (induction rule: list_all2_induct) auto

section \<open>Bytes of a 64-bit word\<close>

text \<open>
  \<open>binary.LittleEndian.PutUint64\<close> and \<open>binary.LittleEndian.Uint64\<close>. The second
  panics on a slice of fewer than 8 bytes and ignores what follows the eighth.
\<close>

definition put_uint64 :: "int64 \<Rightarrow> byte list" where
  "put_uint64 v =
     [ucast v, ucast (drop_bit 8 v), ucast (drop_bit 16 v), ucast (drop_bit 24 v),
      ucast (drop_bit 32 v), ucast (drop_bit 40 v), ucast (drop_bit 48 v), ucast (drop_bit 56 v)]"

fun get_uint64 :: "byte list \<Rightarrow> int64 result" where
  "get_uint64 (b0 # b1 # b2 # b3 # b4 # b5 # b6 # b7 # _) =
     Inr (ucast b0 OR push_bit 8 (ucast b1) OR push_bit 16 (ucast b2) OR
          push_bit 24 (ucast b3) OR push_bit 32 (ucast b4) OR push_bit 40 (ucast b5) OR
          push_bit 48 (ucast b6) OR push_bit 56 (ucast b7))"
| "get_uint64 _ = Inl (Panic ''index out of range'')"

lemma length_put_uint64 [simp]: "length (put_uint64 v) = 8"
  by (simp add: put_uint64_def)

lemma put_uint64_not_Nil [simp]: "put_uint64 v \<noteq> []"
  by (simp add: put_uint64_def)

lemma byte_bit_ge [simp]: "8 \<le> n \<Longrightarrow> \<not> bit (b :: byte) n"
  by (auto dest: bit_imp_le_length)

lemma get_put_uint64 [simp]: "get_uint64 (put_uint64 v) = Inr v"
proof -
  have "bit (projr (get_uint64 (put_uint64 v))) n = bit v n" if "n < 64" for n
    using that
    by (simp add: put_uint64_def bit_simps)
      (cases "n < 8"; cases "n < 16"; cases "n < 24"; cases "n < 32"; cases "n < 40";
       cases "n < 48"; cases "n < 56"; auto simp: less_diff_conv2 not_less)
  then have "projr (get_uint64 (put_uint64 v)) = v"
    by (auto intro: bit_word_eqI)
  then show ?thesis
    by (simp add: put_uint64_def)
qed

lemma length8_cases:
  assumes "length bs = 8"
  obtains b0 b1 b2 b3 b4 b5 b6 b7 where "bs = [b0, b1, b2, b3, b4, b5, b6, b7]"
  using assms by (auto simp: numeral_eq_Suc length_Suc_conv)

lemma get_uint64_Inr:
  assumes "length bs = 8"
  shows "\<exists>v. get_uint64 bs = Inr v \<and> put_uint64 v = bs"
proof -
  from assms obtain b0 b1 b2 b3 b4 b5 b6 b7 where bs: "bs = [b0, b1, b2, b3, b4, b5, b6, b7]"
    by (rule length8_cases)
  show ?thesis
    unfolding bs put_uint64_def
    by (simp, intro conjI; rule bit_word_eqI; simp add: bit_simps)
qed

lemma put_uint64_inject [simp]: "put_uint64 a = put_uint64 b \<longleftrightarrow> a = b"
  by (metis get_put_uint64 sum.inject(2))

section \<open>Lists\<close>

lemma take_append_exact [simp]: "n = length xs \<Longrightarrow> take n (xs @ ys) = xs"
  by simp

lemma drop_append_exact [simp]: "n = length xs \<Longrightarrow> drop n (xs @ ys) = ys"
  by simp

lemma ex_take_self [simp]: "\<exists>k. xs = take k xs"
  by (rule exI [of _ "length xs"]) simp

lemma nat_sint_of_nat:
  "n < 2 ^ 63 \<Longrightarrow> nat (sint (of_nat n :: int64)) = n"
  by (simp add: signed_of_nat signed_take_bit_int_eq_self)

end
