(* ===== verification/GoIO.thy ===== *)
theory GoIO
  imports Prelude
begin

text \<open>
  The part of Go's \<open>io\<close>, \<open>bufio\<close> and \<open>bytes\<close> packages that the protocols use:
  a byte source that arrives in chunks of any size, \<open>bufio.Reader\<close> over it,
  \<open>io.ReadFull\<close> over any reader, a destination that may start failing, and
  \<open>bufio.Writer\<close> over it. Readers and writers are interfaces in Go; the protocol code
  of the other theories takes their \<open>Read\<close> and \<open>Write\<close> methods as arguments, and the
  locales \<open>byte_reader\<close> and \<open>byte_writer\<close> hold the laws that code relies on.
\<close>

section \<open>Sources and buffered readers\<close>

text \<open>
  What a connection (or a request body, or a message) still delivers: the chunks in the
  order they arrive, then the error every later read returns. An empty chunk delivers
  nothing and is skipped.
\<close>

datatype source = Source (src_chunks: "byte list list") (src_end: go_error)

fun chunk_read :: "byte list list \<Rightarrow> nat \<Rightarrow> (byte list \<times> byte list list) option" where
  "chunk_read [] n = None"
| "chunk_read (c # cs) n =
     (if c = [] then chunk_read cs n
      else Some (take n c, if n < length c then drop n c # cs else cs))"

definition src_read :: "source \<Rightarrow> nat \<Rightarrow> byte list result \<times> source" where
  "src_read s n =
     (case chunk_read (src_chunks s) n of
        None \<Rightarrow> (Inl (src_end s), Source [] (src_end s))
      | Some (bs, cs) \<Rightarrow> (Inr bs, Source cs (src_end s)))"

definition src_content :: "source \<Rightarrow> byte list" where
  "src_content s = concat (src_chunks s)"

text \<open>
  \<open>bufio.Reader\<close>: \<open>br_buf\<close> is \<open>b.buf[b.r:b.w]\<close> and \<open>br_size\<close> the size it was created
  with; \<open>len(b.buf)\<close> is at least 16. A
  source of this model never returns bytes together with an error, so the error the
  reader remembers (\<open>b.err\<close>) is returned by the same call that sets it and is not part
  of the state.
\<close>

record breader =
  br_buf :: "byte list"
  br_size :: nat
  br_src :: source

definition br_cap :: "breader \<Rightarrow> nat" where
  "br_cap r = max 16 (br_size r)"

lemma br_cap_pos [simp]: "0 < br_cap r"
  by (simp add: br_cap_def)

definition br_content :: "breader \<Rightarrow> byte list" where
  "br_content r = br_buf r @ src_content (br_src r)"

definition br_end :: "breader \<Rightarrow> go_error" where
  "br_end r = src_end (br_src r)"

text \<open>\<open>(*bufio.Reader).Read(p)\<close> with \<open>len(p) = n\<close>.\<close>

definition br_read :: "breader \<Rightarrow> nat \<Rightarrow> byte list result \<times> breader" where
  "br_read r n =
     (if n = 0 then (Inr [], r)
      else if br_buf r = [] then
        (if br_cap r \<le> n then
           (case src_read (br_src r) n of (res, s) \<Rightarrow> (res, r\<lparr>br_src := s\<rparr>))
         else
           (case src_read (br_src r) (br_cap r) of
              (Inl e, s) \<Rightarrow> (Inl e, r\<lparr>br_src := s\<rparr>)
            | (Inr bs, s) \<Rightarrow> (Inr (take n bs), r\<lparr>br_src := s, br_buf := drop n bs\<rparr>)))
      else (Inr (take n (br_buf r)), r\<lparr>br_buf := drop n (br_buf r)\<rparr>))"

text \<open>\<open>(*bufio.Reader).ReadByte()\<close>; an empty buffer is filled by one read of the source.\<close>

definition br_read_byte :: "breader \<Rightarrow> byte result \<times> breader" where
  "br_read_byte r =
     (case br_buf r of
        b # bs \<Rightarrow> (Inr b, r\<lparr>br_buf := bs\<rparr>)
      | [] \<Rightarrow>
          (case src_read (br_src r) (br_cap r) of
             (Inl e, s) \<Rightarrow> (Inl e, r\<lparr>br_src := s\<rparr>)
           | (Inr [], s) \<Rightarrow> (Inl NoProgress, r\<lparr>br_src := s\<rparr>)
           | (Inr (b # bs), s) \<Rightarrow> (Inr b, r\<lparr>br_src := s, br_buf := bs\<rparr>)))"

text \<open>\<open>(*bufio.Reader).Reset(rd)\<close> keeps the buffer's storage and drops what it holds.\<close>

definition br_reset :: "breader \<Rightarrow> source \<Rightarrow> breader" where
  "br_reset r s = r\<lparr>br_buf := [], br_src := s\<rparr>"

text \<open>
  \<open>io.ReadFull\<close> over the \<open>Read\<close> method \<open>rd\<close> of any reader: \<open>n\<close> bytes are still
  missing and \<open>acc\<close> holds those already read. Go's loop would call \<open>Read\<close> again after a
  read of no bytes; no reader of this development returns one, and the model ends there.
\<close>

function read_full ::
  "('r \<Rightarrow> nat \<Rightarrow> byte list result \<times> 'r) \<Rightarrow> nat \<Rightarrow> byte list \<Rightarrow> 'r \<Rightarrow> byte list result \<times> 'r"
where
  "read_full rd n acc r =
     (if n = 0 then (Inr acc, r)
      else (case rd r n of
              (Inl e, r') \<Rightarrow>
                (Inl (if acc \<noteq> [] \<and> e = EOF then UnexpectedEOF else e), r')
            | (Inr bs, r') \<Rightarrow>
                (if bs = [] \<or> n < length bs then (Inl NoProgress, r')
                 else read_full rd (n - length bs) (acc @ bs) r')))"
  by pat_completeness auto
termination
  by (relation "measure (\<lambda>(rd, n, acc, r). n)") auto

declare read_full.simps [simp del]

section \<open>The contract of a reader\<close>

text \<open>
  \<open>content\<close> is everything the reader still delivers and \<open>fin\<close> the error that follows.
  A read returns a nonempty prefix of the content, of any length up to the one asked for.
\<close>

locale byte_reader =
  fixes rd :: "'r \<Rightarrow> nat \<Rightarrow> byte list result \<times> 'r"
    and content :: "'r \<Rightarrow> byte list"
    and fin :: "'r \<Rightarrow> go_error"
  assumes rd_end:
      "0 < n \<Longrightarrow> content r = [] \<Longrightarrow> fst (rd r n) = Inl (fin r) \<and> content (snd (rd r n)) = []"
    and rd_some:
      "0 < n \<Longrightarrow> content r \<noteq> [] \<Longrightarrow>
         \<exists>k. 0 < k \<and> k \<le> n \<and> k \<le> length (content r) \<and>
             fst (rd r n) = Inr (take k (content r)) \<and> content (snd (rd r n)) = drop k (content r)"
    and rd_fin: "fin (snd (rd r n)) = fin r"
begin

lemma read_full_enough:
  assumes "n \<le> length (content r)"
  shows "fst (read_full rd n acc r) = Inr (acc @ take n (content r)) \<and>
         content (snd (read_full rd n acc r)) = drop n (content r) \<and>
         fin (snd (read_full rd n acc r)) = fin r"
  using assms
proof (induction n arbitrary: acc r rule: less_induct)
  case (less n)
  show ?case
  proof (cases "n = 0")
    case True
    then show ?thesis by (simp add: read_full.simps)
  next
    case False
    with less.prems have ne: "content r \<noteq> []" by auto
    from False obtain k where k: "0 < k" "k \<le> n" "k \<le> length (content r)"
      and f: "fst (rd r n) = Inr (take k (content r))"
      and c: "content (snd (rd r n)) = drop k (content r)"
      using rd_some [OF _ ne, of n] by auto
    obtain r' where rd: "rd r n = (Inr (take k (content r)), r')"
      using f by (cases "rd r n") auto
    have c': "content r' = drop k (content r)" and fin': "fin r' = fin r"
      using c rd_fin [of r n] rd by simp_all
    have unf: "read_full rd n acc r = read_full rd (n - k) (acc @ take k (content r)) r'"
      using False k ne by (subst read_full.simps) (simp add: rd min_absorb1)
    have "n - k \<le> length (content r')"
      using less.prems c' by simp
    then have IH: "fst (read_full rd (n - k) (acc @ take k (content r)) r') =
           Inr ((acc @ take k (content r)) @ take (n - k) (content r')) \<and>
         content (snd (read_full rd (n - k) (acc @ take k (content r)) r')) =
           drop (n - k) (content r') \<and>
         fin (snd (read_full rd (n - k) (acc @ take k (content r)) r')) = fin r'"
      using False k by (intro less.IH) auto
    have "take k (content r) @ take (n - k) (drop k (content r)) = take n (content r)"
      using k by (metis le_add_diff_inverse take_add)
    then show ?thesis
      unfolding unf using IH c' fin' k by simp
  qed
qed

lemma read_full_short:
  assumes "length (content r) < n"
  shows "fst (read_full rd n acc r) =
           Inl (if (acc \<noteq> [] \<or> content r \<noteq> []) \<and> fin r = EOF then UnexpectedEOF else fin r) \<and>
         content (snd (read_full rd n acc r)) = [] \<and>
         fin (snd (read_full rd n acc r)) = fin r"
  using assms
proof (induction n arbitrary: acc r rule: less_induct)
  case (less n)
  then have "0 < n" by simp
  show ?case
  proof (cases "content r = []")
    case True
    obtain r' where rd: "rd r n = (Inl (fin r), r')"
      using rd_end [OF \<open>0 < n\<close> True] by (cases "rd r n") auto
    have "content r' = []" "fin r' = fin r"
      using rd_end [OF \<open>0 < n\<close> True] rd_fin [of r n] rd by simp_all
    then show ?thesis
      using \<open>0 < n\<close> True by (subst (1 2 3) read_full.simps) (simp add: rd)
  next
    case False
    obtain k where k: "0 < k" "k \<le> n" "k \<le> length (content r)"
      and f: "fst (rd r n) = Inr (take k (content r))"
      and c: "content (snd (rd r n)) = drop k (content r)"
      using rd_some [OF \<open>0 < n\<close> False] by auto
    obtain r' where rd: "rd r n = (Inr (take k (content r)), r')"
      using f by (cases "rd r n") auto
    have c': "content r' = drop k (content r)" and fin': "fin r' = fin r"
      using c rd_fin [of r n] rd by simp_all
    have unf: "read_full rd n acc r = read_full rd (n - k) (acc @ take k (content r)) r'"
      using \<open>0 < n\<close> k False by (subst read_full.simps) (simp add: rd min_absorb1)
    have "acc @ take k (content r) \<noteq> []"
      using k False by simp
    moreover have "length (content r') < n - k"
      using less.prems c' k by simp
    ultimately show ?thesis
      unfolding unf using less.IH [of "n - k" r' "acc @ take k (content r)"] k fin' False \<open>0 < n\<close>
      by simp
  qed
qed

end

section \<open>The readers of the program meet the contract\<close>

lemma chunk_read_None: "concat cs = [] \<Longrightarrow> chunk_read cs n = None"
  by (induction cs n rule: chunk_read.induct) auto

lemma chunk_read_Some:
  "0 < n \<Longrightarrow> concat cs \<noteq> [] \<Longrightarrow>
     \<exists>k cs'. 0 < k \<and> k \<le> n \<and> k \<le> length (concat cs) \<and>
       chunk_read cs n = Some (take k (concat cs), cs') \<and> concat cs' = drop k (concat cs)"
proof (induction cs n rule: chunk_read.induct)
  case (1 n)
  then show ?case by simp
next
  case (2 c cs n)
  show ?case
  proof (cases "c = []")
    case True
    with 2 show ?thesis by simp
  next
    case False
    with "2.prems" show ?thesis
      by (intro exI [of _ "min n (length c)"]) (auto simp: min_def)
  qed
qed

lemma src_read_end:
  "src_content s = [] \<Longrightarrow> src_read s n = (Inl (src_end s), Source [] (src_end s))"
  by (simp add: src_read_def src_content_def chunk_read_None)

lemma src_read_some:
  assumes "0 < n" "src_content s \<noteq> []"
  obtains k s' where "0 < k" "k \<le> n" "k \<le> length (src_content s)"
    "src_read s n = (Inr (take k (src_content s)), s')"
    "src_content s' = drop k (src_content s)" "src_end s' = src_end s"
  using chunk_read_Some [of n "src_chunks s"] assms
  by (fastforce simp: src_read_def src_content_def)

lemma src_read_src_end [simp]: "src_end (snd (src_read s n)) = src_end s"
  by (simp add: src_read_def split: option.splits prod.splits)

interpretation src: byte_reader src_read src_content src_end
proof unfold_locales
  fix n :: nat and s
  assume "0 < n" "src_content s = []"
  then show "fst (src_read s n) = Inl (src_end s) \<and> src_content (snd (src_read s n)) = []"
    by (simp add: src_read_end) (simp add: src_content_def)
next
  fix n :: nat and s
  assume "0 < n" "src_content s \<noteq> []"
  then show "\<exists>k>0. k \<le> n \<and> k \<le> length (src_content s) \<and>
      fst (src_read s n) = Inr (take k (src_content s)) \<and>
      src_content (snd (src_read s n)) = drop k (src_content s)"
    by (rule src_read_some) auto
qed simp

lemma br_read_end:
  assumes "0 < n" "br_content r = []"
  shows "fst (br_read r n) = Inl (br_end r) \<and> br_content (snd (br_read r n)) = []"
proof -
  from assms have "br_buf r = []" "src_content (br_src r) = []"
    by (simp_all add: br_content_def)
  with \<open>0 < n\<close> show ?thesis
    by (simp add: br_read_def br_content_def br_end_def src_read_end) (simp add: src_content_def)
qed

lemma drop_take_append_drop: "drop n (take k xs) @ drop k xs = drop (min n k) xs"
proof (cases "n \<le> k")
  case True
  then have "drop k xs = drop (k - n) (drop n xs)" by simp
  then have "take (k - n) (drop n xs) @ drop k xs = drop n xs"
    by (metis append_take_drop_id)
  with True show ?thesis by (simp add: drop_take)
qed simp

lemma br_read_some:
  assumes n: "0 < n" and ne: "br_content r \<noteq> []"
  obtains k r' where "0 < k" "k \<le> n" "k \<le> length (br_content r)"
    "br_read r n = (Inr (take k (br_content r)), r')"
    "br_content r' = drop k (br_content r)" "br_end r' = br_end r"
proof (cases "br_buf r = []")
  case False
  with n show ?thesis
    by (intro that [of "min n (length (br_buf r))" "r\<lparr>br_buf := drop n (br_buf r)\<rparr>"])
      (auto simp: br_read_def br_content_def br_end_def min_def)
next
  case True
  with ne have sne: "src_content (br_src r) \<noteq> []"
    by (simp add: br_content_def)
  show ?thesis
  proof (cases "br_cap r \<le> n")
    case direct: True
    from n sne show ?thesis
    proof (rule src_read_some)
      fix k s'
      assume "0 < k" "k \<le> n" "k \<le> length (src_content (br_src r))"
        "src_read (br_src r) n = (Inr (take k (src_content (br_src r))), s')"
        "src_content s' = drop k (src_content (br_src r))" "src_end s' = src_end (br_src r)"
      with n direct True show ?thesis
        by (intro that [of k "r\<lparr>br_src := s'\<rparr>"])
          (auto simp: br_read_def br_content_def br_end_def)
    qed
  next
    case filled: False
    from br_cap_pos sne show ?thesis
    proof (rule src_read_some)
      fix k s'
      assume k: "0 < k" "k \<le> br_cap r" "k \<le> length (src_content (br_src r))"
        and rd: "src_read (br_src r) (br_cap r) = (Inr (take k (src_content (br_src r))), s')"
        and s': "src_content s' = drop k (src_content (br_src r))" "src_end s' = src_end (br_src r)"
      let ?c = "src_content (br_src r)"
      have "drop n (take k ?c) @ drop k ?c = drop (min n k) ?c"
        by (rule drop_take_append_drop)
      with n filled True k rd s' show ?thesis
        by (intro that [of "min n k" "r\<lparr>br_src := s', br_buf := drop n (take k ?c)\<rparr>"])
          (auto simp: br_read_def br_content_def br_end_def)
    qed
  qed
qed

lemma br_read_br_end [simp]: "br_end (snd (br_read r n)) = br_end r"
proof (cases "n = 0 \<or> br_content r = []")
  case True
  then show ?thesis
    by (auto simp: br_read_def br_content_def br_end_def src_read_end)
next
  case False
  then show ?thesis
    by (metis br_read_some gr0I snd_conv)
qed

interpretation br: byte_reader br_read br_content br_end
proof unfold_locales
  fix n :: nat and r
  assume "0 < n" "br_content r \<noteq> []"
  then show "\<exists>k>0. k \<le> n \<and> k \<le> length (br_content r) \<and>
      fst (br_read r n) = Inr (take k (br_content r)) \<and>
      br_content (snd (br_read r n)) = drop k (br_content r)"
    by (rule br_read_some) auto
qed (simp_all add: br_read_end)

section \<open>Destinations and buffered writers\<close>

text \<open>
  Where the bytes of a connection, a response or a message go. \<open>sk_room\<close> is the number
  of bytes the destination still accepts before every write fails with \<open>sk_err\<close>
  (\<open>None\<close>: it never fails); a failing write may have delivered a prefix.
\<close>

record sink =
  sk_out :: "byte list"
  sk_room :: "nat option"
  sk_err :: go_error

definition sink_write :: "sink \<Rightarrow> byte list \<Rightarrow> nat \<times> go_error option \<times> sink" where
  "sink_write s p =
     (case sk_room s of
        None \<Rightarrow> (length p, None, s\<lparr>sk_out := sk_out s @ p\<rparr>)
      | Some k \<Rightarrow>
          (if length p \<le> k
           then (length p, None, s\<lparr>sk_out := sk_out s @ p, sk_room := Some (k - length p)\<rparr>)
           else (k, Some (sk_err s), s\<lparr>sk_out := sk_out s @ take k p, sk_room := Some 0\<rparr>)))"

text \<open>
  \<open>bufio.Writer\<close>: \<open>bw_buf\<close> is \<open>b.buf[:b.n]\<close>, \<open>bw_size\<close> is \<open>len(b.buf)\<close> and \<open>bw_err\<close>
  the sticky error \<open>b.err\<close>. The byte counts the methods return are never used by the
  program and left out.
\<close>

record bwriter =
  bw_buf :: "byte list"
  bw_size :: nat
  bw_err :: "go_error option"
  bw_dst :: sink

definition bw_available :: "bwriter \<Rightarrow> nat" where
  "bw_available w = bw_size w - length (bw_buf w)"

definition bw_flush :: "bwriter \<Rightarrow> go_error option \<times> bwriter" where
  "bw_flush w =
     (case bw_err w of
        Some e \<Rightarrow> (Some e, w)
      | None \<Rightarrow>
          (if bw_buf w = [] then (None, w)
           else (case sink_write (bw_dst w) (bw_buf w) of
                   (n, Some e, d) \<Rightarrow>
                     (Some e, w\<lparr>bw_buf := drop n (bw_buf w), bw_err := Some e, bw_dst := d\<rparr>)
                 | (n, None, d) \<Rightarrow> (None, w\<lparr>bw_buf := [], bw_dst := d\<rparr>))))"

text \<open>
  \<open>(*bufio.Writer).Write(p)\<close>: while \<open>p\<close> does not fit, an empty buffer is bypassed and
  a filled one is topped up and flushed; an error ends the loop and is returned.
\<close>

function bw_write :: "bwriter \<Rightarrow> byte list \<Rightarrow> go_error option \<times> bwriter" where
  "bw_write w p =
     (case bw_err w of
        Some e \<Rightarrow> (Some e, w)
      | None \<Rightarrow>
          (if length p \<le> bw_available w then (None, w\<lparr>bw_buf := bw_buf w @ p\<rparr>)
           else if bw_buf w = [] then
             (case sink_write (bw_dst w) p of
                (n, Some e, d) \<Rightarrow> (Some e, w\<lparr>bw_err := Some e, bw_dst := d\<rparr>)
              | (n, None, d) \<Rightarrow> bw_write (w\<lparr>bw_dst := d\<rparr>) (drop n p))
           else
             (let n = bw_available w
              in (case bw_flush (w\<lparr>bw_buf := bw_buf w @ take n p\<rparr>) of
                    (Some e, w') \<Rightarrow> (Some e, w')
                  | (None, w') \<Rightarrow> bw_write w' (drop n p)))))"
  by pat_completeness auto
termination
  by (relation "measure (\<lambda>(w, p). length p + (if bw_buf w = [] then 0 else 1))")
    (auto simp: sink_write_def bw_flush_def bw_available_def
       split: option.splits if_splits prod.splits)

declare bw_write.simps [simp del]

text \<open>\<open>(*bufio.Writer).WriteByte(c)\<close>; \<open>Reset\<close> drops buffer and error and changes the destination.\<close>

definition bw_write_byte :: "bwriter \<Rightarrow> byte \<Rightarrow> go_error option \<times> bwriter" where
  "bw_write_byte w c =
     (case bw_err w of
        Some e \<Rightarrow> (Some e, w)
      | None \<Rightarrow>
          (if bw_available w = 0
           then (case bw_flush w of
                   (Some e, w') \<Rightarrow> (Some e, w')
                 | (None, w') \<Rightarrow> (None, w'\<lparr>bw_buf := bw_buf w' @ [c]\<rparr>))
           else (None, w\<lparr>bw_buf := bw_buf w @ [c]\<rparr>)))"

definition bw_reset :: "bwriter \<Rightarrow> sink \<Rightarrow> bwriter" where
  "bw_reset w d = w\<lparr>bw_buf := [], bw_err := None, bw_dst := d\<rparr>"

text \<open>\<open>(*bytes.Buffer).Write\<close> and the \<open>Write\<close> of an unbuffered destination.\<close>

definition buffer_write :: "byte list \<Rightarrow> byte list \<Rightarrow> go_error option \<times> byte list" where
  "buffer_write b p = (None, b @ p)"

definition dst_write :: "sink \<Rightarrow> byte list \<Rightarrow> go_error option \<times> sink" where
  "dst_write s p = (case sink_write s p of (_, err, s') \<Rightarrow> (err, s'))"

section \<open>The contract of a writer\<close>

text \<open>
  \<open>out\<close> is everything accepted so far. A write adds a prefix of its argument, all of it
  when it reports no error, and a \<open>reliable\<close> writer never reports one.
\<close>

locale byte_writer =
  fixes wr :: "'w \<Rightarrow> byte list \<Rightarrow> go_error option \<times> 'w"
    and out :: "'w \<Rightarrow> byte list"
    and reliable :: "'w \<Rightarrow> bool"
  assumes wr_prefix: "\<exists>k. out (snd (wr w p)) = out w @ take k p"
    and wr_None: "fst (wr w p) = None \<Longrightarrow> out (snd (wr w p)) = out w @ p"
    and wr_reliable: "reliable w \<Longrightarrow> fst (wr w p) = None \<and> reliable (snd (wr w p))"
begin

lemma wr_reliable_eq:
  assumes "reliable w"
  obtains w' where "wr w p = (None, w')" "out w' = out w @ p" "reliable w'"
  using wr_reliable [OF assms, of p] wr_None [of w p] by (cases "wr w p") auto

end

definition bw_out :: "bwriter \<Rightarrow> byte list" where
  "bw_out w = sk_out (bw_dst w) @ bw_buf w"

definition bw_reliable :: "bwriter \<Rightarrow> bool" where
  "bw_reliable w \<longleftrightarrow> bw_err w = None \<and> sk_room (bw_dst w) = None"

lemma sink_write_out:
  "sink_write s p = (n, err, s') \<Longrightarrow>
     sk_out s' = sk_out s @ take n p \<and> n \<le> length p \<and> (err = None \<longrightarrow> n = length p) \<and>
     (sk_room s = None \<longrightarrow> err = None \<and> sk_room s' = None)"
  by (auto simp: sink_write_def split: option.splits if_splits)

lemma bw_flush_props:
  assumes "bw_flush w = (err, w')"
  shows "bw_out w' = bw_out w" "bw_size w' = bw_size w" "bw_err w' = err"
    "err = None \<Longrightarrow> bw_buf w' = []" "bw_reliable w \<Longrightarrow> err = None \<and> bw_reliable w'"
  using assms
  by (auto simp: bw_flush_def bw_out_def bw_reliable_def dest!: sink_write_out
      split: option.splits if_splits prod.splits)

lemma bw_write_props:
  assumes "bw_write w p = (err, w')"
  shows "(\<exists>k. bw_out w' = bw_out w @ take k p) \<and> (err = None \<longrightarrow> bw_out w' = bw_out w @ p) \<and>
    bw_err w' = err \<and> bw_size w' = bw_size w \<and>
    (bw_reliable w \<longrightarrow> err = None \<and> bw_reliable w')"
  using assms
proof (induction w p arbitrary: err w' rule: bw_write.induct)
  case (1 w p)
  show ?case
  proof (cases "bw_err w")
    case (Some e)
    with "1.prems" show ?thesis
      by (auto simp: bw_write.simps [of w p] bw_reliable_def intro: exI [of _ 0])
  next
    case None
    consider (fits) "length p \<le> bw_available w"
      | (direct) "\<not> length p \<le> bw_available w" "bw_buf w = []"
      | (top_up) "\<not> length p \<le> bw_available w" "bw_buf w \<noteq> []"
      by blast
    then show ?thesis
    proof cases
      case fits
      with None "1.prems" show ?thesis
        by (auto simp: bw_write.simps [of w p] bw_out_def bw_reliable_def
            intro: exI [of _ "length p"])
    next
      case direct
      obtain n e d where sw: "sink_write (bw_dst w) p = (n, e, d)"
        by (cases "sink_write (bw_dst w) p")
      note sw' = sink_write_out [OF sw]
      show ?thesis
      proof (cases e)
        case (Some e')
        with None direct "1.prems" sw sw' show ?thesis
          by (auto simp: bw_write.simps [of w p] bw_out_def bw_reliable_def)
      next
        case e: None
        with sw' have n: "n = length p" by simp
        have rec: "bw_write (w\<lparr>bw_dst := d\<rparr>) [] = (err, w')"
          using "1.prems" None direct sw e n by (simp add: bw_write.simps [of w p])
        then have "err = None" "w' = w\<lparr>bw_dst := d\<rparr>"
          using None by (auto simp: bw_write.simps [of "w\<lparr>bw_dst := d\<rparr>" "[]"])
        with None direct sw' n show ?thesis
          by (auto simp: bw_out_def bw_reliable_def intro: exI [of _ "length p"])
      qed
    next
      case top_up
      let ?n = "bw_available w"
      let ?w1 = "w\<lparr>bw_buf := bw_buf w @ take ?n p\<rparr>"
      obtain e w2 where fl: "bw_flush ?w1 = (e, w2)"
        by (cases "bw_flush ?w1")
      note fl' = bw_flush_props [OF fl]
      have out1: "bw_out ?w1 = bw_out w @ take ?n p"
        by (simp add: bw_out_def)
      have rel1: "bw_reliable ?w1 = bw_reliable w"
        by (simp add: bw_reliable_def)
      show ?thesis
      proof (cases e)
        case (Some e')
        with None top_up fl "1.prems" have "err = Some e'" "w' = w2"
          by (auto simp: bw_write.simps [of w p] Let_def)
        with fl' out1 rel1 Some show ?thesis by auto
      next
        case e: None
        have rec: "bw_write w2 (drop ?n p) = (err, w')"
          using "1.prems" None top_up fl e by (simp add: bw_write.simps [of w p] Let_def)
        have IH: "(\<exists>k. bw_out w' = bw_out w2 @ take k (drop ?n p)) \<and>
            (err = None \<longrightarrow> bw_out w' = bw_out w2 @ drop ?n p) \<and>
            bw_err w' = err \<and> bw_size w' = bw_size w2 \<and>
            (bw_reliable w2 \<longrightarrow> err = None \<and> bw_reliable w')"
          using "1.IH"(2) [OF None top_up refl _ _ rec] fl e by simp
        then obtain k where "bw_out w' = bw_out w @ take ?n p @ take k (drop ?n p)"
          using fl'(1) out1 by auto
        then have "bw_out w' = bw_out w @ take (?n + k) p"
          by (simp add: take_add)
        with IH fl' out1 rel1 show ?thesis by auto
      qed
    qed
  qed
qed

interpretation bw: byte_writer bw_write bw_out bw_reliable
proof unfold_locales
  fix w p
  obtain err w' where "bw_write w p = (err, w')" by (cases "bw_write w p")
  then show "\<exists>k. bw_out (snd (bw_write w p)) = bw_out w @ take k p"
    and "fst (bw_write w p) = None \<Longrightarrow> bw_out (snd (bw_write w p)) = bw_out w @ p"
    and "bw_reliable w \<Longrightarrow> fst (bw_write w p) = None \<and> bw_reliable (snd (bw_write w p))"
    using bw_write_props by fastforce+
qed

interpretation buf: byte_writer buffer_write "\<lambda>b. b" "\<lambda>_. True"
  by unfold_locales (auto simp: buffer_write_def intro: exI [of _ "length _"])

interpretation dst: byte_writer dst_write sk_out "\<lambda>s. sk_room s = None"
  by unfold_locales (auto simp: dst_write_def dest!: sink_write_out split: prod.splits)

lemma bw_write_byte_reliable:
  assumes "bw_reliable w"
  obtains w' where "bw_write_byte w c = (None, w')" "bw_out w' = bw_out w @ [c]" "bw_reliable w'"
proof (cases "bw_available w = 0")
  case True
  obtain w1 where fl: "bw_flush w = (None, w1)"
    using bw_flush_props(5) assms by (metis prod.collapse)
  show ?thesis
    using assms True fl bw_flush_props [OF fl]
    by (intro that [of "w1\<lparr>bw_buf := bw_buf w1 @ [c]\<rparr>"])
      (auto simp: bw_write_byte_def bw_reliable_def bw_out_def)
next
  case False
  with assms show ?thesis
    by (intro that [of "w\<lparr>bw_buf := bw_buf w @ [c]\<rparr>"])
      (auto simp: bw_write_byte_def bw_reliable_def bw_out_def)
qed

lemma bw_flush_reliable:
  assumes "bw_reliable w"
  obtains w' where "bw_flush w = (None, w')" "sk_out (bw_dst w') = bw_out w" "bw_buf w' = []"
    "bw_reliable w'" "bw_out w' = bw_out w"
proof -
  obtain e w' where fl: "bw_flush w = (e, w')" by (cases "bw_flush w")
  with assms bw_flush_props [OF fl] show ?thesis
    by (intro that [of w']) (auto simp: bw_out_def)
qed

lemma br_read_byte_content:
  assumes "br_content r = b # bs"
  obtains r' where "br_read_byte r = (Inr b, r')" "br_content r' = bs" "br_end r' = br_end r"
proof (cases "br_buf r")
  case (Cons c cs)
  with assms show ?thesis
    by (intro that [of "r\<lparr>br_buf := cs\<rparr>"]) (auto simp: br_read_byte_def br_content_def br_end_def)
next
  case Nil
  with assms have c: "src_content (br_src r) = b # bs"
    by (simp add: br_content_def)
  then have "src_content (br_src r) \<noteq> []" by simp
  with br_cap_pos show ?thesis
  proof (rule src_read_some)
    fix k s'
    assume k: "0 < k" and "k \<le> br_cap r" "k \<le> length (src_content (br_src r))"
      and rd: "src_read (br_src r) (br_cap r) = (Inr (take k (src_content (br_src r))), s')"
      and s': "src_content s' = drop k (src_content (br_src r))" "src_end s' = src_end (br_src r)"
    from k obtain j where "k = Suc j" by (cases k) auto
    with Nil c rd s' show ?thesis
      by (intro that [of "r\<lparr>br_src := s', br_buf := take j bs\<rparr>"])
        (auto simp: br_read_byte_def br_content_def br_end_def)
  qed
qed

lemma br_read_byte_end:
  assumes "br_content r = []"
  obtains r' where "br_read_byte r = (Inl (br_end r), r')" "br_content r' = []"
    "br_end r' = br_end r"
proof -
  from assms have "br_buf r = []" "src_content (br_src r) = []"
    by (simp_all add: br_content_def)
  then show ?thesis
    by (intro that [of "r\<lparr>br_src := Source [] (src_end (br_src r))\<rparr>"])
      (simp_all add: br_read_byte_def br_content_def br_end_def src_read_end, simp add: src_content_def)
qed

section \<open>Copying\<close>

text \<open>\<open>io.Copy\<close> from a source through its buffer of 32 KB; the end of the input is no error.\<close>

function io_copy ::
  "('w \<Rightarrow> byte list \<Rightarrow> go_error option \<times> 'w) \<Rightarrow> 'w \<Rightarrow> source \<Rightarrow> go_error option \<times> 'w \<times> source"
where
  "io_copy wr w s =
     (case src_read s (32 * 1024) of
        (Inl e, s') \<Rightarrow> (if e = EOF then None else Some e, w, s')
      | (Inr bs, s') \<Rightarrow>
          (case wr w bs of
             (Some e, w') \<Rightarrow> (Some e, w', s')
           | (None, w') \<Rightarrow> io_copy wr w' s'))"
  by pat_completeness auto

lemma src_read_decreases:
  assumes "src_read s n = (Inr bs, s')" "0 < n"
  shows "length (src_content s') < length (src_content s)"
proof (cases "src_content s = []")
  case True
  with assms show ?thesis by (simp add: src_read_end)
next
  case False
  with assms show ?thesis by (auto elim: src_read_some [OF \<open>0 < n\<close>, of s])
qed

termination io_copy
  by (relation "measure (\<lambda>(wr, w, s). length (src_content s))") (auto intro: src_read_decreases [OF sym])

declare io_copy.simps [simp del]

text \<open>Copying through a writer that never fails and transforms what it is given by \<open>f\<close>.\<close>

lemma io_copy_transform:
  assumes wr: "\<And>w p. ok w \<Longrightarrow> \<exists>w'. wr w p = (None, w') \<and> out w' = out w @ f p \<and> ok w'"
    and f: "\<And>xs ys. f (xs @ ys) = f xs @ f ys" "f [] = []"
    and "ok w" "src_end s = EOF"
  shows "\<exists>w' s'. io_copy wr w s = (None, w', s') \<and> out w' = out w @ f (src_content s) \<and> ok w'"
  using assms(4,5)
proof (induction "length (src_content s)" arbitrary: s w rule: less_induct)
  case less
  show ?case
  proof (cases "src_content s = []")
    case True
    with less.prems show ?thesis
      by (simp add: io_copy.simps [of wr w s] src_read_end f(2))
  next
    case False
    obtain k s1 where k: "0 < k" "k \<le> length (src_content s)"
      "src_read s (32 * 1024) = (Inr (take k (src_content s)), s1)"
      "src_content s1 = drop k (src_content s)" "src_end s1 = src_end s"
      by (rule src_read_some [of "32 * 1024" s]) (use False in auto)
    obtain w1 where w1: "wr w (take k (src_content s)) = (None, w1)"
      "out w1 = out w @ f (take k (src_content s))" "ok w1"
      using wr less.prems(1) by blast
    have less': "length (src_content s1) < length (src_content s)"
      using k False by simp
    obtain w2 s2 where w2: "io_copy wr w1 s1 = (None, w2, s2)"
      "out w2 = out w1 @ f (src_content s1)" "ok w2"
      using less.hyps [OF less' w1(3)] k(5) less.prems(2) by auto
    have "f (take k (src_content s)) @ f (drop k (src_content s)) = f (src_content s)"
      by (metis append_take_drop_id f(1))
    with k w1 w2 show ?thesis
      by (simp add: io_copy.simps [of wr w s])
  qed
qed

section \<open>Arrival\<close>

text \<open>
  The bytes of one direction arrive in chunks whose sizes are given in advance; when the
  list of sizes is used up, everything is one chunk.
\<close>

fun cut_bytes :: "nat list \<Rightarrow> byte list \<Rightarrow> byte list list \<times> nat list" where
  "cut_bytes [] xs = ([xs], [])"
| "cut_bytes (n # ns) xs =
     (if xs = [] then ([], n # ns)
      else (case cut_bytes ns (drop n xs) of (cs, ns') \<Rightarrow> (take n xs # cs, ns')))"

lemma concat_cut_bytes [simp]: "concat (fst (cut_bytes ns xs)) = xs"
  by (induction ns xs rule: cut_bytes.induct) (auto split: prod.splits)

lemma cut_bytes_content [simp]:
  "cut_bytes cuts xs = (cs, cuts') \<Longrightarrow> concat cs = xs"
  by (metis concat_cut_bytes fst_conv)

end
