(* ===== verification/HexCodec.thy ===== *)
theory HexCodec
  imports GoIO
begin

text \<open>
  The part of Go's \<open>encoding/hex\<close> the servers and the harness use: \<open>hex.Encode\<close>,
  \<open>hex.Decode\<close> and the streaming \<open>hex.NewEncoder\<close>.
\<close>

section \<open>Encoding and decoding\<close>

definition hex_digit :: "byte \<Rightarrow> byte" where
  "hex_digit n = (if n < 10 then 48 + n else 87 + n)"

definition hex_byte :: "byte \<Rightarrow> byte list" where
  "hex_byte b = [hex_digit (drop_bit 4 b), hex_digit (b AND 15)]"

definition hex_encode :: "byte list \<Rightarrow> byte list" where
  "hex_encode bs = concat (map hex_byte bs)"

text \<open>The reverse table of the package: digits in either case, nothing else.\<close>

definition hex_val :: "byte \<Rightarrow> byte option" where
  "hex_val c =
     (if 48 \<le> c \<and> c \<le> 57 then Some (c - 48)
      else if 97 \<le> c \<and> c \<le> 102 then Some (c - 87)
      else if 65 \<le> c \<and> c \<le> 70 then Some (c - 55)
      else None)"

text \<open>
  \<open>hex.Decode(dst, src)\<close>: the bytes it stores at the front of \<open>dst\<close> and the error. A
  wrong character is reported before an odd length.
\<close>

fun hex_decode :: "byte list \<Rightarrow> byte list \<times> go_error option" where
  "hex_decode (p # q # cs) =
     (case hex_val p of
        None \<Rightarrow> ([], Some (HexInvalidByte p))
      | Some a \<Rightarrow>
          (case hex_val q of
             None \<Rightarrow> ([], Some (HexInvalidByte q))
           | Some b \<Rightarrow>
               (case hex_decode cs of
                  (bs, err) \<Rightarrow> ((push_bit 4 a OR b) # bs, err))))"
| "hex_decode [p] =
     ([], Some (if hex_val p = None then HexInvalidByte p else HexErrLength))"
| "hex_decode [] = ([], None)"

text \<open>
  The \<open>Write\<close> method of \<open>hex.NewEncoder(w)\<close>: at most 512 bytes are encoded at a time
  and written to \<open>w\<close>; the first error of \<open>w\<close> ends the loop. Its callers abandon the
  encoder on an error, so the error it remembers is not part of the state.
\<close>

function hex_encoder_write ::
  "('w \<Rightarrow> byte list \<Rightarrow> go_error option \<times> 'w) \<Rightarrow> 'w \<Rightarrow> byte list \<Rightarrow> go_error option \<times> 'w"
where
  "hex_encoder_write wr w p =
     (if p = [] then (None, w)
      else (case wr w (hex_encode (take 512 p)) of
              (Some e, w') \<Rightarrow> (Some e, w')
            | (None, w') \<Rightarrow> hex_encoder_write wr w' (drop 512 p)))"
  by pat_completeness auto
termination
  by (relation "measure (\<lambda>(wr, w, p). length p)") auto

declare hex_encoder_write.simps [simp del]

section \<open>Round trip\<close>

lemma hex_encode_simps [simp]:
  "hex_encode [] = []"
  "hex_encode (b # bs) = hex_digit (drop_bit 4 b) # hex_digit (b AND 15) # hex_encode bs"
  "hex_encode (xs @ ys) = hex_encode xs @ hex_encode ys"
  by (simp_all add: hex_encode_def hex_byte_def)

lemma length_hex_encode [simp]: "length (hex_encode bs) = 2 * length bs"
  by (induction bs) simp_all

lemma hex_val_hex_digit_nat:
  "list_all (\<lambda>k. hex_val (hex_digit (word_of_nat k)) = Some (word_of_nat k)) [0..<16]"
  by code_simp

lemma hex_val_hex_digit:
  assumes "n < 16"
  shows "hex_val (hex_digit n) = Some n"
proof -
  from assms have "unat n \<in> set [0..<16]"
    by (simp add: word_less_nat_alt)
  with hex_val_hex_digit_nat have
    "hex_val (hex_digit (word_of_nat (unat n))) = Some (word_of_nat (unat n))"
    unfolding list_all_iff by blast
  then show ?thesis by simp
qed

lemma nibbles_less: "drop_bit 4 (b :: byte) < 16" "(b :: byte) AND 15 < 16"
proof -
  have "unat (drop_bit 4 b) = unat b div 2 ^ 4"
    unfolding unat_drop_bit_eq by (rule drop_bit_eq_div)
  moreover have "unat b < 256"
    using unsigned_less [of b, where ?'a = nat] by simp
  ultimately have "unat (drop_bit 4 b) < 16" by simp
  then show "drop_bit 4 b < 16"
    by (simp add: word_less_nat_alt)
  have "b AND 15 \<le> 15"
    by (rule word_and_le1)
  also have "(15 :: byte) < 16" by simp
  finally show "b AND 15 < 16" .
qed

lemma nibbles_join: "push_bit 4 (drop_bit 4 (b :: byte)) OR (b AND 15) = b"
proof (rule bit_word_eqI)
  fix n assume n: "n < LENGTH(8)"
  have m: "(15 :: byte) = mask 4" by (simp add: mask_eq_exp_minus_1)
  show "bit (push_bit 4 (drop_bit 4 b) OR (b AND 15)) n = bit b n"
    unfolding m using n by (cases "n < 4") (auto simp: bit_simps)
qed

lemma hex_decode_encode [simp]: "hex_decode (hex_encode bs) = (bs, None)"
  by (induction bs) (simp_all add: hex_val_hex_digit nibbles_less nibbles_join)

lemma hex_encode_inject [simp]: "hex_encode xs = hex_encode ys \<longleftrightarrow> xs = ys"
  by (metis hex_decode_encode prod.inject)

context byte_writer
begin

lemma hex_encoder_write_reliable:
  assumes "reliable w"
  shows "\<exists>w'. hex_encoder_write wr w p = (None, w') \<and> out w' = out w @ hex_encode p \<and> reliable w'"
  using assms
proof (induction "length p" arbitrary: p w rule: less_induct)
  case less
  show ?case
  proof (cases "p = []")
    case True
    with less.prems show ?thesis by (simp add: hex_encoder_write.simps)
  next
    case False
    obtain w1 where w1: "wr w (hex_encode (take 512 p)) = (None, w1)"
      "out w1 = out w @ hex_encode (take 512 p)" "reliable w1"
      using less.prems by (rule wr_reliable_eq)
    have "length (drop 512 p) < length p" using False by simp
    from less.hyps [OF this w1(3)]
    obtain w2 where w2: "hex_encoder_write wr w1 (drop 512 p) = (None, w2)"
      "out w2 = out w1 @ hex_encode (drop 512 p)" "reliable w2" by blast
    have "hex_encode (take 512 p) @ hex_encode (drop 512 p) = hex_encode p"
      by (metis append_take_drop_id hex_encode_simps(3))
    with False w1 w2 show ?thesis
      by (simp add: hex_encoder_write.simps [of wr w p])
  qed
qed

end

end
