(* ===== verification/TreeNode.thy ===== *)
theory TreeNode
  imports Prelude
begin

text \<open>
  \<open>rpcbench/treenode.go\<close> and the \<open>TreeNode\<close> interface of \<open>rpcbench/interface.go\<close>: the
  tree every system sends and returns, the operations of the harness's own implementation
  of it, and the functions the harness builds, fills, copies and compares trees with.
\<close>

section \<open>Trees as values\<close>

text \<open>What a tree is to the harness: a value and the sequence of its children.\<close>

datatype vtree = VT (vvalue: int64) (vchildren: "vtree list")

fun vnodes :: "vtree \<Rightarrow> nat" where
  "vnodes (VT v cs) = Suc (sum_list (map vnodes cs))"

fun vmult :: "int64 \<Rightarrow> vtree \<Rightarrow> vtree" where
  "vmult m (VT v cs) = VT (v * m) (map (vmult m) cs)"

text \<open>The layout of a tree without its values.\<close>

fun vlayout :: "vtree \<Rightarrow> vtree" where
  "vlayout (VT v cs) = VT 0 (map vlayout cs)"

text \<open>The values in the order of a depth-first traversal, parents first.\<close>

fun vvalues :: "vtree \<Rightarrow> int64 list" where
  "vvalues (VT v cs) = v # concat (map vvalues cs)"

text \<open>At most \<open>l\<close> levels below the root; and the two bounds systems put on a tree.\<close>

fun vlow :: "nat \<Rightarrow> vtree \<Rightarrow> bool" where
  "vlow 0 (VT v cs) \<longleftrightarrow> cs = []"
| "vlow (Suc l) (VT v cs) \<longleftrightarrow> (\<forall>c \<in> set cs. vlow l c)"

definition vwithin :: "nat \<Rightarrow> nat \<Rightarrow> vtree \<Rightarrow> bool" where
  "vwithin n l t \<longleftrightarrow> vnodes t \<le> n \<and> vlow l t"

lemma vnodes_vlayout [simp]: "vnodes (vlayout t) = vnodes t"
proof (induction t)
  case (VT v cs)
  then have "sum_list (map (vnodes \<circ> vlayout) cs) = sum_list (map vnodes cs)"
    by (intro arg_cong [of _ _ sum_list] map_cong) auto
  then show ?case by simp
qed

lemma vlow_vlayout [simp]: "vlow l (vlayout t) = vlow l t"
  by (induction l t rule: vlow.induct) auto

lemma vlow_leaf [simp]: "vlow l (VT v [])"
  by (cases l) simp_all

lemma vlow_mono: "vlow l t \<Longrightarrow> l \<le> l' \<Longrightarrow> vlow l' t"
proof (induction l t arbitrary: l' rule: vlow.induct)
  case (2 l v cs)
  then show ?case by (cases l') auto
qed simp

lemma vwithin_layout: "vlayout t = vlayout u \<Longrightarrow> vwithin n l t = vwithin n l u"
  unfolding vwithin_def by (metis vnodes_vlayout vlow_vlayout)

section \<open>\<open>TreeNodeImpl\<close>\<close>

text \<open>
  A Go slice of nodes is its length and its backing array: \<open>tn_store\<close> holds the \<open>cap\<close>
  nodes that are allocated, of which the first \<open>tn_len\<close> are \<open>t.Children\<close>. The nodes
  behind them are those a later \<open>t.Children[:n]\<close> makes visible again.
\<close>

datatype TreeNodeImpl =
  TreeNodeImpl (tn_value: int64) (tn_len: nat) (tn_store: "TreeNodeImpl list")

definition tn_zero :: TreeNodeImpl where
  "tn_zero = TreeNodeImpl 0 0 []"

abbreviation tn_children :: "TreeNodeImpl \<Rightarrow> TreeNodeImpl list" where
  "tn_children t \<equiv> take (tn_len t) (tn_store t)"

fun tn_wf :: "TreeNodeImpl \<Rightarrow> bool" where
  "tn_wf (TreeNodeImpl v n cs) \<longleftrightarrow> n \<le> length cs \<and> (\<forall>c \<in> set cs. tn_wf c)"

lemma size_take_child [termination_simp]:
  "c \<in> set (take n cs) \<Longrightarrow> size c < Suc (size_list size cs)"
  by (meson in_set_takeD less_Suc_eq_le order_refl size_list_estimation')

fun tn_view :: "TreeNodeImpl \<Rightarrow> vtree" where
  "tn_view (TreeNodeImpl v n cs) = VT v (map tn_view (take n cs))"

definition tn_SetValue :: "int64 \<Rightarrow> TreeNodeImpl \<Rightarrow> TreeNodeImpl" where
  "tn_SetValue v t = TreeNodeImpl v (tn_len t) (tn_store t)"

definition tn_GetValue :: "TreeNodeImpl \<Rightarrow> int64" where
  "tn_GetValue t = tn_value t"

definition tn_InitChildren :: "nat \<Rightarrow> TreeNodeImpl \<Rightarrow> TreeNodeImpl" where
  "tn_InitChildren n t =
     (if n \<le> length (tn_store t) then TreeNodeImpl (tn_value t) n (tn_store t)
      else TreeNodeImpl (tn_value t) n (replicate n tn_zero))"

definition tn_ChildrenCount :: "TreeNodeImpl \<Rightarrow> nat" where
  "tn_ChildrenCount t = length (tn_children t)"

text \<open>
  \<open>Child(i)\<close> returns a pointer into the slice: \<open>tn_Child\<close> reads the node it points to
  and \<open>tn_PutChild\<close> is the store through it. An index out of range panics.
\<close>

definition tn_Child :: "TreeNodeImpl \<Rightarrow> nat \<Rightarrow> TreeNodeImpl result" where
  "tn_Child t i =
     (if i < length (tn_children t) then Inr (tn_children t ! i)
      else Inl (Panic ''index out of range''))"

definition tn_PutChild :: "TreeNodeImpl \<Rightarrow> nat \<Rightarrow> TreeNodeImpl \<Rightarrow> TreeNodeImpl" where
  "tn_PutChild t i c = TreeNodeImpl (tn_value t) (tn_len t) ((tn_store t)[i := c])"

fun tn_Reset :: "TreeNodeImpl \<Rightarrow> TreeNodeImpl" where
  "tn_Reset (TreeNodeImpl v n cs) = TreeNodeImpl v 0 (map tn_Reset (take n cs) @ drop n cs)"

fun tn_TotalNodes :: "TreeNodeImpl \<Rightarrow> int64" where
  "tn_TotalNodes (TreeNodeImpl v n cs) = 1 + sum_list (map tn_TotalNodes (take n cs))"

fun tn_Mult :: "int64 \<Rightarrow> TreeNodeImpl \<Rightarrow> TreeNodeImpl" where
  "tn_Mult m (TreeNodeImpl v n cs) =
     TreeNodeImpl (v * m) n (map (tn_Mult m) (take n cs) @ drop n cs)"

definition NewTreeNode :: TreeNodeImpl where
  "NewTreeNode = tn_zero"

section \<open>The \<open>TreeNode\<close> interface\<close>

text \<open>
  The method table of a Go value of interface type \<open>TreeNode\<close>. The methods that may
  panic return a result, and \<open>TotalNodes\<close> may not return on a cyclic tree; \<open>op_PutChild\<close> is
  the store through the pointer \<open>Child\<close> returns.
\<close>

record 't tree_ops =
  op_SetValue :: "int64 \<Rightarrow> 't \<Rightarrow> 't result"
  op_GetValue :: "'t \<Rightarrow> int64"
  op_InitChildren :: "nat \<Rightarrow> 't \<Rightarrow> 't result"
  op_ChildrenCount :: "'t \<Rightarrow> nat result"
  op_Child :: "'t \<Rightarrow> nat \<Rightarrow> 't result"
  op_PutChild :: "'t \<Rightarrow> nat \<Rightarrow> 't \<Rightarrow> 't"
  op_TotalNodes :: "'t \<Rightarrow> int64 result option"

definition tn_ops :: "TreeNodeImpl tree_ops" where
  "tn_ops =
     \<lparr>op_SetValue = (\<lambda>v t. Inr (tn_SetValue v t)),
      op_GetValue = tn_GetValue,
      op_InitChildren = (\<lambda>n t. Inr (tn_InitChildren n t)),
      op_ChildrenCount = (\<lambda>t. Inr (tn_ChildrenCount t)),
      op_Child = tn_Child,
      op_PutChild = tn_PutChild,
      op_TotalNodes = (\<lambda>t. Some (Inr (tn_TotalNodes t)))\<rparr>"

text \<open>Running \<open>f\<close> on the node \<open>t.Child(i)\<close> points to.\<close>

definition with_child ::
  "'t tree_ops \<Rightarrow> nat \<Rightarrow> ('t \<Rightarrow> 't result) \<Rightarrow> 't \<Rightarrow> 't result" where
  "with_child ops i f t =
     bind_result (op_Child ops t i) (\<lambda>c.
       bind_result (f c) (\<lambda>c'. Inr (op_PutChild ops t i c')))"

lemma with_child_cong [fundef_cong]:
  "ops = ops' \<Longrightarrow> i = i' \<Longrightarrow> t = t' \<Longrightarrow> (\<And>c. f c = g c) \<Longrightarrow>
     with_child ops i f t = with_child ops' i' g t'"
  by (simp add: with_child_def)

section \<open>The random generator\<close>

text \<open>
  \<open>*rand.Rand\<close> is a tape of the 64-bit draws it will make, 0 once the tape is used up.
  \<open>Int64\<close> clears the sign bit; \<open>IntN(n)\<close> returns a number below \<open>n\<close> and panics
  for \<open>n <= 0\<close>. Every sequence of results is that of some tape.
\<close>

type_synonym rng = "int64 list"

fun rng_draw :: "rng \<Rightarrow> int64 \<times> rng" where
  "rng_draw [] = (0, [])"
| "rng_draw (x # xs) = (x, xs)"

definition rng_Int64 :: "rng \<Rightarrow> int64 \<times> rng" where
  "rng_Int64 g = (case rng_draw g of (x, g') \<Rightarrow> (x AND mask 63, g'))"

definition rng_IntN :: "int \<Rightarrow> rng \<Rightarrow> (int \<times> rng) result" where
  "rng_IntN n g =
     (if n \<le> 0 then Inl (Panic ''invalid argument to IntN'')
      else (case rng_draw g of (x, g') \<Rightarrow> Inr (uint x mod n, g')))"

section \<open>Building, filling, copying and comparing trees\<close>

fun copyLayout :: "TreeNodeImpl \<Rightarrow> TreeNodeImpl \<Rightarrow> TreeNodeImpl" where
  "copyLayout (TreeNodeImpl v n cs) tgt =
     TreeNodeImpl (tn_value tgt) (length (take n cs)) (map (\<lambda>c. copyLayout c tn_zero) (take n cs))"

fun populateWithRand :: "TreeNodeImpl \<Rightarrow> rng \<Rightarrow> TreeNodeImpl \<times> rng" where
  "populateWithRand (TreeNodeImpl v n cs) g =
     (let (v', g1) = rng_Int64 g;
          (cs', g2) = map_state populateWithRand (take n cs) g1
      in (TreeNodeImpl v' n (cs' @ drop n cs), g2))"

lemma size_enumerate_child [termination_simp]:
  "(i, c) \<in> set (enumerate k (take n cs)) \<Longrightarrow> size c < Suc (size_list size cs)"
  by (metis in_set_enumerate_eq in_set_conv_nth le_add_diff_inverse less_diff_conv2
      nth_mem add.commute size_take_child fst_conv snd_conv)

text \<open>The harness copies one of its own trees into the tree of the system under test.\<close>

fun copyTree :: "'t tree_ops \<Rightarrow> TreeNodeImpl \<Rightarrow> 't \<Rightarrow> 't result" where
  "copyTree ops (TreeNodeImpl v n cs) to =
     bind_result (op_SetValue ops v to) (\<lambda>to1.
       bind_result (op_InitChildren ops (length (take n cs)) to1) (\<lambda>to2.
         fold_result (\<lambda>(i, c). with_child ops i (copyTree ops c)) (enumerate 0 (take n cs)) to2))"

function makeDenseTreeNode :: "'t tree_ops \<Rightarrow> nat \<Rightarrow> int \<Rightarrow> 't \<Rightarrow> 't result" where
  "makeDenseTreeNode ops density level src =
     (if level \<le> 0 then Inr src
      else bind_result (op_InitChildren ops density src) (\<lambda>src'.
        fold_result (\<lambda>i. with_child ops i (makeDenseTreeNode ops density (level - 1)))
          [0..<density] src'))"
  by pat_completeness auto
termination
  by (relation "measure (\<lambda>(ops, density, level, src). nat level)") auto

declare makeDenseTreeNode.simps [simp del]

text \<open>
  \<open>makeRandomTree\<close> threads the generator through the loop; Go's \<open>branching/2\<close>
  truncates, which is \<open>div\<close> for the positive values that reach it.
\<close>

function makeRandomTree ::
  "'t tree_ops \<Rightarrow> int \<Rightarrow> int \<Rightarrow> 't \<times> rng \<Rightarrow> ('t \<times> rng) result"
where
  "makeRandomTree ops level branching st =
     (if level \<le> 0 \<or> branching \<le> 0 then Inr st
      else bind_result (rng_IntN branching (snd st)) (\<lambda>(c, g1).
        bind_result (op_InitChildren ops (nat c) (fst st)) (\<lambda>src1.
          fold_result (\<lambda>i (src, g).
              bind_result (rng_IntN (branching div 2) g) (\<lambda>(r, g').
                bind_result (op_Child ops src i) (\<lambda>ch.
                  bind_result (makeRandomTree ops (level - 1) (branching - r) (ch, g'))
                    (\<lambda>(ch', g''). Inr (op_PutChild ops src i ch', g'')))))
            [0..<nat c] (src1, g1))))"
  by pat_completeness auto
termination
  by (relation "measure (\<lambda>(ops, level, branching, st). nat level)") auto

declare makeRandomTree.simps [simp del]

fun treeMatchesForMult :: "'t tree_ops \<Rightarrow> 't \<Rightarrow> TreeNodeImpl \<Rightarrow> int64 \<Rightarrow> bool result" where
  "treeMatchesForMult ops src (TreeNodeImpl v n cs) mult =
     (if v * mult \<noteq> op_GetValue ops src then Inr False
      else bind_result (op_ChildrenCount ops src) (\<lambda>count.
        if length (take n cs) \<noteq> count then Inr False
        else all_result (\<lambda>(i, c).
               bind_result (op_Child ops src i) (\<lambda>s. treeMatchesForMult ops s c mult))
             (enumerate 0 (take n cs))))"

section \<open>The contract of the interface\<close>

text \<open>
  A value of the interface shows a tree (\<open>view\<close>). Reading it is what the comparison of a
  reply needs; filling it needs the three writing methods too.
\<close>

locale tree_reader =
  fixes ops :: "'t tree_ops" and view :: "'t \<Rightarrow> vtree" and ok :: "'t \<Rightarrow> bool"
  assumes get_value: "ok t \<Longrightarrow> op_GetValue ops t = vvalue (view t)"
    and children_count: "ok t \<Longrightarrow> op_ChildrenCount ops t = Inr (length (vchildren (view t)))"
    and child_at: "ok t \<Longrightarrow> i < length (vchildren (view t)) \<Longrightarrow>
      \<exists>c. op_Child ops t i = Inr c \<and> ok c \<and> view c = vchildren (view t) ! i"
begin

lemma matches_view:
  "ok src \<Longrightarrow>
     treeMatchesForMult ops src tgt mult = Inr (view src = vmult mult (tn_view tgt))"
proof (induction tgt arbitrary: src)
  case (TreeNodeImpl v n cs)
  let ?xs = "take n cs"
  obtain w ys where view: "view src = VT w ys" by (cases "view src")
  then have gv: "op_GetValue ops src = w" and cc: "op_ChildrenCount ops src = Inr (length ys)"
    using TreeNodeImpl.prems by (simp_all add: get_value children_count)
  show ?case
  proof (cases "v * mult = w \<and> length ?xs = length ys")
    case False
    moreover have "ys \<noteq> map (vmult mult) (map tn_view ?xs)" if "length ?xs \<noteq> length ys"
      using that by (metis length_map)
    ultimately show ?thesis
      by (auto simp: gv cc view simp del: length_take)
  next
    case True
    let ?q = "\<lambda>(i, c). ys ! i = vmult mult (tn_view c)"
    have "all_result (\<lambda>(i, c). bind_result (op_Child ops src i)
             (\<lambda>s. treeMatchesForMult ops s c mult)) (enumerate 0 ?xs)
          = Inr (list_all ?q (enumerate 0 ?xs))"
    proof (rule all_result_Inr)
      fix x assume "x \<in> set (enumerate 0 ?xs)"
      then obtain i c where x: "x = (i, c)" and i: "i < length ys" and c: "c \<in> set cs"
        by (rule in_set_enumerateE) (metis True in_set_takeD)
      from i obtain s where "op_Child ops src i = Inr s" "ok s" "view s = ys ! i"
        using child_at [of src i] TreeNodeImpl.prems view by auto
      then show "(case x of (i, c) \<Rightarrow> bind_result (op_Child ops src i)
          (\<lambda>s. treeMatchesForMult ops s c mult)) = Inr (?q x)"
        using TreeNodeImpl.IH [OF c, of s] by (simp add: x)
    qed
    moreover have "list_all ?q (enumerate 0 ?xs) \<longleftrightarrow> ys = map (vmult mult) (map tn_view ?xs)"
      using True by (auto simp: list_all_iff in_set_enumerate_eq list_eq_iff_nth_eq)
    ultimately show ?thesis
      using True by (simp add: gv cc view)
  qed
qed

end

locale tree_node = tree_reader +
  assumes set_value: "ok t \<Longrightarrow>
      \<exists>t'. op_SetValue ops v t = Inr t' \<and> ok t' \<and> view t' = VT v (vchildren (view t))"
    and init_children: "ok t \<Longrightarrow>
      \<exists>t'. op_InitChildren ops n t = Inr t' \<and> ok t' \<and> vvalue (view t') = vvalue (view t) \<and>
           length (vchildren (view t')) = n"
    and put_child: "ok t \<Longrightarrow> ok c \<Longrightarrow> i < length (vchildren (view t)) \<Longrightarrow>
      ok (op_PutChild ops t i c) \<and>
      view (op_PutChild ops t i c) = VT (vvalue (view t)) ((vchildren (view t))[i := view c])"
begin

text \<open>A loop that rewrites every child leaves a node whose children are the results.\<close>

lemma fill_children:
  assumes step: "\<And>i c. i < n \<Longrightarrow> ok c \<Longrightarrow> \<exists>c'. f i c = Inr c' \<and> ok c' \<and> P i (view c')"
    and t: "ok t" "length (vchildren (view t)) = n"
  shows "\<exists>t'. fold_result (\<lambda>i. with_child ops i (f i)) [0..<n] t = Inr t' \<and> ok t' \<and>
           vvalue (view t') = vvalue (view t) \<and> length (vchildren (view t')) = n \<and>
           (\<forall>i < n. P i (vchildren (view t') ! i))"
proof -
  let ?I = "\<lambda>k s. ok s \<and> vvalue (view s) = vvalue (view t) \<and> length (vchildren (view s)) = n \<and>
              (\<forall>i < k. P i (vchildren (view s) ! i))"
  have "\<exists>s'. with_child ops i (f i) s = Inr s' \<and> ?I (Suc i) s'" if i: "i < n" and I: "?I i s" for i s
  proof -
    from I i obtain c where c: "op_Child ops s i = Inr c" "ok c"
      using child_at [of s i] by auto
    obtain c' where c': "f i c = Inr c'" "ok c'" "P i (view c')"
      using step [OF i c(2)] by blast
    have "?I (Suc i) (op_PutChild ops s i c')"
      using put_child [of s c' i] I i c'
      by (auto simp: nth_list_update less_Suc_eq)
    then show ?thesis
      using c c' by (auto simp: with_child_def)
  qed
  from fold_result_upt_inv [where I = ?I, OF this] show ?thesis
    using t by auto
qed

lemma copyTree_view:
  "ok to \<Longrightarrow> \<exists>to'. copyTree ops from to = Inr to' \<and> ok to' \<and> view to' = tn_view from"
proof (induction "from" arbitrary: to)
  case (TreeNodeImpl v n cs)
  let ?xs = "take n cs"
  obtain t1 where t1: "op_SetValue ops v to = Inr t1" "ok t1" "vvalue (view t1) = v"
    using set_value [OF TreeNodeImpl.prems, of v] by auto
  obtain t2 where t2: "op_InitChildren ops (length ?xs) t1 = Inr t2" "ok t2"
      "vvalue (view t2) = v" "length (vchildren (view t2)) = length ?xs"
    using init_children [OF t1(2), of "length ?xs"] t1(3) by auto
  have step: "\<exists>c'. copyTree ops (?xs ! i) c = Inr c' \<and> ok c' \<and> view c' = tn_view (?xs ! i)"
    if "i < length ?xs" "ok c" for i c
    using that by (intro TreeNodeImpl.IH) (auto dest: nth_mem in_set_takeD)
  obtain t3 where t3: "fold_result (\<lambda>i. with_child ops i (copyTree ops (?xs ! i))) [0..<length ?xs] t2
        = Inr t3" "ok t3" "vvalue (view t3) = v" "length (vchildren (view t3)) = length ?xs"
      "\<forall>i < length ?xs. vchildren (view t3) ! i = tn_view (?xs ! i)"
    using fill_children [where f = "\<lambda>i. copyTree ops (?xs ! i)" and P = "\<lambda>i x. x = tn_view (?xs ! i)",
        OF step t2(2,4)] t2(3) by auto
  have "vchildren (view t3) = map tn_view ?xs"
    using t3(4,5) by (auto simp: list_eq_iff_nth_eq)
  then have "view t3 = tn_view (TreeNodeImpl v n cs)"
    using t3(3) by (cases "view t3") simp
  moreover have "copyTree ops (TreeNodeImpl v n cs) to = Inr t3"
    using t1(1) t2(1) t3(1) by (simp add: fold_result_enumerate)
  ultimately show ?case
    using t3(2) by blast
qed

end

text \<open>
  What the harness needs of the tree it fills, for the systems whose trees are not nodes of
  their own but places in a message: \<open>filled t t' vt\<close> says that \<open>t'\<close> is \<open>t\<close> after \<open>vt\<close>
  was copied into it.
\<close>

locale tree_filler =
  fixes ops :: "'t tree_ops" and start :: "'t \<Rightarrow> bool"
    and filled :: "'t \<Rightarrow> 't \<Rightarrow> vtree \<Rightarrow> bool" and max_tree max_levels :: nat
  assumes copyTree_filled: "start to \<Longrightarrow> vwithin max_tree max_levels (tn_view from) \<Longrightarrow>
      \<exists>to'. copyTree ops from to = Inr to' \<and> filled to to' (tn_view from)"

sublocale tree_node \<subseteq> filler: tree_filler ops ok "\<lambda>t t' vt. ok t' \<and> view t' = vt" n l for n l
  by unfold_locales (rule copyTree_view)

section \<open>\<open>TreeNodeImpl\<close> meets the contract\<close>

lemma tn_view_sel: "tn_view t = VT (tn_value t) (map tn_view (tn_children t))"
  by (cases t) simp

lemma tn_wf_sel: "tn_wf t \<longleftrightarrow> tn_len t \<le> length (tn_store t) \<and> (\<forall>c \<in> set (tn_store t). tn_wf c)"
  by (cases t) simp

lemma vvalue_tn_view [simp]: "vvalue (tn_view t) = tn_value t"
  by (simp add: tn_view_sel)

lemma vchildren_tn_view [simp]: "vchildren (tn_view t) = map tn_view (tn_children t)"
  by (simp add: tn_view_sel)

lemma tn_wf_children: "tn_wf t \<Longrightarrow> c \<in> set (tn_children t) \<Longrightarrow> tn_wf c"
  by (cases t) (auto dest: in_set_takeD)

lemma tn_wf_InitChildren: "tn_wf t \<Longrightarrow> tn_wf (tn_InitChildren n t)"
  by (cases t) (auto simp: tn_InitChildren_def tn_zero_def)

interpretation tn: tree_node tn_ops tn_view tn_wf
proof unfold_locales
  fix t n assume "tn_wf t"
  then show "\<exists>t'. op_InitChildren tn_ops n t = Inr t' \<and> tn_wf t' \<and>
      vvalue (tn_view t') = vvalue (tn_view t) \<and> length (vchildren (tn_view t')) = n"
    using tn_wf_InitChildren [of t n]
    by (auto simp: tn_ops_def tn_InitChildren_def)
next
  fix t i assume "tn_wf t" "i < length (vchildren (tn_view t))"
  then show "\<exists>c. op_Child tn_ops t i = Inr c \<and> tn_wf c \<and> tn_view c = vchildren (tn_view t) ! i"
    by (cases t) (auto simp: tn_ops_def tn_Child_def)
next
  fix t c i assume "tn_wf t" "tn_wf c" "i < length (vchildren (tn_view t))"
  then show "tn_wf (op_PutChild tn_ops t i c) \<and> tn_view (op_PutChild tn_ops t i c) =
      VT (vvalue (tn_view t)) ((vchildren (tn_view t))[i := tn_view c])"
    by (cases t) (auto simp: tn_ops_def tn_PutChild_def take_update_swap map_update
        dest!: set_update_subset_insert [THEN subsetD])
next
  fix t v assume "tn_wf t"
  then show "\<exists>t'. op_SetValue tn_ops v t = Inr t' \<and> tn_wf t' \<and>
      tn_view t' = VT v (vchildren (tn_view t))"
    by (cases t) (auto simp: tn_ops_def tn_SetValue_def)
qed (simp_all add: tn_ops_def tn_GetValue_def tn_ChildrenCount_def)

section \<open>The other operations of \<open>TreeNodeImpl\<close>\<close>

lemma tn_view_Mult [go_simps]: "tn_view (tn_Mult m t) = vmult m (tn_view t)"
proof (induction t)
  case (TreeNodeImpl v n cs)
  then have "map tn_view (map (tn_Mult m) (take n cs)) = map (vmult m) (map tn_view (take n cs))"
    by (auto dest: in_set_takeD)
  then show ?case by (simp add: min_def)
qed

lemma tn_wf_Mult: "tn_wf t \<Longrightarrow> tn_wf (tn_Mult m t)"
  by (induction t) (auto dest: in_set_takeD in_set_dropD)

lemma tn_wf_Reset: "tn_wf t \<Longrightarrow> tn_wf (tn_Reset t)"
  by (induction t) (auto dest: in_set_takeD in_set_dropD)

lemma tn_view_Reset: "tn_view (tn_Reset t) = VT (tn_value t) []"
  by (cases t) simp

lemma length_store_Reset [simp]: "length (tn_store (tn_Reset t)) = length (tn_store t)"
  by (cases t) (simp add: min_def)

lemma sum_list_word_of_nat:
  "sum_list (map (\<lambda>x. word_of_nat (f x)) xs) = word_of_nat (sum_list (map f xs))"
  by (induction xs) simp_all

lemma tn_TotalNodes_view: "tn_TotalNodes t = word_of_nat (vnodes (tn_view t))"
proof (induction t)
  case (TreeNodeImpl v n cs)
  have "map tn_TotalNodes (take n cs) = map (\<lambda>c. word_of_nat (vnodes (tn_view c))) (take n cs)"
    using TreeNodeImpl by (auto dest: in_set_takeD)
  then show ?case
    by (simp add: sum_list_word_of_nat o_def del: map_eq_conv)
qed

lemma map_state_Cons_fst_snd:
  "map_state f (x # xs) s =
     (fst (f x s) # fst (map_state f xs (snd (f x s))), snd (map_state f xs (snd (f x s))))"
  by (simp add: Let_def split: prod.splits)

lemma map_state_fst_induct:
  assumes "\<And>x s. x \<in> set xs \<Longrightarrow> P x (fst (f x s))"
  shows "list_all2 P xs (fst (map_state f xs s))"
  using assms
  by (induction xs arbitrary: s) (simp_all add: map_state_Cons_fst_snd del: map_state.simps(2))

lemma populateWithRand_props:
  "vlayout (tn_view (fst (populateWithRand t g))) = vlayout (tn_view t) \<and>
   (tn_wf t \<longrightarrow> tn_wf (fst (populateWithRand t g)))"
proof (induction t arbitrary: g)
  case (TreeNodeImpl v n cs)
  obtain v' g1 where g1: "rng_Int64 g = (v', g1)" by (cases "rng_Int64 g")
  let ?ys = "fst (map_state populateWithRand (take n cs) g1)"
  have eq: "fst (populateWithRand (TreeNodeImpl v n cs) g) = TreeNodeImpl v' n (?ys @ drop n cs)"
    by (simp add: g1 split: prod.splits)
  have rel: "list_all2 (\<lambda>x y. vlayout (tn_view y) = vlayout (tn_view x) \<and> (tn_wf x \<longrightarrow> tn_wf y))
      (take n cs) ?ys"
    by (rule map_state_fst_induct) (use TreeNodeImpl in \<open>auto dest: in_set_takeD\<close>)
  then have "map (vlayout \<circ> tn_view) ?ys = map (vlayout \<circ> tn_view) (take n cs)"
    by (auto simp: list_all2_conv_all_nth list_eq_iff_nth_eq)
  moreover have "(\<forall>x \<in> set cs. tn_wf x) \<longrightarrow> (\<forall>y \<in> set ?ys. tn_wf y)"
    using rel by (auto simp: list_all2_conv_all_nth all_set_conv_all_nth)
  ultimately show ?case
    unfolding eq by (auto simp: min_def o_def dest: in_set_dropD)
qed

section \<open>The trees the harness builds\<close>

fun vdense :: "nat \<Rightarrow> nat \<Rightarrow> vtree" where
  "vdense d 0 = VT 0 []"
| "vdense d (Suc l) = VT 0 (replicate d (vdense d l))"

text \<open>At most \<open>l\<close> levels below the root, every node with fewer than \<open>b\<close> children.\<close>

fun vfits :: "nat \<Rightarrow> nat \<Rightarrow> vtree \<Rightarrow> bool" where
  "vfits 0 b (VT v cs) \<longleftrightarrow> cs = []"
| "vfits (Suc l) b (VT v cs) \<longleftrightarrow> (cs = [] \<or> length cs < b) \<and> (\<forall>c \<in> set cs. vfits l b c)"

fun max_nodes :: "nat \<Rightarrow> nat \<Rightarrow> nat" where
  "max_nodes 0 b = 1"
| "max_nodes (Suc l) b = Suc ((b - 1) * max_nodes l b)"

lemma vfits_leaf [simp]: "vfits l b (VT v [])"
  by (cases l) simp_all

lemma vfits_mono: "vfits l b t \<Longrightarrow> b \<le> b' \<Longrightarrow> vfits l b' t"
  by (induction l b t rule: vfits.induct) auto

lemma vfits_nodes: "vfits l b t \<Longrightarrow> vnodes t \<le> max_nodes l b"
proof (induction l b t rule: vfits.induct)
  case (1 b v cs)
  then show ?case by simp
next
  case (2 l b v cs)
  then have "sum_list (map vnodes cs) \<le> sum_list (map (\<lambda>_. max_nodes l b) cs)"
    by (intro sum_list_mono) auto
  also have "\<dots> = length cs * max_nodes l b"
    by (simp add: sum_list_triv)
  also have "\<dots> \<le> (b - 1) * max_nodes l b"
    using "2.prems" by (intro mult_le_mono1) auto
  finally show ?case by simp
qed

text \<open>
  A loop over the children of a node whose children are all fresh: iteration \<open>i\<close> replaces
  child \<open>i\<close> and threads a further state.
\<close>

lemma fill_fresh:
  assumes step: "\<And>i cs s. i < n \<Longrightarrow> length cs = n \<Longrightarrow> cs ! i = tn_zero \<Longrightarrow>
      \<exists>c s'. body i (mk (TreeNodeImpl v n cs) s) = Inr (mk (TreeNodeImpl v n (cs[i := c])) s') \<and> Q c"
  shows "\<exists>cs s'. fold_result body [0..<n] (mk (TreeNodeImpl v n (replicate n tn_zero)) s0)
      = Inr (mk (TreeNodeImpl v n cs) s') \<and> length cs = n \<and> (\<forall>c \<in> set cs. Q c)"
proof -
  let ?I = "\<lambda>i st. \<exists>cs s'. st = mk (TreeNodeImpl v n cs) s' \<and> length cs = n \<and>
              (\<forall>j < i. Q (cs ! j)) \<and> (\<forall>j. i \<le> j \<and> j < n \<longrightarrow> cs ! j = tn_zero)"
  let ?z = "mk (TreeNodeImpl v n (replicate n tn_zero)) s0"
  have step': "\<exists>st'. body i st = Inr st' \<and> ?I (Suc i) st'" if i: "i < n" and I: "?I i st" for i st
  proof -
    from I obtain cs s where st: "st = mk (TreeNodeImpl v n cs) s" and len: "length cs = n"
      and Q: "\<forall>j < i. Q (cs ! j)" and z: "\<forall>j. i \<le> j \<and> j < n \<longrightarrow> cs ! j = tn_zero" by blast
    obtain c s' where c: "body i st = Inr (mk (TreeNodeImpl v n (cs[i := c])) s')" "Q c"
      using step [OF i len] z i st by blast
    have "\<forall>j < Suc i. Q (cs[i := c] ! j)" "\<forall>j. Suc i \<le> j \<and> j < n \<longrightarrow> cs[i := c] ! j = tn_zero"
      using len i Q z c(2) by (auto simp: nth_list_update less_Suc_eq)
    then have "?I (Suc i) (mk (TreeNodeImpl v n (cs[i := c])) s')"
      using len by (metis length_list_update)
    with c show ?thesis by blast
  qed
  have "?I 0 ?z"
    by (intro exI [of _ "replicate n tn_zero"] exI [of _ s0]) simp
  then have "\<exists>st'. fold_result body [0..<n] ?z = Inr st' \<and> ?I n st'"
    by (intro fold_result_upt_inv [where I = ?I, OF step']) simp_all
  then obtain cs s' where "fold_result body [0..<n] ?z = Inr (mk (TreeNodeImpl v n cs) s')"
    "length cs = n" "\<forall>j < n. Q (cs ! j)"
    by blast
  moreover from this have "\<forall>c \<in> set cs. Q c"
    by (auto simp: in_set_conv_nth)
  ultimately show ?thesis by blast
qed

lemma tn_ops_simps [simp]:
  "op_SetValue tn_ops v t = Inr (tn_SetValue v t)"
  "op_GetValue tn_ops t = tn_GetValue t"
  "op_InitChildren tn_ops n t = Inr (tn_InitChildren n t)"
  "op_ChildrenCount tn_ops t = Inr (tn_ChildrenCount t)"
  "op_Child tn_ops t i = tn_Child t i"
  "op_PutChild tn_ops t i c = tn_PutChild t i c"
  by (simp_all add: tn_ops_def)

lemma tn_InitChildren_zero: "tn_InitChildren n tn_zero = TreeNodeImpl 0 n (replicate n tn_zero)"
  by (simp add: tn_InitChildren_def tn_zero_def)

lemma rng_IntN_bound:
  assumes "0 < n"
  obtains r g' where "rng_IntN n g = Inr (r, g')" "0 \<le> r" "r < n"
  using assms by (cases "rng_draw g") (simp add: rng_IntN_def)

lemma makeRandomTree_fits:
  "\<exists>t g'. makeRandomTree tn_ops level branching (tn_zero, g) = Inr (t, g') \<and> tn_wf t \<and>
     vfits (nat level) (nat branching) (tn_view t)"
proof (induction "nat level" arbitrary: level branching g rule: less_induct)
  case less
  show ?case
  proof (cases "level \<le> 0 \<or> branching \<le> 0")
    case True
    then show ?thesis
      by (auto simp: makeRandomTree.simps [of _ level] tn_zero_def)
  next
    case False
    then have pos: "0 < level" "0 < branching" by simp_all
    obtain c g1 where c: "rng_IntN branching g = Inr (c, g1)" "0 \<le> c" "c < branching"
      using rng_IntN_bound [OF pos(2)] by blast
    let ?body = "\<lambda>i (src, g). bind_result (rng_IntN (branching div 2) g) (\<lambda>(r, g').
                bind_result (op_Child tn_ops src i) (\<lambda>ch.
                  bind_result (makeRandomTree tn_ops (level - 1) (branching - r) (ch, g'))
                    (\<lambda>(ch', g''). Inr (op_PutChild tn_ops src i ch', g''))))"
    let ?Q = "\<lambda>t. tn_wf t \<and> vfits (nat (level - 1)) (nat branching) (tn_view t)"
    have step: "\<exists>t g'. ?body i (TreeNodeImpl 0 (nat c) cs, g) =
        Inr (TreeNodeImpl 0 (nat c) (cs[i := t]), g') \<and> ?Q t"
      if i: "i < nat c" "length cs = nat c" "cs ! i = tn_zero" for i cs g
    proof -
      from i(1) c have "0 < branching div 2" by simp
      then obtain r g' where r: "rng_IntN (branching div 2) g = Inr (r, g')" "0 \<le> r"
        using rng_IntN_bound by blast
      obtain t g'' where t: "makeRandomTree tn_ops (level - 1) (branching - r) (tn_zero, g')
            = Inr (t, g'')" "tn_wf t" "vfits (nat (level - 1)) (nat (branching - r)) (tn_view t)"
        using less.hyps [of "level - 1" "branching - r" g'] pos by auto
      from t(3) have "vfits (nat (level - 1)) (nat branching) (tn_view t)"
        by (rule vfits_mono) (use r in simp)
      with r t i show ?thesis
        by (intro exI [of _ t] exI [of _ g'']) (simp add: tn_Child_def tn_PutChild_def)
    qed
    obtain cs g' where loop: "fold_result ?body [0..<nat c]
          (TreeNodeImpl 0 (nat c) (replicate (nat c) tn_zero), g1)
          = Inr (TreeNodeImpl 0 (nat c) cs, g')" "length cs = nat c" "\<forall>t \<in> set cs. ?Q t"
      using fill_fresh [where body = ?body and Q = ?Q and mk = Pair, OF step] by blast
    have "makeRandomTree tn_ops level branching (tn_zero, g) = Inr (TreeNodeImpl 0 (nat c) cs, g')"
      using pos c(1) loop(1)
      by (subst makeRandomTree.simps) (simp add: tn_InitChildren_zero)
    moreover have "nat level = Suc (nat (level - 1))" using pos by simp
    ultimately show ?thesis
      using loop(2,3) c by auto
  qed
qed

lemma makeDenseTreeNode_dense:
  "\<exists>t. makeDenseTreeNode tn_ops d level tn_zero = Inr t \<and> tn_wf t \<and>
     tn_view t = vdense d (nat level)"
proof (induction "nat level" arbitrary: level rule: less_induct)
  case less
  show ?case
  proof (cases "level \<le> 0")
    case True
    then show ?thesis
      by (auto simp: makeDenseTreeNode.simps [of _ _ level] tn_zero_def)
  next
    case False
    let ?body = "\<lambda>i. with_child tn_ops i (makeDenseTreeNode tn_ops d (level - 1))"
    let ?Q = "\<lambda>t. tn_wf t \<and> tn_view t = vdense d (nat (level - 1))"
    obtain t where t: "makeDenseTreeNode tn_ops d (level - 1) tn_zero = Inr t" "?Q t"
      using less.hyps [of "level - 1"] False by auto
    have step: "\<exists>c u'. ?body i (TreeNodeImpl 0 d cs) = Inr (TreeNodeImpl 0 d (cs[i := c])) \<and> ?Q c"
      if "i < d" "length cs = d" "cs ! i = tn_zero" for i cs
      using that t by (auto simp: with_child_def tn_Child_def tn_PutChild_def)
    obtain cs where loop: "fold_result ?body [0..<d] (TreeNodeImpl 0 d (replicate d tn_zero))
          = Inr (TreeNodeImpl 0 d cs)" "length cs = d" "\<forall>t \<in> set cs. ?Q t"
      using fill_fresh [where body = ?body and Q = ?Q and mk = "\<lambda>t (u::unit). t", OF step] by blast
    have "map tn_view cs = replicate d (vdense d (nat (level - 1)))"
      using loop(2,3) by (simp add: list_eq_iff_nth_eq)
    moreover have "nat level = Suc (nat (level - 1))" using False by simp
    moreover have "makeDenseTreeNode tn_ops d level tn_zero = Inr (TreeNodeImpl 0 d cs)"
      using False loop(1) by (subst makeDenseTreeNode.simps) (simp add: tn_InitChildren_zero)
    ultimately show ?thesis
      using loop(2,3) by auto
  qed
qed

section \<open>Properties\<close>

text \<open>C28: \<open>copyTree\<close> never fails and makes its target show the source, whatever values,
  children and hidden storage the target is left with from earlier calls.\<close>

theorem copyTree_exact:
  assumes "tn_wf to"
  shows "\<exists>to'. copyTree tn_ops from to = Inr to' \<and> tn_wf to' \<and> tn_view to' = tn_view from"
  using assms by (rule tn.copyTree_view)

lemma copyTree_exact_witness:
  "\<exists>to'. copyTree tn_ops (TreeNodeImpl 5 2 [TreeNodeImpl 7 0 [], TreeNodeImpl 8 0 []])
      (TreeNodeImpl 9 0 [TreeNodeImpl 3 1 [tn_zero]]) = Inr to' \<and> tn_wf to' \<and>
    tn_view to' = VT 5 [VT 7 [], VT 8 []]"
  using copyTree_exact [of "TreeNodeImpl 9 0 [TreeNodeImpl 3 1 [tn_zero]]"
      "TreeNodeImpl 5 2 [TreeNodeImpl 7 0 [], TreeNodeImpl 8 0 []]"]
  by (simp add: tn_zero_def del: copyTree.simps)

text \<open>C29: \<open>treeMatchesForMult\<close> accepts a reply exactly when it is the target tree with
  every value multiplied, and never panics on a well-formed reply.\<close>

theorem treeMatchesForMult_exact:
  assumes "tn_wf src"
  shows "treeMatchesForMult tn_ops src tgt mult = Inr (tn_view src = vmult mult (tn_view tgt))"
  using assms by (rule tn.matches_view)

lemma treeMatchesForMult_exact_witness:
  "treeMatchesForMult tn_ops (TreeNodeImpl 6 1 [TreeNodeImpl 9 0 []])
      (TreeNodeImpl 2 1 [TreeNodeImpl 3 0 [], tn_zero]) 3 = Inr True"
  using treeMatchesForMult_exact [of "TreeNodeImpl 6 1 [TreeNodeImpl 9 0 []]"
      "TreeNodeImpl 2 1 [TreeNodeImpl 3 0 [], tn_zero]" 3]
  by (simp del: treeMatchesForMult.simps)

lemma tn_value_Reset [simp]: "tn_value (tn_Reset c) = tn_value c"
  by (cases c) simp

text \<open>After \<open>Reset\<close> a node shows no children, but its storage stays: a later
  \<open>InitChildren\<close> that fits allocates nothing, and the nodes it makes visible again still have
  their old values (and, where they were visible, no children).\<close>

lemma Reset_keeps_storage:
  assumes "tn_wf t" "n \<le> length (tn_store t)"
  shows "tn_ChildrenCount (tn_Reset t) = 0 \<and>
    tn_store (tn_InitChildren n (tn_Reset t)) = tn_store (tn_Reset t) \<and>
    length (tn_store (tn_Reset t)) = length (tn_store t) \<and>
    tn_ChildrenCount (tn_InitChildren n (tn_Reset t)) = n \<and>
    map tn_value (tn_children (tn_InitChildren n (tn_Reset t))) = map tn_value (take n (tn_store t)) \<and>
    (\<forall>i < tn_len t. tn_ChildrenCount (tn_store (tn_Reset t) ! i) = 0)"
proof (cases t)
  case (TreeNodeImpl v k cs)
  let ?rs = "map tn_Reset (take k cs) @ drop k cs"
  have "map tn_value ?rs = map tn_value (take k cs @ drop k cs)"
    by (simp only: map_append map_map) simp
  then have "map tn_value ?rs = map tn_value cs" by simp
  then have vals: "map tn_value (take n ?rs) = map tn_value (take n cs)"
    by (metis take_map)
  have count: "tn_ChildrenCount (tn_Reset c) = 0" for c
    by (cases c) (simp add: tn_ChildrenCount_def)
  have len: "length ?rs = length cs" "k \<le> length cs" "n \<le> length cs"
    using assms TreeNodeImpl by simp_all
  then have init: "tn_InitChildren n (tn_Reset t) = TreeNodeImpl v n ?rs"
    using TreeNodeImpl by (simp add: tn_InitChildren_def del: map_append length_append)
  have nth: "?rs ! i = tn_Reset (cs ! i)" if "i < k" for i
    using that len by (simp add: nth_append)
  have "length (take n ?rs) = n" using len by (simp del: map_append length_append take_append)
  then show ?thesis
    unfolding init using TreeNodeImpl len vals nth count
    by (simp add: tn_ChildrenCount_def del: map_append length_append take_append length_take)
qed

lemma Reset_keeps_storage_witness:
  "map tn_value (tn_children (tn_InitChildren 1
      (tn_Reset (TreeNodeImpl 1 2 [TreeNodeImpl 4 0 [], TreeNodeImpl 5 0 []])))) =
    map tn_value (take 1 (tn_store (TreeNodeImpl 1 2 [TreeNodeImpl 4 0 [], TreeNodeImpl 5 0 []])))"
  by (rule Reset_keeps_storage [THEN conjunct2, THEN conjunct2, THEN conjunct2, THEN conjunct2,
      THEN conjunct1]) simp_all

text \<open>\<open>TotalNodes\<close> counts the nodes the tree shows, modulo the width of an \<open>int\<close>; below
  \<open>2 ^ 63\<close> nodes the count is exact.\<close>

lemma TotalNodes_counts:
  assumes "vnodes (tn_view t) < 2 ^ 63"
  shows "sint (tn_TotalNodes t) = int (vnodes (tn_view t))"
  using assms by (simp add: tn_TotalNodes_view signed_of_nat signed_take_bit_int_eq_self)

lemma TotalNodes_counts_witness:
  "sint (tn_TotalNodes (TreeNodeImpl 1 1 [TreeNodeImpl 4 0 [], TreeNodeImpl 5 0 []])) = 2"
  using TotalNodes_counts [of "TreeNodeImpl 1 1 [TreeNodeImpl 4 0 [], TreeNodeImpl 5 0 []]"]
  by (simp del: tn_TotalNodes.simps)

text \<open>\<open>makeRandomTree\<close> never panics, although it calls \<open>IntN(branching/2)\<close>, and what it
  builds has at most \<open>level\<close> levels below the root, fewer than \<open>branching\<close> children per node
  and so a bounded number of nodes, whatever the generator returns.\<close>

lemma makeRandomTree_bounded:
  "\<exists>t g'. makeRandomTree tn_ops level branching (tn_zero, g) = Inr (t, g') \<and> tn_wf t \<and>
     vfits (nat level) (nat branching) (tn_view t) \<and>
     vnodes (tn_view t) \<le> max_nodes (nat level) (nat branching)"
  using makeRandomTree_fits [of level branching g] vfits_nodes by blast

lemma tn_wf_copyLayout: "tn_wf (copyLayout t u)"
proof (induction t arbitrary: u)
  case (TreeNodeImpl v n cs)
  then show ?case by (auto dest: in_set_takeD)
qed

text \<open>The operations of \<open>TreeNodeImpl\<close> and the functions that fill a given tree keep what Go
  guarantees of every slice, in the nodes shown and in the storage behind them: a length is
  never more than its capacity.\<close>

lemma operations_well_formed:
  assumes "tn_wf t" "tn_wf u"
  shows "tn_wf (tn_SetValue v t) \<and> tn_wf (tn_InitChildren n t) \<and> tn_wf (tn_PutChild t i u) \<and>
    tn_wf (tn_Reset t) \<and> tn_wf (tn_Mult v t) \<and> tn_wf (copyLayout t u) \<and>
    tn_wf (fst (populateWithRand t g)) \<and>
    (\<exists>t'. copyTree tn_ops u t = Inr t' \<and> tn_wf t') \<and>
    (\<forall>c. tn_Child t i = Inr c \<longrightarrow> tn_wf c)"
proof -
  have "tn_wf (tn_SetValue v t)" using assms(1) by (simp add: tn_SetValue_def tn_wf_sel [of t])
  moreover have "tn_wf (tn_PutChild t i u)"
    using assms by (auto simp: tn_PutChild_def tn_wf_sel [of t] dest: set_update_subset_insert [THEN subsetD])
  moreover have "tn_wf c" if "tn_Child t i = Inr c" for c
    using that assms(1) tn_wf_children [of t c] nth_mem [of i "tn_children t"]
    by (auto simp: tn_Child_def simp del: nth_mem split: if_splits)
  ultimately show ?thesis
    using assms tn_wf_InitChildren tn_wf_Reset tn_wf_Mult tn_wf_copyLayout populateWithRand_props
      tn.copyTree_view [of t u] by blast
qed

lemma operations_well_formed_witness:
  "tn_wf (tn_Mult 3 (tn_Reset (TreeNodeImpl 1 1 [TreeNodeImpl 4 0 [], TreeNodeImpl 5 0 []])))"
  using operations_well_formed [of "tn_Reset (TreeNodeImpl 1 1 [TreeNodeImpl 4 0 [], TreeNodeImpl 5 0 []])"
      tn_zero] by (simp add: tn_zero_def)

end
