(* ===== verification/Binutils.thy ===== *)
theory Binutils
  imports HexCodec TreeNode
begin

text \<open>
  \<open>internal/binutils/binutils.go\<close>: the binary messages of the TCP, HTTP and websocket
  systems. The functions take the \<open>Read\<close> or \<open>Write\<close> method of the reader or writer they
  are called with. Their buffer \<open>aux\<close> is the caller's 8 bytes of scratch space, always
  overwritten before it is read, and is not part of the model.
\<close>

section \<open>Integers and trees\<close>

definition ReadInt64 ::
  "('r \<Rightarrow> nat \<Rightarrow> byte list result \<times> 'r) \<Rightarrow> 'r \<Rightarrow> int64 result \<times> 'r" where
  "ReadInt64 rd r =
     (case read_full rd 8 [] r of
        (Inl e, r') \<Rightarrow> (Inl e, r')
      | (Inr aux, r') \<Rightarrow> (get_uint64 aux, r'))"

definition WriteInt64 ::
  "('w \<Rightarrow> byte list \<Rightarrow> go_error option \<times> 'w) \<Rightarrow> 'w \<Rightarrow> int64 \<Rightarrow> go_error option \<times> 'w" where
  "WriteInt64 wr w v = wr w (put_uint64 v)"

fun WriteTree ::
  "('w \<Rightarrow> byte list \<Rightarrow> go_error option \<times> 'w) \<Rightarrow> TreeNodeImpl \<Rightarrow> 'w \<Rightarrow> go_error option \<times> 'w"
where
  "WriteTree wr (TreeNodeImpl v n cs) w =
     (case WriteInt64 wr w v of
        (Some e, w') \<Rightarrow> (Some e, w')
      | (None, w') \<Rightarrow> run_all (WriteTree wr) (take n cs) w')"

text \<open>
  \<open>ReadTree\<close> stores into the node it is given: a failed read leaves the value 0 and the
  children as they were.
\<close>

fun ReadTree ::
  "('r \<Rightarrow> nat \<Rightarrow> byte list result \<times> 'r) \<Rightarrow> TreeNodeImpl \<Rightarrow> 'r \<Rightarrow> go_error option \<times> TreeNodeImpl \<times> 'r"
where
  "ReadTree rd (TreeNodeImpl v n cs) r =
     (case ReadInt64 rd r of
        (Inl e, r') \<Rightarrow>
          (Some (wrap_v ''error reading value'' [] e), TreeNodeImpl 0 n cs, r')
      | (Inr v', r') \<Rightarrow>
          (case update_all (ReadTree rd) (take n cs) r' of
             (err, cs', r'') \<Rightarrow>
               (map_option (wrap_v ''error reading children'' []) err,
                TreeNodeImpl v' n (cs' @ drop n cs), r'')))"

section \<open>The messages of \<open>MultTreeValues\<close>\<close>

definition WriteMultTreeRequest ::
  "('w \<Rightarrow> byte list \<Rightarrow> go_error option \<times> 'w) \<Rightarrow> int64 \<Rightarrow> TreeNodeImpl \<Rightarrow> 'w \<Rightarrow>
     go_error option \<times> 'w"
where
  "WriteMultTreeRequest wr mult tree w =
     (case WriteInt64 wr w mult of
        (Some e, w1) \<Rightarrow> (Some e, w1)
      | (None, w1) \<Rightarrow>
          (case WriteInt64 wr w1 (tn_TotalNodes tree) of
             (Some e, w2) \<Rightarrow> (Some e, w2)
           | (None, w2) \<Rightarrow> WriteTree wr tree w2))"

text \<open>The loop over the received values: \<open>i\<close> done, \<open>k\<close> to go.\<close>

fun mult_values ::
  "('r \<Rightarrow> nat \<Rightarrow> byte list result \<times> 'r) \<Rightarrow> ('w \<Rightarrow> byte list \<Rightarrow> go_error option \<times> 'w) \<Rightarrow>
     int64 \<Rightarrow> int64 \<Rightarrow> nat \<Rightarrow> nat \<Rightarrow> 'r \<Rightarrow> 'w \<Rightarrow> go_error option \<times> 'r \<times> 'w"
where
  "mult_values rd wr mult totalNodes i 0 r w = (None, r, w)"
| "mult_values rd wr mult totalNodes i (Suc k) r w =
     (case ReadInt64 rd r of
        (Inl e, r') \<Rightarrow>
          (Some (wrap_v ''unable to read value'' [int i, sint totalNodes] e), r', w)
      | (Inr val, r') \<Rightarrow>
          (case WriteInt64 wr w (val * mult) of
             (Some e, w') \<Rightarrow>
               (Some (wrap_v ''unable to write value'' [int i, sint totalNodes] e), r', w')
           | (None, w') \<Rightarrow> mult_values rd wr mult totalNodes (Suc i) k r' w'))"

definition DoMultTreeRequest ::
  "('r \<Rightarrow> nat \<Rightarrow> byte list result \<times> 'r) \<Rightarrow> ('w \<Rightarrow> byte list \<Rightarrow> go_error option \<times> 'w) \<Rightarrow>
     'r \<Rightarrow> 'w \<Rightarrow> go_error option \<times> 'r \<times> 'w"
where
  "DoMultTreeRequest rd wr r w =
     (case ReadInt64 rd r of
        (Inl e, r1) \<Rightarrow> (Some (wrap_v ''could not read mult'' [] e), r1, w)
      | (Inr mult, r1) \<Rightarrow>
          (case ReadInt64 rd r1 of
             (Inl e, r2) \<Rightarrow> (Some (wrap_v ''could not read totalNodes'' [] e), r2, w)
           | (Inr totalNodes, r2) \<Rightarrow>
               mult_values rd wr mult totalNodes 0 (nat (sint totalNodes)) r2 w))"

definition ReadMultTreeReponse ::
  "('r \<Rightarrow> nat \<Rightarrow> byte list result \<times> 'r) \<Rightarrow> TreeNodeImpl \<Rightarrow> 'r \<Rightarrow> go_error option \<times> TreeNodeImpl \<times> 'r"
where
  "ReadMultTreeReponse rd tn r = ReadTree rd tn r"

section \<open>The wire format\<close>

definition int64s :: "int64 list \<Rightarrow> byte list" where
  "int64s vs = concat (map put_uint64 vs)"

lemma int64s_simps [simp]:
  "int64s [] = []"
  "int64s (v # vs) = put_uint64 v @ int64s vs"
  "int64s (vs @ us) = int64s vs @ int64s us"
  by (simp_all add: int64s_def)

lemma length_int64s [simp]: "length (int64s vs) = 8 * length vs"
  by (induction vs) simp_all

definition mult_tree_request :: "int64 \<Rightarrow> vtree \<Rightarrow> byte list" where
  "mult_tree_request mult t =
     int64s (mult # word_of_nat (vnodes t) # vvalues t)"

lemma length_vvalues [simp]: "length (vvalues t) = vnodes t"
proof (induction t)
  case (VT v cs)
  then have "sum_list (map (length \<circ> vvalues) cs) = sum_list (map vnodes cs)"
    by (intro arg_cong [of _ _ sum_list] map_cong) auto
  then show ?case by (simp add: length_concat)
qed

lemma vvalues_vmult [simp]: "vvalues (vmult m t) = map (\<lambda>v. v * m) (vvalues t)"
  by (induction t) (simp add: map_concat o_def cong: map_cong)

lemma vlayout_vmult [simp]: "vlayout (vmult m t) = vlayout t"
  by (induction t) simp

section \<open>Reading and writing over any reader and writer\<close>

context byte_reader
begin

lemma ReadInt64_value:
  assumes "content r = put_uint64 v @ rest"
  obtains r' where "ReadInt64 rd r = (Inr v, r')" "content r' = rest" "fin r' = fin r"
proof -
  from assms have "8 \<le> length (content r)" by simp
  from read_full_enough [OF this, of "[]"] assms that
  show ?thesis
    by (cases "read_full rd 8 [] r") (auto simp: ReadInt64_def)
qed

lemma ReadInt64_short:
  assumes "length (content r) < 8"
  obtains r' where
    "ReadInt64 rd r =
       (Inl (if content r \<noteq> [] \<and> fin r = EOF then UnexpectedEOF else fin r), r')"
    "content r' = []" "fin r' = fin r"
  using read_full_short [OF assms, of "[]"] that
  by (cases "read_full rd 8 [] r") (auto simp: ReadInt64_def)

lemma ReadTree_value:
  assumes "vlayout vt = vlayout (tn_view t)"
    and "content r = int64s (vvalues vt) @ rest"
  shows "\<exists>t' r'. ReadTree rd t r = (None, t', r') \<and> tn_view t' = vt \<and>
           (tn_wf t \<longrightarrow> tn_wf t') \<and> content r' = rest \<and> fin r' = fin r"
  using assms
proof (induction t arbitrary: vt r rest)
  case (TreeNodeImpl v n cs)
  let ?xs = "take n cs"
  obtain u us where vt: "vt = VT u us" by (cases vt)
  have rel: "list_all2 (\<lambda>a x. vlayout a = vlayout (tn_view x)) us ?xs"
    using TreeNodeImpl.prems(1) by (simp add: vt list_all2_conv_all_nth list_eq_iff_nth_eq del: length_take)
  have loop: "\<exists>ys r'. update_all (ReadTree rd) xs r = (None, ys, r') \<and> map tn_view ys = as \<and>
      ((\<forall>x \<in> set xs. tn_wf x) \<longrightarrow> (\<forall>y \<in> set ys. tn_wf y)) \<and> content r' = rest \<and> fin r' = fin r"
    if "list_all2 (\<lambda>a x. vlayout a = vlayout (tn_view x)) as xs" "set xs \<subseteq> set cs"
      "content r = int64s (concat (map vvalues as)) @ rest" for as xs r
    using that
  proof (induction as xs arbitrary: r rule: list_all2_induct)
    case Nil
    then show ?case by simp
  next
    case (Cons a as x xs)
    then obtain y r1 where y: "ReadTree rd x r = (None, y, r1)" "tn_view y = a"
        "tn_wf x \<longrightarrow> tn_wf y" "content r1 = int64s (concat (map vvalues as)) @ rest" "fin r1 = fin r"
      using TreeNodeImpl.IH [of x a r "int64s (concat (map vvalues as)) @ rest"] by auto
    with Cons.IH [of r1] Cons.prems show ?case by auto
  qed
  obtain r1 where r1: "ReadInt64 rd r = (Inr u, r1)"
      "content r1 = int64s (concat (map vvalues us)) @ rest" "fin r1 = fin r"
    using TreeNodeImpl.prems(2) by (auto simp: vt intro: ReadInt64_value)
  obtain ys r' where ys: "update_all (ReadTree rd) ?xs r1 = (None, ys, r')" "map tn_view ys = us"
      "(\<forall>x \<in> set ?xs. tn_wf x) \<longrightarrow> (\<forall>y \<in> set ys. tn_wf y)" "content r' = rest" "fin r' = fin r1"
    using loop [OF rel set_take_subset r1(2)] by blast
  have len: "length ys = length ?xs"
    using rel ys(2) by (metis length_map list_all2_lengthD)
  show ?case
    using r1 ys len by (auto simp: vt dest: in_set_takeD in_set_dropD)
qed

end

context byte_writer
begin

lemma WriteInt64_reliable:
  assumes "reliable w"
  obtains w' where "WriteInt64 wr w v = (None, w')" "out w' = out w @ put_uint64 v" "reliable w'"
  unfolding WriteInt64_def using assms by (rule wr_reliable_eq)

lemma WriteTree_reliable:
  "reliable w \<Longrightarrow> \<exists>w'. WriteTree wr t w = (None, w') \<and>
     out w' = out w @ int64s (vvalues (tn_view t)) \<and> reliable w'"
proof (induction t arbitrary: w)
  case (TreeNodeImpl v n cs)
  have loop: "\<exists>w'. run_all (WriteTree wr) xs w = (None, w') \<and>
      out w' = out w @ int64s (concat (map (vvalues \<circ> tn_view) xs)) \<and> reliable w'"
    if "set xs \<subseteq> set cs" "reliable w" for xs w
    using that
  proof (induction xs arbitrary: w)
    case (Cons x xs)
    then obtain w1 where w1: "WriteTree wr x w = (None, w1)"
        "out w1 = out w @ int64s (vvalues (tn_view x))" "reliable w1"
      using TreeNodeImpl.IH [of x w] by auto
    with Cons.IH [of w1] Cons.prems show ?case by auto
  qed simp
  obtain w1 where w1: "WriteInt64 wr w v = (None, w1)" "out w1 = out w @ put_uint64 v" "reliable w1"
    using TreeNodeImpl.prems by (rule WriteInt64_reliable)
  with loop [OF set_take_subset w1(3)] show ?case by auto
qed

lemma WriteMultTreeRequest_reliable:
  assumes "reliable w"
  obtains w' where "WriteMultTreeRequest wr mult tree w = (None, w')"
    "out w' = out w @ mult_tree_request mult (tn_view tree)" "reliable w'"
proof -
  obtain w1 where w1: "WriteInt64 wr w mult = (None, w1)" "out w1 = out w @ put_uint64 mult" "reliable w1"
    using assms by (rule WriteInt64_reliable)
  obtain w2 where w2: "WriteInt64 wr w1 (tn_TotalNodes tree) = (None, w2)"
      "out w2 = out w1 @ put_uint64 (tn_TotalNodes tree)" "reliable w2"
    using w1(3) by (rule WriteInt64_reliable)
  obtain w3 where w3: "WriteTree wr tree w2 = (None, w3)"
      "out w3 = out w2 @ int64s (vvalues (tn_view tree))" "reliable w3"
    using WriteTree_reliable [OF w2(3)] by blast
  show ?thesis
    using w1 w2 w3
    by (intro that [of w3])
      (auto simp: WriteMultTreeRequest_def mult_tree_request_def tn_TotalNodes_view)
qed

end

section \<open>The server's side of \<open>MultTreeValues\<close>\<close>

locale byte_io = byte_reader rd content fin + byte_writer wr out reliable
  for rd :: "'r \<Rightarrow> nat \<Rightarrow> byte list result \<times> 'r" and content fin
    and wr :: "'w \<Rightarrow> byte list \<Rightarrow> go_error option \<times> 'w" and out reliable
begin

text \<open>All \<open>k\<close> values are there, or only the first of them and a piece of the next.\<close>

lemma mult_values_enough:
  assumes "reliable w" "content r = int64s vs @ rest" "length vs = k"
  shows "\<exists>r' w'. mult_values rd wr mult totalNodes i k r w = (None, r', w') \<and>
           out w' = out w @ int64s (map (\<lambda>v. v * mult) vs) \<and> reliable w' \<and>
           content r' = rest \<and> fin r' = fin r"
  using assms
proof (induction vs arbitrary: k i r w)
  case Nil
  then show ?case by auto
next
  case (Cons v vs)
  obtain r1 where r1: "ReadInt64 rd r = (Inr v, r1)" "content r1 = int64s vs @ rest" "fin r1 = fin r"
    using Cons.prems(2) by (auto intro: ReadInt64_value)
  obtain w1 where w1: "WriteInt64 wr w (v * mult) = (None, w1)"
      "out w1 = out w @ put_uint64 (v * mult)" "reliable w1"
    using Cons.prems(1) by (rule WriteInt64_reliable)
  from Cons.prems(3) obtain k' where k: "k = Suc k'" "length vs = k'" by auto
  with Cons.IH [OF w1(3) r1(2) k(2), of "Suc i"] r1 w1 show ?case
    by auto
qed

lemma mult_values_short:
  assumes "reliable w" "content r = int64s vs @ part" "length part < 8" "length vs < k"
  shows "\<exists>r' w'. mult_values rd wr mult totalNodes i k r w =
           (Some (wrap_v ''unable to read value'' [int (i + length vs), sint totalNodes]
              (if part \<noteq> [] \<and> fin r = EOF then UnexpectedEOF else fin r)), r', w') \<and>
           out w' = out w @ int64s (map (\<lambda>v. v * mult) vs) \<and> reliable w' \<and> content r' = []"
  using assms
proof (induction vs arbitrary: k i r w)
  case Nil
  then obtain k' where k: "k = Suc k'" by (cases k) auto
  obtain r' where "ReadInt64 rd r =
       (Inl (if content r \<noteq> [] \<and> fin r = EOF then UnexpectedEOF else fin r), r')" "content r' = []"
    using ReadInt64_short [of r] Nil by auto
  then show ?case using Nil k by auto
next
  case (Cons v vs)
  obtain r1 where r1: "ReadInt64 rd r = (Inr v, r1)" "content r1 = int64s vs @ part" "fin r1 = fin r"
    using Cons.prems(2) by (auto intro: ReadInt64_value)
  obtain w1 where w1: "WriteInt64 wr w (v * mult) = (None, w1)"
      "out w1 = out w @ put_uint64 (v * mult)" "reliable w1"
    using Cons.prems(1) by (rule WriteInt64_reliable)
  from Cons.prems(4) obtain k' where k: "k = Suc k'" "length vs < k'" by (cases k) auto
  with Cons.IH [OF w1(3) r1(2) Cons.prems(3) k(2), of "Suc i"] r1 w1 show ?case
    by auto
qed

lemma DoMultTreeRequest_ok:
  assumes "reliable w" "content r = mult_tree_request mult vt @ rest" "vnodes vt < 2 ^ 63"
  obtains r' w' where "DoMultTreeRequest rd wr r w = (None, r', w')"
    "out w' = out w @ int64s (vvalues (vmult mult vt))" "reliable w'"
    "content r' = rest" "fin r' = fin r"
proof -
  let ?n = "word_of_nat (vnodes vt) :: int64"
  obtain r1 where r1: "ReadInt64 rd r = (Inr mult, r1)"
      "content r1 = put_uint64 ?n @ int64s (vvalues vt) @ rest" "fin r1 = fin r"
    using assms(2) by (auto simp: mult_tree_request_def intro: ReadInt64_value)
  obtain r2 where r2: "ReadInt64 rd r1 = (Inr ?n, r2)"
      "content r2 = int64s (vvalues vt) @ rest" "fin r2 = fin r1"
    using r1(2) by (rule ReadInt64_value)
  have "nat (sint ?n) = vnodes vt"
    using assms(3) by (rule nat_sint_of_nat)
  then obtain r3 w3 where "mult_values rd wr mult ?n 0 (nat (sint ?n)) r2 w = (None, r3, w3)"
      "out w3 = out w @ int64s (map (\<lambda>v. v * mult) (vvalues vt))" "reliable w3"
      "content r3 = rest" "fin r3 = fin r2"
    using mult_values_enough [OF assms(1) r2(2), of "vnodes vt" mult ?n 0] by auto
  then show ?thesis
    using r1 r2 by (intro that [of r3 w3]) (auto simp: DoMultTreeRequest_def)
qed

end

interpretation br_bw: byte_io br_read br_content br_end bw_write bw_out bw_reliable ..
interpretation src_dst: byte_io src_read src_content src_end dst_write sk_out "\<lambda>s. sk_room s = None" ..
interpretation br_dst: byte_io br_read br_content br_end dst_write sk_out "\<lambda>s. sk_room s = None" ..

section \<open>Properties\<close>

text \<open>C31: A tree written with \<open>WriteTree\<close> is read back by \<open>ReadTree\<close> into any tree of the
  same layout, however the bytes are cut into chunks on the way.\<close>

theorem tree_round_trip:
  assumes "tn_wf t2" "vlayout (tn_view t2) = vlayout (tn_view t1)"
  shows "\<exists>wire. WriteTree buffer_write t1 [] = (None, wire) \<and> length wire = 8 * vnodes (tn_view t1) \<and>
    (\<forall>chunks. concat chunks = wire \<longrightarrow>
       (\<exists>t' s'. ReadTree src_read t2 (Source chunks EOF) = (None, t', s') \<and> tn_wf t' \<and>
          tn_view t' = tn_view t1 \<and> src_content s' = []))"
proof -
  let ?wire = "int64s (vvalues (tn_view t1))"
  have "WriteTree buffer_write t1 [] = (None, ?wire)"
    using buf.WriteTree_reliable [where w = "[]" and t = t1] by auto
  moreover have "\<exists>t' s'. ReadTree src_read t2 (Source chunks EOF) = (None, t', s') \<and> tn_wf t' \<and>
      tn_view t' = tn_view t1 \<and> src_content s' = []" if "concat chunks = ?wire" for chunks
  proof -
    have lay: "vlayout (tn_view t1) = vlayout (tn_view t2)"
      and cont: "src_content (Source chunks EOF) = int64s (vvalues (tn_view t1)) @ []"
      using assms(2) that by (simp_all add: src_content_def)
    show ?thesis using src.ReadTree_value [OF lay cont] assms(1) by blast
  qed
  ultimately show ?thesis by auto
qed

lemma tree_round_trip_witness:
  "\<exists>wire. WriteTree buffer_write (TreeNodeImpl 5 1 [TreeNodeImpl 7 0 []]) [] = (None, wire) \<and>
    length wire = 16"
  using tree_round_trip [of "TreeNodeImpl 0 1 [tn_zero, tn_zero]" "TreeNodeImpl 5 1 [TreeNodeImpl 7 0 []]"]
  by (auto simp: tn_zero_def simp del: WriteTree.simps ReadTree.simps)

text \<open>C32: A \<open>MultTree\<close> request cut off in the middle: the handler has written the products of
  the values that arrived whole, and its error names the position, the announced count and
  whether a value was cut.\<close>

theorem DoMultTreeRequest_truncated:
  assumes "sk_room d = None" "src_end s = EOF"
    and "src_content s = put_uint64 m @ put_uint64 n @ int64s vs @ part"
    and "length part < 8" "length vs < nat (sint n)"
  shows "\<exists>s' d'. DoMultTreeRequest src_read dst_write s d =
      (Some (Errorf_v ''unable to read value'' [int (length vs), sint n]
         (if part = [] then EOF else UnexpectedEOF)), s', d') \<and>
    sk_out d' = sk_out d @ int64s (map (\<lambda>v. v * m) vs)"
proof -
  obtain s1 where s1: "ReadInt64 src_read s = (Inr m, s1)"
      "src_content s1 = put_uint64 n @ int64s vs @ part" "src_end s1 = src_end s"
    using assms(3) by (rule src.ReadInt64_value)
  obtain s2 where s2: "ReadInt64 src_read s1 = (Inr n, s2)" "src_content s2 = int64s vs @ part"
      "src_end s2 = src_end s1"
    using s1(2) by (rule src.ReadInt64_value)
  from src_dst.mult_values_short [OF assms(1) s2(2) assms(4,5), of m n 0] s1 s2 assms(2)
  show ?thesis by (auto simp: DoMultTreeRequest_def)
qed

lemma DoMultTreeRequest_truncated_witness:
  "\<exists>s' d'. DoMultTreeRequest src_read dst_write
      (Source [put_uint64 3, put_uint64 2, put_uint64 5] EOF) \<lparr>sk_out = [], sk_room = None, sk_err = EOF\<rparr> =
      (Some (Errorf_v ''unable to read value'' [1, 2] EOF), s', d') \<and> sk_out d' = put_uint64 15"
  using DoMultTreeRequest_truncated [of "\<lparr>sk_out = [], sk_room = None, sk_err = EOF\<rparr>"
      "Source [put_uint64 3, put_uint64 2, put_uint64 5] EOF" 3 2 "[5]" "[]"]
  by (simp add: src_content_def)

end
