(* ===== verification/Api.thy ===== *)
theory Api
  imports Binutils
begin

text \<open>
  \<open>rpcbench/interface.go\<close> and the constants of \<open>rpcbench/bench_harness.go\<close>: the
  operations a system under test offers to the harness, and the contract they are
  documented to meet.
\<close>

section \<open>Calls and limits\<close>

definition MaxHexEncodeSize :: nat where
  "MaxHexEncodeSize = 128 * 1024"

datatype ClientCall = ClientCallNop | ClientCallAdd | ClientCallTreeMult | ClientCallToHex
  | ClientCallOther int

text \<open>A \<open>ClientCall\<close> is a Go \<open>int\<close>; the values without a name are \<open>ClientCallOther\<close>.\<close>

fun ClientCall_String :: "ClientCall \<Rightarrow> string result" where
  "ClientCall_String ClientCallNop = Inr ''nop''"
| "ClientCall_String ClientCallAdd = Inr ''add''"
| "ClientCall_String ClientCallTreeMult = Inr ''tree''"
| "ClientCall_String ClientCallToHex = Inr ''hex''"
| "ClientCall_String (ClientCallOther i) = Inl (Panic ''unknown cc'')"

definition ClientCallMatrix :: "ClientCall list" where
  "ClientCallMatrix = [ClientCallNop, ClientCallAdd, ClientCallTreeMult, ClientCallToHex]"

section \<open>The \<open>Client\<close> interface\<close>

text \<open>
  The method table of a \<open>Client\<close>, over the state \<open>'c\<close> of the client and whatever it talks
  to. \<open>MultTreeValues\<close> takes \<open>fillArgs\<close>, a function on the tree type \<open>'a\<close> the system
  builds its arguments in, and returns a tree of type \<open>'t\<close>; \<open>ToHex\<close> takes the output
  slice and returns its new contents.
\<close>

record ('c, 'a, 't) client_ops =
  cl_Nop :: "'c \<Rightarrow> go_error option \<times> 'c"
  cl_Add :: "'c \<Rightarrow> int64 \<Rightarrow> int64 \<Rightarrow> int64 result \<times> 'c"
  cl_MultTreeValues :: "'c \<Rightarrow> int64 \<Rightarrow> ('a \<Rightarrow> 'a result) \<Rightarrow> 't result \<times> 'c"
  cl_ToHex :: "'c \<Rightarrow> byte list \<Rightarrow> byte list \<Rightarrow> go_error option \<times> byte list \<times> 'c"

section \<open>What the interface promises\<close>

text \<open>
  Servers add, multiply every node of the tree and hex-encode. \<open>inv\<close> holds between calls;
  \<open>max_tree\<close>, \<open>max_levels\<close> and \<open>max_hex\<close> bound the nodes and levels of the trees and the
  data the system is meant for. \<open>rpc_calls\<close> is the contract without trees.
\<close>

locale rpc_calls =
  fixes cl :: "('c, 'a, 't) client_ops" and inv :: "'c \<Rightarrow> bool" and max_hex :: nat
  assumes nop: "inv c \<Longrightarrow> \<exists>c'. cl_Nop cl c = (None, c') \<and> inv c'"
    and add: "inv c \<Longrightarrow> \<exists>c'. cl_Add cl c a b = (Inr (a + b), c') \<and> inv c'"
    and to_hex: "inv c \<Longrightarrow> length p \<le> max_hex \<Longrightarrow> length q = 2 * length p \<Longrightarrow>
      \<exists>c'. cl_ToHex cl c p q = (None, hex_encode p, c') \<and> inv c'"

locale rpc_system =
  fixes cl :: "('c, 'a, 't) client_ops"
    and inv :: "'c \<Rightarrow> bool"
    and aops :: "'a tree_ops" and start :: "'a \<Rightarrow> bool" and filled :: "'a \<Rightarrow> 'a \<Rightarrow> vtree \<Rightarrow> bool"
    and rops :: "'t tree_ops" and rview :: "'t \<Rightarrow> vtree" and rok :: "'t \<Rightarrow> bool"
    and max_tree max_levels max_hex :: nat
  assumes args: "tree_filler aops start filled max_tree max_levels"
    and results: "tree_reader rops rview rok"
    and nop: "inv c \<Longrightarrow> \<exists>c'. cl_Nop cl c = (None, c') \<and> inv c'"
    and add: "inv c \<Longrightarrow> \<exists>c'. cl_Add cl c a b = (Inr (a + b), c') \<and> inv c'"
    and mult_tree: "inv c \<Longrightarrow>
      (\<And>t. start t \<Longrightarrow> \<exists>t'. fill t = Inr t' \<and> filled t t' vt) \<Longrightarrow>
      vwithin max_tree max_levels vt \<Longrightarrow>
      \<exists>res c'. cl_MultTreeValues cl c m fill = (Inr res, c') \<and> rok res \<and>
        rview res = vmult m vt \<and> inv c'"
    and to_hex: "inv c \<Longrightarrow> length p \<le> max_hex \<Longrightarrow> length q = 2 * length p \<Longrightarrow>
      \<exists>c'. cl_ToHex cl c p q = (None, hex_encode p, c') \<and> inv c'"

sublocale rpc_system \<subseteq> calls: rpc_calls cl inv max_hex
  by unfold_locales (simp_all add: nop add to_hex del: split_paired_Ex)

section \<open>Binary messages\<close>

text \<open>
  The abstract protocol the TCP and websocket systems share: a request is the command byte
  and its arguments, and the reply its result. The command bytes are the same constants in
  both packages.
\<close>

datatype bin_call = CNop | CAdd int64 int64 | CMult int64 vtree | CHex "byte list"

fun bin_request :: "bin_call \<Rightarrow> byte list" where
  "bin_request CNop = [1]"
| "bin_request (CAdd a b) = 2 # put_uint64 a @ put_uint64 b"
| "bin_request (CMult m t) = 3 # mult_tree_request m t"
| "bin_request (CHex p) = 4 # put_uint64 (word_of_nat (length p)) @ p"

fun bin_reply :: "bin_call \<Rightarrow> byte list" where
  "bin_reply CNop = [1]"
| "bin_reply (CAdd a b) = put_uint64 (a + b)"
| "bin_reply (CMult m t) = int64s (vvalues (vmult m t))"
| "bin_reply (CHex p) = hex_encode p"

text \<open>The arguments the harness may send: data below \<open>MaxHexEncodeSize\<close>, countable trees.\<close>

fun bin_valid :: "bin_call \<Rightarrow> bool" where
  "bin_valid (CMult m t) \<longleftrightarrow> vnodes t < 2 ^ 63"
| "bin_valid (CHex p) \<longleftrightarrow> length p < MaxHexEncodeSize"
| "bin_valid _ \<longleftrightarrow> True"

fun is_hex :: "bin_call \<Rightarrow> bool" where
  "is_hex (CHex p) = True"
| "is_hex _ = False"

section \<open>The \<open>ToHex\<close> loop of the binary servers\<close>

text \<open>
  Each round reads into \<open>readHexBuf[min(len(readHexBuf), size):]\<close> and passes what it read to
  \<open>wr\<close>, which encodes and writes it. The loop may never end, which is the value \<open>None\<close>.
\<close>

partial_function (option) hex_loop ::
  "('w \<Rightarrow> byte list \<Rightarrow> go_error option \<times> 'w) \<Rightarrow> int64 \<Rightarrow> breader \<Rightarrow> 'w \<Rightarrow>
     (go_error option \<times> breader \<times> 'w) option"
where
  "hex_loop wr sz r w =
     (if sint sz \<le> 0 then Some (None, r, w)
      else (case br_read r (MaxHexEncodeSize - min MaxHexEncodeSize (nat (sint sz))) of
              (Inl e, r') \<Rightarrow> Some (Some e, r', w)
            | (Inr buf, r') \<Rightarrow>
                (case wr w buf of
                   (Some e, w') \<Rightarrow> Some (Some e, r', w')
                 | (None, w') \<Rightarrow> hex_loop wr (sz - word_of_nat (length buf)) r' w')))"

lemma sint_word_of_nat: "n < 2 ^ 63 \<Longrightarrow> sint (word_of_nat n :: int64) = int n"
  by (simp add: signed_of_nat signed_take_bit_int_eq_self)

text \<open>
  When the reader holds exactly the data of the request, the loop reads all of it, in
  whatever pieces it arrives.
\<close>

lemma hex_loop_exact:
  assumes wr: "\<And>w p. ok w \<Longrightarrow> \<exists>w'. wr w p = (None, w') \<and> out w' = out w @ hex_encode p \<and> ok w'"
    and "br_content r = p" "length p < MaxHexEncodeSize" "ok w"
  shows "\<exists>r' w'. hex_loop wr (word_of_nat (length p)) r w = Some (None, r', w') \<and>
           br_content r' = [] \<and> br_end r' = br_end r \<and> ok w' \<and> out w' = out w @ hex_encode p"
  using assms(2-)
proof (induction "length p" arbitrary: p r w rule: less_induct)
  case less
  have sz: "sint (word_of_nat (length p) :: int64) = int (length p)"
    using less.prems(2) by (intro sint_word_of_nat) (simp add: MaxHexEncodeSize_def)
  show ?case
  proof (cases "p = []")
    case True
    with less.prems show ?thesis
      by (subst hex_loop.simps) simp
  next
    case False
    let ?n = "MaxHexEncodeSize - min MaxHexEncodeSize (nat (sint (word_of_nat (length p) :: int64)))"
    have "0 < ?n" using less.prems(2) sz by simp
    then obtain k r1 where k: "0 < k" "k \<le> length p"
      and rd: "br_read r ?n = (Inr (take k p), r1)" "br_content r1 = drop k p" "br_end r1 = br_end r"
      using less.prems(1) False by (metis br_read_some)
    obtain w1 where w1: "wr w (take k p) = (None, w1)"
        "out w1 = out w @ hex_encode (take k p)" "ok w1"
      using wr [OF less.prems(3)] by blast
    have len: "word_of_nat (length p) - word_of_nat (length (take k p)) =
        (word_of_nat (length (drop k p)) :: int64)"
      using k by (simp add: min_absorb2)
    have "length (drop k p) < length p" "length (drop k p) < MaxHexEncodeSize"
      using k False less.prems(2) by auto
    from less.hyps [OF this(1) rd(2) this(2) w1(3)]
    obtain r2 w2 where r2: "hex_loop wr (word_of_nat (length (drop k p))) r1 w1 = Some (None, r2, w2)"
        "br_content r2 = []" "br_end r2 = br_end r1" "ok w2"
        "out w2 = out w1 @ hex_encode (drop k p)"
      by blast
    have "hex_loop wr (word_of_nat (length p)) r w = Some (None, r2, w2)"
      using False sz rd(1) w1(1) r2(1)
      by (subst hex_loop.simps) (simp del: length_take length_drop of_nat_diff add: len)
    moreover have "hex_encode (take k p) @ hex_encode (drop k p) = hex_encode p"
      by (metis append_take_drop_id hex_encode_simps(3))
    ultimately show ?thesis
      using rd w1 r2 by auto
  qed
qed

text \<open>
  When more than the request is already buffered, a round reads past the request: the slice
  it fills has room for all that \<open>MaxHexEncodeSize\<close> leaves.
\<close>

lemma hex_loop_overreads:
  assumes wr: "wr w (p @ rest) = (None, w')"
    and "br_buf r = p @ rest" "p \<noteq> []" "2 * length p + length rest \<le> MaxHexEncodeSize"
  shows "hex_loop wr (word_of_nat (length p)) r w = Some (None, r\<lparr>br_buf := []\<rparr>, w')"
proof -
  let ?sz = "word_of_nat (length p) :: int64"
  have sz: "sint ?sz = int (length p)"
    using assms(4) by (intro sint_word_of_nat) (simp add: MaxHexEncodeSize_def)
  have len: "length (p @ rest) \<le> MaxHexEncodeSize - min MaxHexEncodeSize (nat (sint ?sz))"
    using assms(4) sz by simp
  moreover have "0 < length (p @ rest)" using assms(3) by simp
  ultimately have rd: "br_read r (MaxHexEncodeSize - min MaxHexEncodeSize (nat (sint ?sz))) =
      (Inr (p @ rest), r\<lparr>br_buf := []\<rparr>)"
    using assms(2,3) by (auto simp: br_read_def)
  have left: "?sz - word_of_nat (length (p @ rest)) = - word_of_nat (length rest)"
    by simp
  have "sint (- word_of_nat (length rest) :: int64) \<le> 0"
  proof (cases "rest = []")
    case False
    have "length rest < 2 ^ 63" using assms(4) by (simp add: MaxHexEncodeSize_def)
    then have "sint (word_of_nat (length rest) :: int64) = int (length rest)"
      by (rule sint_word_of_nat)
    moreover have "sint (- word_of_nat (length rest) :: int64) = - sint (word_of_nat (length rest) :: int64)"
      using calculation \<open>length rest < 2 ^ 63\<close>
      by (simp add: sint_word_ariths signed_take_bit_int_eq_self)
    ultimately show ?thesis by simp
  qed simp
  then have "hex_loop wr (- word_of_nat (length rest)) (r\<lparr>br_buf := []\<rparr>) w' =
      Some (None, r\<lparr>br_buf := []\<rparr>, w')"
    by (subst hex_loop.simps) simp
  with assms(3) sz rd wr left show ?thesis
    by (subst hex_loop.simps) (simp del: length_append)
qed

text \<open>From \<open>MaxHexEncodeSize\<close> bytes on, the slice it reads into is empty and it spins.\<close>

lemma hex_loop_spins:
  assumes wr: "\<And>w. wr w [] = (None, w)" and "int MaxHexEncodeSize \<le> sint sz"
  shows "hex_loop wr sz r w = None"
proof (rule ccontr)
  assume "hex_loop wr sz r w \<noteq> None"
  then obtain res where ret: "hex_loop wr sz r w = Some res" by blast
  have "(\<forall>w. wr w [] = (None, w)) \<longrightarrow> sint sz < int MaxHexEncodeSize"
  proof (rule hex_loop.raw_induct [where P =
      "\<lambda>wr sz r w res. (\<forall>w. wr w [] = (None, w)) \<longrightarrow> sint sz < int MaxHexEncodeSize", OF _ ret])
    fix f sz r res
    fix wr :: "'a \<Rightarrow> byte list \<Rightarrow> go_error option \<times> 'a" and w :: 'a
    assume IH: "\<And>wr sz r w res. f wr sz r w = Some res \<Longrightarrow>
          (\<forall>w. wr w [] = (None, w)) \<longrightarrow> sint sz < int MaxHexEncodeSize"
      and eq: "(if sint sz \<le> 0 then Some (None, r, w)
        else (case br_read r (MaxHexEncodeSize - min MaxHexEncodeSize (nat (sint sz))) of
              (Inl e, r') \<Rightarrow> Some (Some e, r', w)
            | (Inr buf, r') \<Rightarrow>
                (case wr w buf of
                   (Some e, w') \<Rightarrow> Some (Some e, r', w')
                 | (None, w') \<Rightarrow> f wr (sz - word_of_nat (length buf)) r' w'))) = Some res"
    show "(\<forall>w. wr w [] = (None, w)) \<longrightarrow> sint sz < int MaxHexEncodeSize"
    proof (intro impI, rule ccontr)
      assume wr: "\<forall>w. wr w [] = (None, w)" and big: "\<not> sint sz < int MaxHexEncodeSize"
      then have "min MaxHexEncodeSize (nat (sint sz)) = MaxHexEncodeSize" "0 < sint sz"
        by (auto simp: MaxHexEncodeSize_def)
      with eq wr have "f wr sz r w = Some res"
        by (simp add: br_read_def)
      with IH wr big show False by blast
    qed
  qed
  with assms show False by simp
qed

end
