(* ===== verification/Harness.thy ===== *)
theory Harness
  imports Api
begin

text \<open>
  \<open>rpcbench/bench_harness.go\<close> and \<open>rpcbench/bench_runner.go\<close>: the state the harness keeps
  for a client, the trees it prepares, one checked call, and the sequential and parallel
  runs that count calls and bytes. The harness is written against the \<open>Client\<close> interface;
  its lemmas are proved in the locale \<open>rpc_system\<close> for every system that meets it.
\<close>

section \<open>The clients of a run\<close>

text \<open>
  \<open>bc_reader\<close> is the ChaCha8 stream behind \<open>rngReader\<close>, given as the bytes it will
  produce (zeros after them, as for the generator).
\<close>

record 'c benchClient =
  bc_c :: 'c
  bc_rng :: rng
  bc_reader :: "byte list"
  bc_testTrees :: "TreeNodeImpl list"
  bc_chosenTestTree :: nat
  bc_hexInBuf :: "byte list"
  bc_hexOutBuf :: "byte list"
  bc_hexCheckBuf :: "byte list"

definition reader_read :: "nat \<Rightarrow> byte list \<Rightarrow> byte list \<times> byte list" where
  "reader_read n tape = (take n tape @ replicate (n - length tape) 0, drop n tape)"

definition fillRequestTree ::
  "'a tree_ops \<Rightarrow> 'c benchClient \<Rightarrow> 'a \<Rightarrow> 'a result" where
  "fillRequestTree ops bcli node =
     copyTree ops (bc_testTrees bcli ! bc_chosenTestTree bcli) node"

text \<open>
  The six test trees of a client, in the order of the code: a single node, a chain of 64
  nodes below the root, 64 children, a dense tree, and two random ones.
\<close>

fun narrow_tree :: "nat \<Rightarrow> TreeNodeImpl \<Rightarrow> TreeNodeImpl result" where
  "narrow_tree 0 node = Inr node"
| "narrow_tree (Suc k) node =
     bind_result (op_InitChildren tn_ops 1 node) (with_child tn_ops 0 (narrow_tree k))"

definition test_trees :: "rng \<Rightarrow> (TreeNodeImpl list \<times> rng) result" where
  "test_trees g =
     bind_result (narrow_tree 64 tn_zero) (\<lambda>t1.
     bind_result (makeDenseTreeNode tn_ops 5 6 tn_zero) (\<lambda>t3.
     bind_result (makeRandomTree tn_ops 8 5 (tn_zero, g)) (\<lambda>(t4, g1).
     bind_result (makeRandomTree tn_ops 8 5 (tn_zero, g1)) (\<lambda>(t5, g2).
       Inr ([tn_zero, t1, tn_InitChildren 64 tn_zero, t3, t4, t5], g2)))))"

text \<open>
  \<open>newClientHarness\<close>: \<open>new_client i\<close> is the result of the \<open>i\<close>-th call of \<open>fac.NewClient\<close>,
  \<open>pcg i\<close> the generator \<open>rand.NewPCG(0x01020304, i)\<close> seeds and \<open>chacha s\<close> the stream of
  \<open>rand.NewChaCha8\<close> for the seed that starts with the word \<open>s\<close>.
\<close>

definition new_bench_client ::
  "(nat \<Rightarrow> rng) \<Rightarrow> (int64 \<Rightarrow> byte list) \<Rightarrow> nat \<Rightarrow> 'c \<Rightarrow> 'c benchClient result"
where
  "new_bench_client pcg chacha i c =
     (case rng_draw (pcg i) of
        (s, g) \<Rightarrow>
          bind_result (test_trees g) (\<lambda>(trees, g').
            Inr \<lparr>bc_c = c, bc_rng = g', bc_reader = chacha s, bc_testTrees = trees,
                 bc_chosenTestTree = 0,
                 bc_hexInBuf = replicate MaxHexEncodeSize 0,
                 bc_hexOutBuf = replicate (MaxHexEncodeSize * 2) 0,
                 bc_hexCheckBuf = replicate MaxHexEncodeSize 0\<rparr>))"

definition newClientHarness ::
  "(nat \<Rightarrow> rng) \<Rightarrow> (int64 \<Rightarrow> byte list) \<Rightarrow> (nat \<Rightarrow> 'c result) \<Rightarrow> nat \<Rightarrow> 'c benchClient list result"
where
  "newClientHarness pcg chacha new_client nbClients =
     fold_result (\<lambda>i clients.
         bind_result (bind_result (new_client i) (new_bench_client pcg chacha i)) (\<lambda>bcli.
           Inr (clients @ [bcli])))
       [0..<nbClients] []"

section \<open>One checked call\<close>

definition call_nop ::
  "('c, 'a, 't) client_ops \<Rightarrow> 'c benchClient \<Rightarrow> int result \<times> 'c benchClient" where
  "call_nop cl b =
     (case cl_Nop cl (bc_c b) of
        (Some e, c) \<Rightarrow> (Inl e, b\<lparr>bc_c := c\<rparr>)
      | (None, c) \<Rightarrow> (Inr 0, b\<lparr>bc_c := c\<rparr>))"

definition call_add ::
  "('c, 'a, 't) client_ops \<Rightarrow> 'c benchClient \<Rightarrow> int result \<times> 'c benchClient" where
  "call_add cl bcli =
     (case rng_Int64 (bc_rng bcli) of (a, g1) \<Rightarrow>
      case rng_Int64 g1 of (b, g2) \<Rightarrow>
      case cl_Add cl (bc_c bcli) a b of (r, c) \<Rightarrow>
        (case r of
           Inl e \<Rightarrow> Inl e
         | Inr res \<Rightarrow>
             (if res \<noteq> a + b
              then Inl (Errorf ''wrong result: got %v, want %v'' [sint res, sint (a + b)])
              else Inr 0),
         bcli\<lparr>bc_rng := g2, bc_c := c\<rparr>))"

text \<open>
  The tree call stores the populated tree back before the call, whose argument function
  reads it. On a mismatch the code also prints both trees to files.
\<close>

definition call_tree ::
  "('c, 'a, 't) client_ops \<Rightarrow> 'a tree_ops \<Rightarrow> 't tree_ops \<Rightarrow> 'c benchClient \<Rightarrow>
     int result \<times> 'c benchClient"
where
  "call_tree cl aops rops b =
     (case rng_IntN (int (length (bc_testTrees b))) (bc_rng b) of
        Inl e \<Rightarrow> (Inl e, b)
      | Inr (i, g1) \<Rightarrow>
          (case rng_Int64 g1 of (mult, g2) \<Rightarrow>
           case populateWithRand (bc_testTrees b ! nat i) g2 of (tgt, g3) \<Rightarrow>
           let b1 = b\<lparr>bc_chosenTestTree := nat i, bc_rng := g3,
                      bc_testTrees := (bc_testTrees b)[nat i := tgt]\<rparr>
           in (case cl_MultTreeValues cl (bc_c b1) mult (fillRequestTree aops b1) of
                 (Inl e, c) \<Rightarrow> (Inl e, b1\<lparr>bc_c := c\<rparr>)
               | (Inr res, c) \<Rightarrow>
                   (bind_result (treeMatchesForMult rops res tgt mult) (\<lambda>same.
                      if same then Inr 0
                      else Inl (ErrorNew ''mismatch in request and response trees'')),
                    b1\<lparr>bc_c := c\<rparr>))))"

definition store_prefix :: "'x list \<Rightarrow> 'x list \<Rightarrow> 'x list" where
  "store_prefix xs buf = xs @ drop (length xs) buf"

definition call_hex ::
  "('c, 'a, 't) client_ops \<Rightarrow> 'c benchClient \<Rightarrow> int result \<times> 'c benchClient" where
  "call_hex cl b =
     (case rng_IntN (int (length (bc_hexInBuf b))) (bc_rng b) of
        Inl e \<Rightarrow> (Inl e, b)
      | Inr (s, g) \<Rightarrow>
          (let sz = nat s in
           case reader_read sz (bc_reader b) of (inp, tape) \<Rightarrow>
           let b1 = b\<lparr>bc_rng := g, bc_reader := tape,
                      bc_hexInBuf := store_prefix inp (bc_hexInBuf b)\<rparr>
           in (case cl_ToHex cl (bc_c b1) inp (take (sz * 2) (bc_hexOutBuf b1)) of
                 (err, outp, c) \<Rightarrow>
                   let b2 = b1\<lparr>bc_c := c, bc_hexOutBuf := store_prefix outp (bc_hexOutBuf b1)\<rparr>
                   in (case err of
                         Some e \<Rightarrow> (Inl e, b2)
                       | None \<Rightarrow>
                           (case hex_decode (take (sz * 2) (bc_hexOutBuf b2)) of
                              (dec, derr) \<Rightarrow>
                                let b3 = b2\<lparr>bc_hexCheckBuf := store_prefix dec (bc_hexCheckBuf b2)\<rparr>
                                in (case derr of
                                      Some e \<Rightarrow>
                                        (Inl (Errorf_v ''unable to decode hex out buf'' [] e), b3)
                                    | None \<Rightarrow>
                                        (if take sz (bc_hexCheckBuf b3) \<noteq> take sz (bc_hexInBuf b3)
                                         then (Inl (ErrorNew ''mismatch in request and response hex''), b3)
                                         else (Inr (int (length (bc_hexInBuf b3)) +
                                                    int (length (bc_hexOutBuf b3))), b3))))))))"

fun makeCall ::
  "('c, 'a, 't) client_ops \<Rightarrow> 'a tree_ops \<Rightarrow> 't tree_ops \<Rightarrow> ClientCall \<Rightarrow> 'c benchClient \<Rightarrow>
     int result \<times> 'c benchClient"
where
  "makeCall cl aops rops ClientCallNop b = call_nop cl b"
| "makeCall cl aops rops ClientCallAdd b = call_add cl b"
| "makeCall cl aops rops ClientCallTreeMult b = call_tree cl aops rops b"
| "makeCall cl aops rops ClientCallToHex b = call_hex cl b"
| "makeCall cl aops rops (ClientCallOther i) b =
     (Inl (Errorf ''unknown call in makeCall(): %d'' [i]), b)"

section \<open>Runs\<close>

text \<open>
  The loop of a run over \<open>k\<close> iterations of \<open>b.Loop()\<close> or \<open>p.Next()\<close>: the numbers \<open>N\<close> and
  \<open>totalBytes\<close> are \<open>int64\<close>, the first failing call ends it.
\<close>

fun call_loop ::
  "('b \<Rightarrow> int result \<times> 'b) \<Rightarrow> nat \<Rightarrow> int64 \<Rightarrow> int64 \<Rightarrow> 'b \<Rightarrow> (int64 \<times> int64) result \<times> 'b"
where
  "call_loop call 0 n bytes b = (Inr (n, bytes), b)"
| "call_loop call (Suc k) n bytes b =
     (case call b of
        (Inl e, b') \<Rightarrow> (Inl e, b')
      | (Inr x, b') \<Rightarrow> call_loop call k (n + 1) (bytes + word_of_int x) b')"

text \<open>Go's division of two \<open>int64\<close> truncates and panics on 0.\<close>

definition go_div :: "int64 \<Rightarrow> int64 \<Rightarrow> int64 result" where
  "go_div x y =
     (if y = 0 then Inl (Panic ''integer divide by zero'')
      else Inr (word_of_int (sgn (sint x) * sgn (sint y) * (\<bar>sint x\<bar> div \<bar>sint y\<bar>))))"

text \<open>\<open>runSequentialBench\<close> after its set-up: the value given to \<open>b.SetBytes\<close>.\<close>

definition sequential_run :: "('b \<Rightarrow> int result \<times> 'b) \<Rightarrow> nat \<Rightarrow> 'b \<Rightarrow> int64 result" where
  "sequential_run call k b =
     bind_result (fst (call_loop call k 0 0 b)) (\<lambda>(n, bytes). go_div bytes n)"

text \<open>
  \<open>runParallelBench\<close>: a worker that fails calls \<open>b.Fatal\<close>, which ends its goroutine before
  it sends its totals.
\<close>

definition parallel_worker ::
  "('b \<Rightarrow> int result \<times> 'b) \<Rightarrow> nat \<Rightarrow> 'b \<Rightarrow> (int64 \<times> int64) option" where
  "parallel_worker call k b =
     (case fst (call_loop call k 0 0 b) of Inl e \<Rightarrow> None | Inr t \<Rightarrow> Some t)"

text \<open>
  Receiving \<open>m\<close> totals from the channel once the workers are done: \<open>None\<close> when the
  channel is empty and nobody is left to send, where the receiver blocks for good.
\<close>

fun collect_totals ::
  "nat \<Rightarrow> (int64 \<times> int64) list \<Rightarrow> int64 \<Rightarrow> int64 \<Rightarrow> (int64 \<times> int64) option"
where
  "collect_totals 0 chan n bytes = Some (n, bytes)"
| "collect_totals (Suc m) [] n bytes = None"
| "collect_totals (Suc m) ((n', bytes') # chan) n bytes =
     collect_totals m chan (n + n') (bytes + bytes')"

text \<open>
  \<open>ws\<close> are the workers' iteration counts and clients in the order in which they finish,
  one for each of the \<open>nbClients\<close> clients.
\<close>

definition parallel_run ::
  "('b \<Rightarrow> int result \<times> 'b) \<Rightarrow> (nat \<times> 'b) list \<Rightarrow> int64 result option"
where
  "parallel_run call ws =
     map_option (\<lambda>(n, bytes). go_div bytes n)
       (collect_totals (length ws)
          (List.map_filter (\<lambda>(k, b). parallel_worker call k b) ws) 0 0)"

section \<open>The server's end of a run\<close>

text \<open>
  The clean-up of \<open>newServerHarness\<close> waits a second for the server's \<open>Run\<close>. Its check
  reads the variable \<open>err\<close> of the enclosing function, not the error of \<open>Run\<close>.
\<close>

datatype server_end = RunReturned "go_error option" | RunTimedOut

datatype test_report = ReportRunError go_error | ReportTimeout

definition server_cleanup :: "go_error option \<Rightarrow> server_end \<Rightarrow> test_report list" where
  "server_cleanup err ev =
     (case ev of
        RunReturned (Some runErr) \<Rightarrow>
          (if \<not> (case err of None \<Rightarrow> False | Some e \<Rightarrow> errors_is e Canceled)
           then [ReportRunError runErr] else [])
      | RunReturned None \<Rightarrow> []
      | RunTimedOut \<Rightarrow> [ReportTimeout])"

text \<open>
  \<open>RPCFactory\<close>: \<open>fac_NewClient fac addr i\<close> is the result of the \<open>i\<close>-th call of \<open>NewClient\<close>.
\<close>

record ('l, 's, 'c) rpc_factory =
  fac_NewServer :: "'l \<Rightarrow> 's result"
  fac_NewClient :: "string \<Rightarrow> nat \<Rightarrow> 'c result"

record 's serverHarness =
  sh_s :: 's
  sh_addr :: string

text \<open>
  \<open>newServerHarness\<close>: \<open>listen\<close> is the result of \<open>net.Listen\<close> with the address of the
  listener; the clean-up function closes over \<open>err\<close>, which is nil by then.
\<close>

definition newServerHarness ::
  "('l \<times> string) result \<Rightarrow> ('l, 's, 'c) rpc_factory \<Rightarrow>
     ('s serverHarness \<times> (server_end \<Rightarrow> test_report list)) result"
where
  "newServerHarness listen fac =
     bind_result listen (\<lambda>(l, addr).
     bind_result (fac_NewServer fac l) (\<lambda>s.
       Inr (\<lparr>sh_s = s, sh_addr = addr\<rparr>, server_cleanup None)))"

section \<open>Whole runs\<close>

text \<open>
  \<open>runSequentialBench\<close> and \<open>runParallelBench\<close>: a server, its clients, and the calls. The
  parallel run has a client for each element of \<open>ks\<close>, the numbers of iterations.
\<close>

definition runSequentialBench ::
  "('l \<times> string) result \<Rightarrow> ('l, 's, 'c) rpc_factory \<Rightarrow> (nat \<Rightarrow> rng) \<Rightarrow> (int64 \<Rightarrow> byte list) \<Rightarrow>
     ('c benchClient \<Rightarrow> int result \<times> 'c benchClient) \<Rightarrow> nat \<Rightarrow> int64 result"
where
  "runSequentialBench listen fac pcg chacha call k =
     bind_result (newServerHarness listen fac) (\<lambda>(sh, _).
     bind_result (newClientHarness pcg chacha (fac_NewClient fac (sh_addr sh)) 1) (\<lambda>clients.
       sequential_run call k (clients ! 0)))"

definition runParallelBench ::
  "('l \<times> string) result \<Rightarrow> ('l, 's, 'c) rpc_factory \<Rightarrow> (nat \<Rightarrow> rng) \<Rightarrow> (int64 \<Rightarrow> byte list) \<Rightarrow>
     ('c benchClient \<Rightarrow> int result \<times> 'c benchClient) \<Rightarrow> nat list \<Rightarrow> int64 result option"
where
  "runParallelBench listen fac pcg chacha call ks =
     (case bind_result (newServerHarness listen fac) (\<lambda>(sh, _).
             newClientHarness pcg chacha (fac_NewClient fac (sh_addr sh)) (length ks)) of
        Inl e \<Rightarrow> Some (Inl e)
      | Inr clients \<Rightarrow> parallel_run call (zip ks clients))"

section \<open>The trees of a client\<close>

fun vnarrow :: "nat \<Rightarrow> vtree" where
  "vnarrow 0 = VT 0 []"
| "vnarrow (Suc k) = VT 0 [vnarrow k]"

lemma narrow_tree_ok: "\<exists>t. narrow_tree k tn_zero = Inr t \<and> tn_wf t \<and> tn_view t = vnarrow k"
proof (induction k)
  case 0
  then show ?case by (simp add: tn_zero_def)
next
  case (Suc k)
  have one: "replicate 1 tn_zero = [tn_zero]" by simp
  from Suc show ?case
    by (auto simp: tn_InitChildren_zero with_child_def tn_Child_def tn_PutChild_def)
qed

lemma vnodes_vnarrow [simp]: "vnodes (vnarrow k) = Suc k"
  by (induction k) simp_all

lemma test_trees_ok:
  obtains t1 t2 t3 t4 t5 g' where "test_trees g = Inr ([tn_zero, t1, t2, t3, t4, t5], g')"
    "\<forall>t \<in> {tn_zero, t1, t2, t3, t4, t5}. tn_wf t"
    "tn_view tn_zero = VT 0 []" "tn_view t1 = vnarrow 64"
    "tn_view t2 = VT 0 (replicate 64 (VT 0 []))" "tn_view t3 = vdense 5 6"
    "vfits 8 5 (tn_view t4)" "vfits 8 5 (tn_view t5)"
proof -
  obtain t1 where t1: "narrow_tree 64 tn_zero = Inr t1" "tn_wf t1" "tn_view t1 = vnarrow 64"
    using narrow_tree_ok by blast
  obtain t3 where t3: "makeDenseTreeNode tn_ops 5 6 tn_zero = Inr t3" "tn_wf t3"
      "tn_view t3 = vdense 5 6"
    using makeDenseTreeNode_dense [of 5 6] by auto
  obtain t4 g1 where t4: "makeRandomTree tn_ops 8 5 (tn_zero, g) = Inr (t4, g1)" "tn_wf t4"
      "vfits 8 5 (tn_view t4)"
    using makeRandomTree_fits [of 8 5 g] by auto
  obtain t5 g2 where t5: "makeRandomTree tn_ops 8 5 (tn_zero, g1) = Inr (t5, g2)" "tn_wf t5"
      "vfits 8 5 (tn_view t5)"
    using makeRandomTree_fits [of 8 5 g1] by auto
  let ?t2 = "tn_InitChildren 64 tn_zero"
  have zero: "tn_wf tn_zero" "tn_view tn_zero = VT 0 []"
    by (simp_all add: tn_zero_def)
  have t2: "tn_wf ?t2" "tn_view ?t2 = VT 0 (replicate 64 (VT 0 []))"
    using zero by (simp_all add: tn_InitChildren_zero)
  have "test_trees g = Inr ([tn_zero, t1, ?t2, t3, t4, t5], g2)"
    using t1(1) t3(1) t4(1) t5(1) by (simp add: test_trees_def)
  then show ?thesis
    by (rule that) (use t1 t2 t3 t4 t5 zero in auto)
qed

lemma vnodes_vdense: "vnodes (vdense d (Suc l)) = Suc (d * vnodes (vdense d l))"
  by (simp add: sum_list_replicate)

lemma test_trees_nodes:
  "vnodes (VT 0 []) = 1" "vnodes (vnarrow 64) = 65"
  "vnodes (VT 0 (replicate 64 (VT 0 []))) = 65" "vnodes (vdense 5 6) = 19531"
  "max_nodes 8 5 = 87381"
proof -
  have "vnodes (vdense 5 (Suc (Suc (Suc (Suc (Suc (Suc 0))))))) = 19531"
    by (simp add: vnodes_vdense del: vdense.simps(2))
  moreover have "6 = Suc (Suc (Suc (Suc (Suc (Suc 0)))))" by simp
  ultimately show "vnodes (vdense 5 6) = 19531" by metis
  have "max_nodes (Suc (Suc (Suc (Suc (Suc (Suc (Suc (Suc 0)))))))) 5 = 87381"
    by simp
  moreover have "8 = Suc (Suc (Suc (Suc (Suc (Suc (Suc (Suc 0)))))))" by simp
  ultimately show "max_nodes 8 5 = 87381" by metis
qed (simp_all add: sum_list_replicate)

lemma vfits_vlow: "vfits l b t \<Longrightarrow> vlow l t"
  by (induction l b t rule: vfits.induct) auto

lemma vlow_vnarrow: "vlow k (vnarrow k)"
  by (induction k) simp_all

lemma vlow_vdense: "vlow l (vdense d l)"
  by (induction l) simp_all

lemma test_trees_low:
  "vlow 64 (vnarrow 64)" "vlow 64 (VT 0 (replicate 64 (VT 0 [])))" "vlow 64 (vdense 5 6)"
proof -
  show "vlow 64 (vnarrow 64)" by (rule vlow_vnarrow)
  have "vlow (Suc 0) (VT 0 (replicate 64 (VT 0 [])))" by simp
  then show "vlow 64 (VT 0 (replicate 64 (VT 0 [])))" by (rule vlow_mono) simp
  show "vlow 64 (vdense 5 6)" using vlow_vdense by (rule vlow_mono) simp
qed

section \<open>A system that meets the contract passes every check\<close>

definition bench_ok :: "('c \<Rightarrow> bool) \<Rightarrow> nat \<Rightarrow> nat \<Rightarrow> nat \<Rightarrow> 'c benchClient \<Rightarrow> bool" where
  "bench_ok I max_tree max_levels max_hex b \<longleftrightarrow>
     I (bc_c b) \<and> bc_testTrees b \<noteq> [] \<and>
     (\<forall>t \<in> set (bc_testTrees b). tn_wf t \<and> vwithin max_tree max_levels (tn_view t)) \<and>
     bc_hexInBuf b \<noteq> [] \<and> length (bc_hexInBuf b) \<le> Suc max_hex \<and>
     length (bc_hexOutBuf b) = 2 * length (bc_hexInBuf b) \<and>
     length (bc_hexCheckBuf b) = length (bc_hexInBuf b)"

lemma length_store_prefix [simp]:
  "length xs \<le> length buf \<Longrightarrow> length (store_prefix xs buf) = length buf"
  by (simp add: store_prefix_def)

lemma take_store_prefix [simp]: "n = length xs \<Longrightarrow> take n (store_prefix xs buf) = xs"
  by (simp add: store_prefix_def)

lemma store_prefix_Nil_conv [simp]: "store_prefix xs buf = [] \<longleftrightarrow> xs = [] \<and> buf = []"
  by (auto simp: store_prefix_def)

lemma length_fst_reader_read [simp]: "length (fst (reader_read n tape)) = n"
  by (simp add: reader_read_def)

lemma rng_IntN_range:
  assumes "rng_IntN n g = Inr (i, g')"
  shows "0 \<le> i \<and> i < n"
proof (cases "0 < n")
  case True
  then show ?thesis using rng_IntN_bound [of n g] assms by (metis Pair_inject sum.inject(2))
next
  case False
  with assms show ?thesis by (simp add: rng_IntN_def)
qed

lemma populateWithRand_within:
  "vwithin n l (tn_view (fst (populateWithRand t g))) = vwithin n l (tn_view t)"
  by (rule vwithin_layout) (simp add: populateWithRand_props)

context rpc_calls
begin

lemma call_nop_ok:
  assumes "bench_ok inv max_tree max_levels max_hex b"
  shows "\<exists>n b'. call_nop cl b = (Inr n, b') \<and> bench_ok inv max_tree max_levels max_hex b'"
proof -
  obtain c' where "cl_Nop cl (bc_c b) = (None, c')" "inv c'"
    using nop [of "bc_c b"] assms by (auto simp: bench_ok_def)
  with assms show ?thesis by (simp add: call_nop_def bench_ok_def)
qed

lemma call_add_ok:
  assumes "bench_ok inv max_tree max_levels max_hex b"
  shows "\<exists>n b'. call_add cl b = (Inr n, b') \<and> bench_ok inv max_tree max_levels max_hex b'"
proof -
  obtain x g1 y g2 where r: "rng_Int64 (bc_rng b) = (x, g1)" "rng_Int64 g1 = (y, g2)"
    by fastforce
  obtain c' where "cl_Add cl (bc_c b) x y = (Inr (x + y), c')" "inv c'"
    using add [of "bc_c b" x y] assms by (auto simp: bench_ok_def)
  with r assms show ?thesis by (simp add: call_add_def bench_ok_def)
qed

lemma call_hex_ok:
  assumes "bench_ok inv max_tree max_levels max_hex b"
  shows "\<exists>n b'. call_hex cl b = (Inr n, b') \<and> bench_ok inv max_tree max_levels max_hex b'"
proof -
  have "0 < int (length (bc_hexInBuf b))"
    using assms by (simp add: bench_ok_def)
  then obtain s g where s: "rng_IntN (int (length (bc_hexInBuf b))) (bc_rng b) = Inr (s, g)"
      "0 \<le> s" "s < int (length (bc_hexInBuf b))"
    by (rule rng_IntN_bound)
  obtain inp tape where inp: "reader_read (nat s) (bc_reader b) = (inp, tape)" by fastforce
  then have len: "length inp = nat s" by (metis fst_conv length_fst_reader_read)
  let ?q = "take (nat s * 2) (bc_hexOutBuf b)"
  have "inv (bc_c b)" "length inp \<le> max_hex" "length ?q = 2 * length inp"
    using s len assms by (auto simp: bench_ok_def)
  then obtain c' where c': "cl_ToHex cl (bc_c b) inp ?q = (None, hex_encode inp, c')" "inv c'"
    using to_hex [of "bc_c b" inp ?q] by blast
  have "take (nat s * 2) (store_prefix (hex_encode inp) (bc_hexOutBuf b)) = hex_encode inp"
    using len by simp
  moreover have "length inp \<le> length (bc_hexInBuf b)" "length (hex_encode inp) \<le> length (bc_hexOutBuf b)"
    using s len assms by (auto simp: bench_ok_def)
  ultimately show ?thesis
    using s inp c' len assms by (simp add: call_hex_def Let_def bench_ok_def)
qed

lemma makeCall_no_tree_ok:
  assumes "bench_ok inv max_tree max_levels max_hex b" "call \<in> set ClientCallMatrix" "call \<noteq> ClientCallTreeMult"
  shows "\<exists>n b'. makeCall cl aops rops call b = (Inr n, b') \<and> bench_ok inv max_tree max_levels max_hex b'"
  using assms call_nop_ok call_add_ok call_hex_ok
  by (auto simp: ClientCallMatrix_def simp del: split_paired_Ex)

end

context rpc_system
begin

text \<open>A call with the tree drawn at \<open>i\<close>: only that tree has to be within the limits.\<close>

lemma call_tree_drawn:
  assumes "inv (bc_c b)" and i: "rng_IntN (int (length (bc_testTrees b))) (bc_rng b) = Inr (i, g1)"
    and t: "tn_wf (bc_testTrees b ! nat i)" "vwithin max_tree max_levels (tn_view (bc_testTrees b ! nat i))"
  shows "\<exists>c' g3 tgt. call_tree cl aops rops b =
      (Inr 0, b\<lparr>bc_c := c', bc_chosenTestTree := nat i, bc_rng := g3, bc_testTrees := (bc_testTrees b)[nat i := tgt]\<rparr>) \<and>
    inv c' \<and> tn_wf tgt \<and> vwithin max_tree max_levels (tn_view tgt)"
proof -
  have range: "0 \<le> i" "i < int (length (bc_testTrees b))" using rng_IntN_range [OF i] by simp_all
  obtain mult g2 where g2: "rng_Int64 g1 = (mult, g2)" by fastforce
  let ?t = "bc_testTrees b ! nat i"
  obtain tgt g3 where g3: "populateWithRand ?t g2 = (tgt, g3)" by fastforce
  have tgt: "tn_wf tgt" "vwithin max_tree max_levels (tn_view tgt)"
    using t populateWithRand_props [of ?t g2] populateWithRand_within [of max_tree max_levels ?t g2] g3
    by auto
  let ?b1 = "b\<lparr>bc_chosenTestTree := nat i, bc_rng := g3,
               bc_testTrees := (bc_testTrees b)[nat i := tgt]\<rparr>"
  have fill: "\<exists>t'. fillRequestTree aops ?b1 t = Inr t' \<and> filled t t' (tn_view tgt)"
    if "start t" for t
    using tree_filler.copyTree_filled [OF args that tgt(2)] range by (simp add: fillRequestTree_def)
  obtain res c' where res: "cl_MultTreeValues cl (bc_c ?b1) mult (fillRequestTree aops ?b1) = (Inr res, c')"
      "rok res" "rview res = vmult mult (tn_view tgt)" "inv c'"
    using mult_tree [of "bc_c ?b1" "fillRequestTree aops ?b1" "tn_view tgt" mult] assms(1) fill tgt(2)
    by auto
  have "treeMatchesForMult rops res tgt mult = Inr True"
    using tree_reader.matches_view [OF results res(2)] res(3) by simp
  then have "call_tree cl aops rops b = (Inr 0, ?b1\<lparr>bc_c := c'\<rparr>)"
    using i g2 g3 res(1) by (simp add: call_tree_def Let_def)
  with tgt res(4) show ?thesis by (intro exI [of _ c'] exI [of _ g3] exI [of _ tgt]) simp
qed

lemma call_tree_ok:
  assumes "bench_ok inv max_tree max_levels max_hex b"
  shows "\<exists>n b'. call_tree cl aops rops b = (Inr n, b') \<and> bench_ok inv max_tree max_levels max_hex b'"
proof -
  have "0 < int (length (bc_testTrees b))"
    using assms by (simp add: bench_ok_def)
  then obtain i g1 where i: "rng_IntN (int (length (bc_testTrees b))) (bc_rng b) = Inr (i, g1)"
      "0 \<le> i" "i < int (length (bc_testTrees b))"
    by (rule rng_IntN_bound)
  then have "bc_testTrees b ! nat i \<in> set (bc_testTrees b)" by simp
  then obtain c' g3 tgt where call: "call_tree cl aops rops b =
      (Inr 0, b\<lparr>bc_c := c', bc_chosenTestTree := nat i, bc_rng := g3, bc_testTrees := (bc_testTrees b)[nat i := tgt]\<rparr>)"
    "inv c'" "tn_wf tgt" "vwithin max_tree max_levels (tn_view tgt)"
    using call_tree_drawn [OF _ i(1)] assms unfolding bench_ok_def by blast
  have "\<forall>t \<in> set ((bc_testTrees b)[nat i := tgt]). tn_wf t \<and> vwithin max_tree max_levels (tn_view t)"
    using assms call(3,4) by (auto simp: bench_ok_def dest!: set_update_subset_insert [THEN subsetD])
  with call assms show ?thesis by (simp add: bench_ok_def)
qed

lemma makeCall_ok:
  assumes "bench_ok inv max_tree max_levels max_hex b" "call \<in> set ClientCallMatrix"
  shows "\<exists>n b'. makeCall cl aops rops call b = (Inr n, b') \<and> bench_ok inv max_tree max_levels max_hex b'"
proof (cases "call = ClientCallTreeMult")
  case True
  then show ?thesis using call_tree_ok [OF assms(1)] by simp
next
  case False
  then show ?thesis by (rule calls.makeCall_no_tree_ok [OF assms])
qed

end

section \<open>Runs\<close>

lemma call_loop_ok:
  assumes step: "\<And>b. ok b \<Longrightarrow> \<exists>x b'. call b = (Inr x, b') \<and> ok b'" and "ok b"
  shows "\<exists>n bytes b'. call_loop call k n0 bytes0 b = (Inr (n, bytes), b') \<and>
           n = n0 + word_of_nat k \<and> ok b'"
  using assms(2)
proof (induction k arbitrary: n0 bytes0 b)
  case (Suc k)
  obtain x b1 where "call b = (Inr x, b1)" "ok b1"
    using step Suc.prems by blast
  with Suc.IH [of b1 "n0 + 1" "bytes0 + word_of_int x"] show ?case by (auto simp: algebra_simps)
qed simp

lemma collect_totals_enough:
  "m \<le> length chan \<Longrightarrow> collect_totals m chan n bytes =
     Some (n + sum_list (map fst (take m chan)), bytes + sum_list (map snd (take m chan)))"
  by (induction m chan n bytes rule: collect_totals.induct) (auto simp: algebra_simps)

lemma collect_totals_starved: "length chan < m \<Longrightarrow> collect_totals m chan n bytes = None"
  by (induction m chan n bytes rule: collect_totals.induct) auto

lemma length_map_filter_le: "length (List.map_filter f xs) \<le> length xs"
  by (induction xs) (auto simp: List.map_filter_simps split: option.splits)

lemma length_map_filter_less:
  "x \<in> set xs \<Longrightarrow> f x = None \<Longrightarrow> length (List.map_filter f xs) < length xs"
proof (induction xs)
  case (Cons y ys)
  then show ?case
    using length_map_filter_le [of f ys]
    by (auto simp: List.map_filter_simps split: option.splits)
qed simp

lemma map_filter_all:
  "(\<And>x. x \<in> set xs \<Longrightarrow> f x = Some (g x)) \<Longrightarrow> List.map_filter f xs = map g xs"
  by (induction xs) (auto simp: List.map_filter_simps)

section \<open>Whole runs over a system that meets the contract\<close>

lemma fold_result_append:
  assumes "\<And>i. i \<in> set xs \<Longrightarrow> \<exists>y. f i = Inr y \<and> P y"
  shows "\<exists>ys. fold_result (\<lambda>i acc. bind_result (f i) (\<lambda>y. Inr (acc @ [y]))) xs zs = Inr (zs @ ys) \<and>
           length ys = length xs \<and> (\<forall>y \<in> set ys. P y)"
  using assms
proof (induction xs arbitrary: zs)
  case (Cons x xs)
  obtain y where y: "f x = Inr y" "P y" using Cons.prems by auto
  obtain ys where "fold_result (\<lambda>i acc. bind_result (f i) (\<lambda>y. Inr (acc @ [y]))) xs (zs @ [y]) =
        Inr ((zs @ [y]) @ ys)" "length ys = length xs" "\<forall>y \<in> set ys. P y"
    using Cons.IH [of "zs @ [y]"] Cons.prems by auto
  with y show ?case by (intro exI [of _ "y # ys"]) auto
qed simp

lemma bind_result_assoc [simp]:
  "bind_result (bind_result r f) g = bind_result r (\<lambda>x. bind_result (f x) g)"
  by (cases r) simp_all

lemma word_of_nat_not_0: "0 < k \<Longrightarrow> k < 2 ^ 63 \<Longrightarrow> (word_of_nat k :: int64) \<noteq> 0"
  by (metis nat_sint_of_nat less_irrefl nat_0 signed_0)

text \<open>The test trees and buffers of a new client are within the limits of the harness.\<close>

lemma new_bench_client_ok:
  assumes "I c" "87381 \<le> max_tree" "64 \<le> max_levels" "MaxHexEncodeSize \<le> Suc max_hex"
  shows "\<exists>b. new_bench_client pcg chacha i c = Inr b \<and> bc_c b = c \<and> bench_ok I max_tree max_levels max_hex b"
proof -
  obtain s g where g: "rng_draw (pcg i) = (s, g)" by fastforce
  obtain t1 t2 t3 t4 t5 g' where t: "test_trees g = Inr ([tn_zero, t1, t2, t3, t4, t5], g')"
    "\<forall>t \<in> {tn_zero, t1, t2, t3, t4, t5}. tn_wf t"
    "tn_view tn_zero = VT 0 []" "tn_view t1 = vnarrow 64"
    "tn_view t2 = VT 0 (replicate 64 (VT 0 []))" "tn_view t3 = vdense 5 6"
    "vfits 8 5 (tn_view t4)" "vfits 8 5 (tn_view t5)"
    by (rule test_trees_ok)
  have "vnodes (tn_view t4) \<le> 87381" "vnodes (tn_view t5) \<le> 87381"
    using vfits_nodes [OF t(7)] vfits_nodes [OF t(8)] test_trees_nodes(5) by simp_all
  then have "\<forall>t \<in> {tn_zero, t1, t2, t3, t4, t5}. vnodes (tn_view t) \<le> 87381"
    using t(3-6) test_trees_nodes(1-4) by simp
  moreover have "vlow 64 (tn_view t)" if "t \<in> {tn_zero, t1, t2, t3, t4, t5}" for t
    using that t(3-6) vfits_vlow [OF t(7)] vfits_vlow [OF t(8)] test_trees_low
    by (auto intro: vlow_mono)
  ultimately have nodes: "\<forall>t \<in> {tn_zero, t1, t2, t3, t4, t5}. vwithin max_tree max_levels (tn_view t)"
    unfolding vwithin_def by (meson assms(2,3) le_trans vlow_mono)
  have "0 < MaxHexEncodeSize" by (simp add: MaxHexEncodeSize_def)
  with g t(1,2) nodes assms(1,4) show ?thesis
    by (simp add: new_bench_client_def bench_ok_def)
qed

lemma new_clients_ok:
  assumes "\<And>i. i < n \<Longrightarrow> \<exists>c. new_client i = Inr c \<and> I c"
    and "87381 \<le> max_tree" "64 \<le> max_levels" "MaxHexEncodeSize \<le> Suc max_hex"
  shows "\<exists>bs. newClientHarness pcg chacha new_client n = Inr bs \<and> length bs = n \<and>
           (\<forall>b \<in> set bs. bench_ok I max_tree max_levels max_hex b)"
proof -
  let ?f = "\<lambda>i. bind_result (new_client i) (new_bench_client pcg chacha i)"
  have "\<exists>b. ?f i = Inr b \<and> bench_ok I max_tree max_levels max_hex b" if i: "i \<in> set [0..<n]" for i
  proof -
    obtain c where "new_client i = Inr c" "I c" using assms(1) i by auto
    with new_bench_client_ok [of I c max_tree max_levels max_hex pcg chacha i] assms(2-4) show ?thesis by auto
  qed
  from fold_result_append [of "[0..<n]" ?f, OF this, of "[]"] show ?thesis
    by (simp add: newClientHarness_def)
qed

text \<open>Runs of calls that succeed in every state that meets \<open>ok\<close>.\<close>

lemma call_loop_total:
  assumes "\<And>b. ok b \<Longrightarrow> \<exists>x b'. call b = (Inr x, b') \<and> ok b'" "ok b"
  shows "\<exists>bytes b'. call_loop call k 0 0 b = (Inr (word_of_nat k, bytes), b') \<and> ok b'"
  using call_loop_ok [where ok = ok and call = call and ?n0.0 = 0 and ?bytes0.0 = 0 and k = k, OF assms]
  by auto

lemma sequential_run_total:
  assumes "\<And>b. ok b \<Longrightarrow> \<exists>x b'. call b = (Inr x, b') \<and> ok b'" "ok b" "0 < k" "k < 2 ^ 63"
  shows "\<exists>per_op. sequential_run call k b = Inr per_op"
proof -
  obtain bytes b' where "call_loop call k 0 0 b = (Inr (word_of_nat k, bytes), b')"
    using call_loop_total [of ok call b k] assms(1,2) by blast
  moreover have "(word_of_nat k :: int64) \<noteq> 0"
    using assms(3,4) by (rule word_of_nat_not_0)
  ultimately show ?thesis by (simp add: sequential_run_def go_div_def)
qed

lemma parallel_run_total:
  assumes step: "\<And>b. ok b \<Longrightarrow> \<exists>x b'. call b = (Inr x, b') \<and> ok b'" and ws: "\<forall>(k, b) \<in> set ws. ok b"
    and "0 < sum_list (map fst ws)" "sum_list (map fst ws) < 2 ^ 63"
  shows "\<exists>per_op. parallel_run call ws = Some (Inr per_op)"
proof -
  let ?bytes = "\<lambda>(k, b). snd (the (parallel_worker call k b))"
  have "parallel_worker call k b = Some (word_of_nat k, ?bytes (k, b))" if "(k, b) \<in> set ws" for k b
    using call_loop_total [of ok call b k, OF step] ws that by (fastforce simp: parallel_worker_def)
  then have chan: "List.map_filter (\<lambda>(k, b). parallel_worker call k b) ws =
      map (\<lambda>w. (word_of_nat (fst w), ?bytes w)) ws"
    by (intro map_filter_all) auto
  have "sum_list (map (\<lambda>w. word_of_nat (fst w)) ws) = (word_of_nat (sum_list (map fst ws)) :: int64)"
    by (induction ws) simp_all
  moreover have "(word_of_nat (sum_list (map fst ws)) :: int64) \<noteq> 0"
    using assms(3,4) by (rule word_of_nat_not_0)
  ultimately show ?thesis
    by (simp add: parallel_run_def chan collect_totals_enough o_def go_div_def)
qed

context rpc_system
begin

lemma call_loop_clean:
  assumes "bench_ok inv max_tree max_levels max_hex b" "call \<in> set ClientCallMatrix"
  shows "\<exists>bytes b'. call_loop (makeCall cl aops rops call) k 0 0 b =
           (Inr (word_of_nat k, bytes), b') \<and> bench_ok inv max_tree max_levels max_hex b'"
  using assms(2) by (intro call_loop_total [OF makeCall_ok] assms(1))

lemma parallel_run_ok:
  assumes "\<forall>(k, b) \<in> set ws. bench_ok inv max_tree max_levels max_hex b" "call \<in> set ClientCallMatrix"
    and "0 < sum_list (map fst ws)" "sum_list (map fst ws) < 2 ^ 63"
  shows "\<exists>per_op. parallel_run (makeCall cl aops rops call) ws = Some (Inr per_op)"
  by (rule parallel_run_total [OF makeCall_ok [OF _ assms(2)] assms(1,3,4)])

end

section \<open>Properties\<close>

text \<open>A client that computes the answers itself, for the examples.\<close>

definition ideal_ops :: "(unit, TreeNodeImpl, TreeNodeImpl) client_ops" where
  "ideal_ops =
     \<lparr>cl_Nop = (\<lambda>c. (None, c)),
      cl_Add = (\<lambda>c a b. (Inr (a + b), c)),
      cl_MultTreeValues = (\<lambda>c m fill. (bind_result (fill tn_zero) (\<lambda>t. Inr (tn_Mult m t)), c)),
      cl_ToHex = (\<lambda>c p q. (None, take (length q) (hex_encode p @ q), c))\<rparr>"

lemma ideal_slice: "length (fst (snd (cl_ToHex ideal_ops c p q))) = length q"
  by (simp add: ideal_ops_def)

definition small_client :: "unit benchClient" where
  "small_client =
     \<lparr>bc_c = (), bc_rng = [1, 2, 3], bc_reader = [171], bc_testTrees = [tn_zero],
      bc_chosenTestTree = 0, bc_hexInBuf = [0, 0], bc_hexOutBuf = [0, 0, 0, 0],
      bc_hexCheckBuf = [0, 0]\<rparr>"

text \<open>The harness accepts the answer to \<open>Add\<close> exactly when the client returned the sum, in
  64 bits, of the two numbers drawn, whatever the client is.\<close>

lemma call_add_exact:
  "fst (call_add cl b) = Inr 0 \<longleftrightarrow>
     (case rng_Int64 (bc_rng b) of (x, g) \<Rightarrow> case rng_Int64 g of (y, g') \<Rightarrow>
        fst (cl_Add cl (bc_c b) x y) = Inr (x + y))"
  by (auto simp: call_add_def split: prod.splits sum.splits)

lemma length_fst_hex_decode: "hex_decode cs = (bs, None) \<Longrightarrow> length cs = 2 * length bs"
  by (induction cs arbitrary: bs rule: hex_decode.induct) (auto split: option.splits prod.splits)

text \<open>C26: When the harness accepts the answer to \<open>ToHex\<close>, the client reported no error and the
  slice it was given holds a hex form of exactly the bytes it was sent, whatever the client
  does, as long as it cannot change the length of the slice.\<close>

theorem call_hex_sound:
  assumes call: "call_hex cl b = (Inr n, b')"
    and bufs: "length (bc_hexOutBuf b) = 2 * length (bc_hexInBuf b)"
      "length (bc_hexCheckBuf b) = length (bc_hexInBuf b)"
    and slice: "\<And>c p q. length (fst (snd (cl_ToHex cl c p q))) = length q"
  shows "\<exists>sz < length (bc_hexInBuf b).
    hex_decode (take (2 * sz) (bc_hexOutBuf b')) = (take sz (bc_hexInBuf b'), None) \<and>
    fst (cl_ToHex cl (bc_c b) (take sz (bc_hexInBuf b')) (take (2 * sz) (bc_hexOutBuf b))) = None \<and>
    fst (snd (cl_ToHex cl (bc_c b) (take sz (bc_hexInBuf b')) (take (2 * sz) (bc_hexOutBuf b)))) =
      take (2 * sz) (bc_hexOutBuf b')"
proof -
  obtain s g where s: "rng_IntN (int (length (bc_hexInBuf b))) (bc_rng b) = Inr (s, g)"
    using call by (auto simp: call_hex_def split: sum.splits prod.splits)
  then have sz: "nat s < length (bc_hexInBuf b)"
    using rng_IntN_range by fastforce
  obtain inp tape where inp: "reader_read (nat s) (bc_reader b) = (inp, tape)" by fastforce
  then have len: "length inp = nat s" by (metis fst_conv length_fst_reader_read)
  let ?q = "take (nat s * 2) (bc_hexOutBuf b)"
  obtain err outp c where th: "cl_ToHex cl (bc_c b) inp ?q = (err, outp, c)"
    by (cases "cl_ToHex cl (bc_c b) inp ?q")
  have lo: "length outp = nat s * 2"
    using slice [of "bc_c b" inp ?q] th sz bufs by simp
  obtain dec derr where dec: "hex_decode outp = (dec, derr)" by fastforce
  have ok: "err = None" "derr = None"
      "take (nat s) (store_prefix dec (bc_hexCheckBuf b)) = take (nat s) (store_prefix inp (bc_hexInBuf b))"
      "bc_hexInBuf b' = store_prefix inp (bc_hexInBuf b)"
      "bc_hexOutBuf b' = store_prefix outp (bc_hexOutBuf b)"
    using call s inp th lo dec
    by (auto simp: call_hex_def Let_def split: option.splits if_splits)
  from dec ok(2) lo have "length dec = nat s"
    using length_fst_hex_decode [of outp dec] by simp
  then have "dec = inp" using ok(3) len by simp
  with sz s inp len th lo dec ok show ?thesis
    by (intro exI [of _ "nat s"]) (simp add: mult.commute [of 2])
qed

lemma call_hex_sound_witness:
  "\<exists>sz < 2. hex_decode (take (2 * sz) (bc_hexOutBuf (snd (call_hex ideal_ops small_client)))) =
     (take sz (bc_hexInBuf (snd (call_hex ideal_ops small_client))), None)"
proof -
  let ?r = "call_hex ideal_ops small_client"
  have "fst ?r = Inr 6" by code_simp
  then have r: "?r = (Inr 6, snd ?r)" by (metis prod.collapse)
  have len: "length (bc_hexOutBuf small_client) = 2 * length (bc_hexInBuf small_client)"
      "length (bc_hexCheckBuf small_client) = length (bc_hexInBuf small_client)"
      "length (bc_hexInBuf small_client) = 2"
    by (simp_all add: small_client_def)
  from call_hex_sound [OF r len(1,2) ideal_slice] len(3) show ?thesis by metis
qed

text \<open>C27: When the harness accepts the answer to \<open>MultTreeValues\<close>, the call it made is the one
  with the test tree and the multiplier it drew from its generator, the client answered it
  without an error, and the tree in the answer is that test tree with every value multiplied,
  whatever the client does and whatever tree type it returns.\<close>

theorem call_tree_sound:
  assumes call: "call_tree cl aops rops b = (Inr n, b')"
    and results: "tree_reader rops rview rok"
    and ok: "\<And>m res c'. cl_MultTreeValues cl (bc_c b) m (fillRequestTree aops b') = (Inr res, c') \<Longrightarrow> rok res"
  shows "\<exists>i g1 mult g2 tgt res.
    rng_IntN (int (length (bc_testTrees b))) (bc_rng b) = Inr (i, g1) \<and> rng_Int64 g1 = (mult, g2) \<and>
    populateWithRand (bc_testTrees b ! nat i) g2 = (tgt, bc_rng b') \<and>
    bc_chosenTestTree b' = nat i \<and> bc_testTrees b' = (bc_testTrees b)[nat i := tgt] \<and>
    cl_MultTreeValues cl (bc_c b) mult (fillRequestTree aops b') = (Inr res, bc_c b') \<and>
    fillRequestTree aops b' = copyTree aops tgt \<and> rview res = vmult mult (tn_view tgt)"
proof -
  obtain i g1 where i: "rng_IntN (int (length (bc_testTrees b))) (bc_rng b) = Inr (i, g1)"
    using call by (auto simp: call_tree_def split: sum.splits prod.splits)
  then have len: "nat i < length (bc_testTrees b)"
    using rng_IntN_range by fastforce
  obtain mult g2 where g2: "rng_Int64 g1 = (mult, g2)" by fastforce
  obtain tgt g3 where g3: "populateWithRand (bc_testTrees b ! nat i) g2 = (tgt, g3)" by fastforce
  let ?b1 = "b\<lparr>bc_chosenTestTree := nat i, bc_rng := g3,
               bc_testTrees := (bc_testTrees b)[nat i := tgt]\<rparr>"
  obtain r c where r: "cl_MultTreeValues cl (bc_c b) mult (fillRequestTree aops ?b1) = (r, c)"
    by fastforce
  obtain res where res: "r = Inr res" "treeMatchesForMult rops res tgt mult = Inr True"
      "b' = ?b1\<lparr>bc_c := c\<rparr>"
    using call i g2 g3 r
    by (auto simp: call_tree_def Let_def bind_result_Inr_conv split: sum.splits if_splits)
  have fill: "fillRequestTree aops b' = fillRequestTree aops ?b1" "fillRequestTree aops b' = copyTree aops tgt"
    using len res(3) by (auto simp: fillRequestTree_def fun_eq_iff)
  with ok r res(1) have "rok res" by simp
  with res(2) have "rview res = vmult mult (tn_view tgt)"
    using tree_reader.matches_view [OF results, of res tgt mult] by simp
  with i g2 g3 r res fill have
    "rng_IntN (int (length (bc_testTrees b))) (bc_rng b) = Inr (i, g1) \<and> rng_Int64 g1 = (mult, g2) \<and>
     populateWithRand (bc_testTrees b ! nat i) g2 = (tgt, bc_rng b') \<and>
     bc_chosenTestTree b' = nat i \<and> bc_testTrees b' = (bc_testTrees b)[nat i := tgt] \<and>
     cl_MultTreeValues cl (bc_c b) mult (fillRequestTree aops b') = (Inr res, bc_c b') \<and>
     fillRequestTree aops b' = copyTree aops tgt \<and> rview res = vmult mult (tn_view tgt)"
    by simp
  then show ?thesis by blast
qed

lemma call_tree_sound_witness:
  "\<exists>mult res. cl_MultTreeValues ideal_ops () mult (copyTree tn_ops (hd (bc_testTrees
      (snd (call_tree ideal_ops tn_ops tn_ops small_client))))) = (Inr res, ()) \<and>
    tn_view res = vmult mult (tn_view (hd (bc_testTrees (snd (call_tree ideal_ops tn_ops tn_ops small_client)))))"
proof -
  let ?r = "call_tree ideal_ops tn_ops tn_ops small_client"
  have "fst ?r = Inr 0" by code_simp
  then have r: "?r = (Inr 0, snd ?r)" by (metis prod.collapse)
  have wf: "tn_wf res" if "cl_MultTreeValues ideal_ops (bc_c small_client) m (fillRequestTree tn_ops (snd ?r)) = (Inr res, c)"
    for m res c
  proof -
    let ?b1 = "snd ?r"
    obtain t where "fillRequestTree tn_ops ?b1 tn_zero = Inr t" "tn_wf t"
      using tn.copyTree_view [of tn_zero "bc_testTrees ?b1 ! bc_chosenTestTree ?b1"]
      by (auto simp: fillRequestTree_def tn_zero_def)
    with that show ?thesis by (auto simp: ideal_ops_def tn_wf_Mult)
  qed
  obtain i g1 mult g2 tgt res where c: "rng_IntN (int (length (bc_testTrees small_client))) (bc_rng small_client) = Inr (i, g1)"
      "bc_testTrees (snd ?r) = (bc_testTrees small_client)[nat i := tgt]"
      "cl_MultTreeValues ideal_ops (bc_c small_client) mult (fillRequestTree tn_ops (snd ?r)) = (Inr res, bc_c (snd ?r))"
      "fillRequestTree tn_ops (snd ?r) = copyTree tn_ops tgt" "tn_view res = vmult mult (tn_view tgt)"
    using call_tree_sound [OF r tn.tree_reader_axioms] wf by blast
  have "nat i = 0" using rng_IntN_range [OF c(1)] by (simp add: small_client_def)
  then have "hd (bc_testTrees (snd ?r)) = tgt" using c(2) by (simp add: small_client_def)
  with c(3-5) show ?thesis by (intro exI [of _ mult] exI [of _ res]) (simp add: small_client_def)
qed

text \<open>A parallel run in which one worker's call fails never returns: the worker's \<open>b.Fatal\<close>
  ends its goroutine before it sends its totals, and the run waits for them.\<close>

lemma parallel_run_blocks:
  assumes "(k, b) \<in> set ws" "parallel_worker call k b = None"
  shows "parallel_run call ws = None"
proof -
  have "length (List.map_filter (\<lambda>(k, b). parallel_worker call k b) ws) < length ws"
    using assms by (intro length_map_filter_less [of "(k, b)"]) auto
  then show ?thesis
    by (simp add: parallel_run_def collect_totals_starved)
qed

lemma parallel_run_blocks_witness:
  "parallel_run (makeCall ideal_ops tn_ops tn_ops (ClientCallOther 7))
     [(1, small_client), (0, small_client)] = None"
  by (rule parallel_run_blocks [of 1 small_client]) (simp_all add: parallel_worker_def)

text \<open>The number of bytes reported for a \<open>ToHex\<close> call is the capacity of the harness's two
  buffers, whatever the size of the data that was sent.\<close>

lemma call_hex_bytes:
  assumes "call_hex cl b = (Inr n, b')"
    and "length (bc_hexOutBuf b) = 2 * length (bc_hexInBuf b)"
    and "\<And>c p q. length (fst (snd (cl_ToHex cl c p q))) = length q"
  shows "n = 3 * int (length (bc_hexInBuf b))"
proof -
  obtain s g where s: "rng_IntN (int (length (bc_hexInBuf b))) (bc_rng b) = Inr (s, g)"
    using assms(1) by (auto simp: call_hex_def split: sum.splits prod.splits)
  then have sz: "nat s < length (bc_hexInBuf b)"
    using rng_IntN_range by fastforce
  obtain inp tape where inp: "reader_read (nat s) (bc_reader b) = (inp, tape)" by fastforce
  then have len: "length inp = nat s" by (metis fst_conv length_fst_reader_read)
  let ?q = "take (nat s * 2) (bc_hexOutBuf b)"
  obtain err outp c where th: "cl_ToHex cl (bc_c b) inp ?q = (err, outp, c)"
    by (cases "cl_ToHex cl (bc_c b) inp ?q")
  have lo: "length outp = nat s * 2"
    using assms(3) [of "bc_c b" inp ?q] th sz assms(2) by simp
  have "n = int (length (store_prefix inp (bc_hexInBuf b))) +
      int (length (store_prefix outp (bc_hexOutBuf b)))"
    using assms(1) s inp th
    by (auto simp: call_hex_def Let_def split: option.splits if_splits prod.splits)
  then show ?thesis using len lo sz assms(2) by simp
qed

lemma call_hex_bytes_witness:
  "fst (call_hex ideal_ops small_client) = Inr 6 \<and> (6 :: int) = 3 * int (length (bc_hexInBuf small_client))"
proof
  show ok: "fst (call_hex ideal_ops small_client) = Inr 6" by code_simp
  then have r: "call_hex ideal_ops small_client = (Inr 6, snd (call_hex ideal_ops small_client))"
    by (metis prod.collapse)
  have "length (bc_hexOutBuf small_client) = 2 * length (bc_hexInBuf small_client)"
    by (simp add: small_client_def)
  from call_hex_bytes [OF r this ideal_slice]
  show "(6 :: int) = 3 * int (length (bc_hexInBuf small_client))" .
qed

text \<open>C40: The six trees of a client are always built, are well formed and have at most 87381
  nodes; the first four have the shapes the code says, for every generator.\<close>

theorem test_trees_shapes:
  "\<exists>trees g'. test_trees g = Inr (trees, g') \<and> length trees = 6 \<and>
     (\<forall>t \<in> set trees. tn_wf t \<and> vnodes (tn_view t) \<le> 87381) \<and>
     map tn_view (take 4 trees) =
       [VT 0 [], vnarrow 64, VT 0 (replicate 64 (VT 0 [])), vdense 5 6]"
proof -
  obtain t1 t2 t3 t4 t5 g' where t: "test_trees g = Inr ([tn_zero, t1, t2, t3, t4, t5], g')"
    "\<forall>t \<in> {tn_zero, t1, t2, t3, t4, t5}. tn_wf t"
    "tn_view tn_zero = VT 0 []" "tn_view t1 = vnarrow 64"
    "tn_view t2 = VT 0 (replicate 64 (VT 0 []))" "tn_view t3 = vdense 5 6"
    "vfits 8 5 (tn_view t4)" "vfits 8 5 (tn_view t5)"
    by (rule test_trees_ok)
  have "vnodes (tn_view t4) \<le> 87381" "vnodes (tn_view t5) \<le> 87381"
    using vfits_nodes [OF t(7)] vfits_nodes [OF t(8)] test_trees_nodes(5) by simp_all
  with t test_trees_nodes(1-4) show ?thesis
    by (intro exI [of _ "[tn_zero, t1, t2, t3, t4, t5]"] exI [of _ g']) (simp del: vdense.simps vnarrow.simps vnodes.simps)
qed

lemma test_trees_shapes_witness:
  "\<exists>trees g'. test_trees [5, 6, 7] = Inr (trees, g') \<and> length trees = 6 \<and>
     tn_view (trees ! 2) = VT 0 (replicate 64 (VT 0 []))"
proof -
  obtain trees g' where t: "test_trees [5, 6, 7] = Inr (trees, g')" "length trees = 6"
    "map tn_view (take 4 trees) =
       [VT 0 [], vnarrow 64, VT 0 (replicate 64 (VT 0 [])), vdense 5 6]"
    using test_trees_shapes [of "[5, 6, 7]"] by (elim exE conjE) (rule that)
  have "tn_view (trees ! 2) = map tn_view (take 4 trees) ! 2" using t(2) by simp
  also have "\<dots> = VT 0 (replicate 64 (VT 0 []))"
    by (simp only: t(3)) simp
  finally show ?thesis using t(1,2) by blast
qed

text \<open>The clean-up of a run reports every error of the server's \<open>Run\<close>, a cancelled context
  included: the error it checks for \<open>context.Canceled\<close> is not the one \<open>Run\<close> returned.\<close>

lemma server_cleanup_reports_cancel:
  "fac_NewServer fac l = Inr s \<Longrightarrow>
   \<exists>cleanup. newServerHarness (Inr (l, addr)) fac = Inr (\<lparr>sh_s = s, sh_addr = addr\<rparr>, cleanup) \<and>
     (\<forall>e. cleanup (RunReturned (Some e)) = [ReportRunError e]) \<and>
     cleanup (RunReturned None) = [] \<and> cleanup RunTimedOut = [ReportTimeout]"
  by (simp add: newServerHarness_def server_cleanup_def)

end
