(* ===== verification/Benches.thy ===== *)
theory Benches
  imports Harness
begin

text \<open>
  \<open>benches.go\<close> and the cases of \<open>rpcbench/bench_runner.go\<close>: the systems under test, the
  matrix of benchmarks over them, the name of a case and the choice of its run.
\<close>

section \<open>Systems and cases\<close>

text \<open>The value of a \<open>FactoryIniter\<close>, by the factory it returns.\<close>

datatype factory =
    TcpFactory
  | Http1Factory
  | WsFactory bool
  | GrpcFactory
  | GoCapnpFactory
  | MdCapnpFactory
  | MdCapnpLevel0Factory

record RPCSystem =
  sys_Name :: string
  sys_Initer :: factory
  sys_Notes :: string

text \<open>The pointer \<open>Sys\<close> of a case is the position in \<open>allSystems\<close>.\<close>

record BenchCase =
  case_Sys :: nat
  case_Call :: ClientCall
  case_Parallel :: bool

definition allSystems :: "RPCSystem list" where
  "allSystems =
     [\<lparr>sys_Name = ''tcp'', sys_Initer = TcpFactory,
       sys_Notes = ''Raw TCP-based RPC implementation''\<rparr>,
      \<lparr>sys_Name = ''http1'', sys_Initer = Http1Factory,
       sys_Notes = ''HTTP-based RPC implementation''\<rparr>,
      \<lparr>sys_Name = ''ws'', sys_Initer = WsFactory False,
       sys_Notes = ''Websockets-based RPC implementation''\<rparr>,
      \<lparr>sys_Name = ''wsjson'', sys_Initer = WsFactory True,
       sys_Notes = ''Websockets-based RPC implementation (JSON)''\<rparr>,
      \<lparr>sys_Name = ''grpc'', sys_Initer = GrpcFactory,
       sys_Notes = ''gRPC based implementation''\<rparr>,
      \<lparr>sys_Name = ''gocapnp'', sys_Initer = GoCapnpFactory,
       sys_Notes = ''go-CapNProto based implementation''\<rparr>,
      \<lparr>sys_Name = ''mdcapnp'', sys_Initer = MdCapnpFactory,
       sys_Notes = ''MdCapNProto based implementation''\<rparr>,
      \<lparr>sys_Name = ''mdcapl0'', sys_Initer = MdCapnpLevel0Factory,
       sys_Notes = ''Level 0 MdCapNProto based implementation''\<rparr>]"

definition fullTestMatrix :: "BenchCase list" where
  "fullTestMatrix =
     concat (map (\<lambda>parallel.
       concat (map (\<lambda>call.
         map (\<lambda>si. \<lparr>case_Sys = si, case_Call = call, case_Parallel = parallel\<rparr>)
           [0..<length allSystems])
         ClientCallMatrix))
       [False, True])"

text \<open>
  \<open>%s\<close> on a value with a \<open>String\<close> method prints its result, and what it panicked with when
  it panics.
\<close>

definition fmt_call :: "ClientCall \<Rightarrow> string" where
  "fmt_call c =
     (case ClientCall_String c of
        Inr s \<Rightarrow> s
      | Inl (Panic m) \<Rightarrow> ''%!s(PANIC=String method: '' @ m @ '')''
      | Inl _ \<Rightarrow> '''')"

definition BenchCase_Name :: "BenchCase \<Rightarrow> string" where
  "BenchCase_Name bc =
     (if \<not> case_Parallel bc
      then ''sequential/'' @ fmt_call (case_Call bc) @ ''/'' @ sys_Name (allSystems ! case_Sys bc)
      else ''parallel/'' @ fmt_call (case_Call bc) @ ''/'' @ sys_Name (allSystems ! case_Sys bc))"

text \<open>
  \<open>RunCase\<close>, where the loops of the run make \<open>ks\<close> calls: \<open>None\<close> when the run never returns.
\<close>

definition RunCase ::
  "('c, 'a, 't) client_ops \<Rightarrow> 'a tree_ops \<Rightarrow> 't tree_ops \<Rightarrow> ('l \<times> string) result \<Rightarrow>
     ('l, 's, 'c) rpc_factory \<Rightarrow> (nat \<Rightarrow> rng) \<Rightarrow> (int64 \<Rightarrow> byte list) \<Rightarrow> BenchCase \<Rightarrow> nat list \<Rightarrow>
     int64 result option"
where
  "RunCase cl aops rops listen fac pcg chacha bc ks =
     (let call = makeCall cl aops rops (case_Call bc)
      in if \<not> case_Parallel bc then Some (runSequentialBench listen fac pcg chacha call (hd ks))
         else runParallelBench listen fac pcg chacha call ks)"

section \<open>The matrix\<close>

lemma set_fullTestMatrix:
  "set fullTestMatrix =
     {bc. case_Sys bc < length allSystems \<and> case_Call bc \<in> set ClientCallMatrix}"
proof (rule set_eqI)
  fix bc
  show "bc \<in> set fullTestMatrix \<longleftrightarrow>
      bc \<in> {bc. case_Sys bc < length allSystems \<and> case_Call bc \<in> set ClientCallMatrix}"
    by (cases bc) (auto simp: fullTestMatrix_def image_iff)
qed

section \<open>A case over a system that meets the contract\<close>

text \<open>A case whose call succeeds in every state the contract \<open>I\<close> allows for the client.\<close>

lemma RunCase_total:
  fixes I :: "'c \<Rightarrow> bool"
  assumes step: "\<And>b. bench_ok I max_tree max_levels max_hex b \<Longrightarrow>
      \<exists>x b'. makeCall cl aops rops (case_Call bc) b = (Inr x, b') \<and> bench_ok I max_tree max_levels max_hex b'"
    and listen: "listen = Inr (l, addr)" "\<exists>s. fac_NewServer fac l = Inr s"
    and new: "\<And>i. i < n \<Longrightarrow> \<exists>c. fac_NewClient fac addr i = Inr c \<and> I c"
    and limits: "87381 \<le> max_tree" "64 \<le> max_levels" "MaxHexEncodeSize \<le> Suc max_hex"
    and ks: "length ks = n" "0 < n" "0 < hd ks" "sum_list ks < 2 ^ 63"
  shows "\<exists>per_op. RunCase cl aops rops listen fac pcg chacha bc ks = Some (Inr per_op)"
proof -
  let ?ok = "bench_ok I max_tree max_levels max_hex" and ?call = "makeCall cl aops rops (case_Call bc)"
  have clients: "\<exists>bs. newClientHarness pcg chacha (fac_NewClient fac addr) m = Inr bs \<and> length bs = m \<and>
      (\<forall>b \<in> set bs. ?ok b)" if "m \<le> n" for m
    using new_clients_ok [where new_client = "fac_NewClient fac addr" and n = m, OF new limits] that
    by simp
  obtain sh cleanup where sh: "newServerHarness listen fac = Inr (sh, cleanup)" "sh_addr sh = addr"
    using listen by (auto simp: newServerHarness_def)
  obtain k ks' where k: "ks = k # ks'" using ks(1,2) by (cases ks) auto
  show ?thesis
  proof (cases "case_Parallel bc")
    case False
    obtain b where b: "newClientHarness pcg chacha (fac_NewClient fac addr) 1 = Inr [b]" "?ok b"
      using clients [of 1] ks(2) by (auto simp: length_Suc_conv)
    obtain per_op where "sequential_run (makeCall cl aops rops (case_Call bc)) k b = Inr per_op"
      using sequential_run_total [where ok = ?ok and k = k and call = ?call, OF step b(2)] ks k by auto
    with b(1) sh False k show ?thesis by (simp add: RunCase_def runSequentialBench_def)
  next
    case True
    obtain bs where bs: "newClientHarness pcg chacha (fac_NewClient fac addr) (length ks) = Inr bs"
        "length bs = n" "\<forall>b \<in> set bs. ?ok b"
      using clients [of n] ks(1) by auto
    have "map fst (zip ks bs) = ks" using ks(1) bs(2) by simp
    moreover have "\<forall>(k, b) \<in> set (zip ks bs). ?ok b"
      using bs(3) by (auto dest: set_zip_rightD)
    ultimately obtain per_op where
      "parallel_run (makeCall cl aops rops (case_Call bc)) (zip ks bs) = Some (Inr per_op)"
      using parallel_run_total [where ok = ?ok and ws = "zip ks bs" and call = ?call, OF step] ks k by auto
    with bs(1) sh True show ?thesis by (simp add: RunCase_def runParallelBench_def Let_def)
  qed
qed

context rpc_system
begin

lemma RunCase_ok:
  assumes "listen = Inr (l, addr)" "\<exists>s. fac_NewServer fac l = Inr s"
    and "\<And>i. i < n \<Longrightarrow> \<exists>c. fac_NewClient fac addr i = Inr c \<and> inv c"
    and "87381 \<le> max_tree" "64 \<le> max_levels" "MaxHexEncodeSize \<le> Suc max_hex"
    and "bc \<in> set fullTestMatrix"
    and "length ks = n" "0 < n" "0 < hd ks" "sum_list ks < 2 ^ 63"
  shows "\<exists>per_op. RunCase cl aops rops listen fac pcg chacha bc ks = Some (Inr per_op)"
  using assms(7) by (intro RunCase_total [OF makeCall_ok assms(1-6,8-)]) (simp_all add: set_fullTestMatrix)

end

text \<open>The cases that call no trees need nothing of the system's trees.\<close>

context rpc_calls
begin

lemma RunCase_no_tree_ok:
  assumes "listen = Inr (l, addr)" "\<exists>s. fac_NewServer fac l = Inr s"
    and "\<And>i. i < n \<Longrightarrow> \<exists>c. fac_NewClient fac addr i = Inr c \<and> inv c"
    and "MaxHexEncodeSize \<le> Suc max_hex"
    and "bc \<in> set fullTestMatrix" "case_Call bc \<noteq> ClientCallTreeMult"
    and "length ks = n" "0 < n" "0 < hd ks" "sum_list ks < 2 ^ 63"
  shows "\<exists>per_op. RunCase cl aops rops listen fac pcg chacha bc ks = Some (Inr per_op)"
  using assms(5,6)
  by (intro RunCase_total [where max_tree = 87381 and max_levels = 64, OF makeCall_no_tree_ok assms(1-3) _ _ assms(4,7-)])
    (simp_all add: set_fullTestMatrix)

end

section \<open>Set-up errors\<close>

lemma new_bench_client_total: "\<exists>b. new_bench_client pcg chacha i c = Inr b"
proof -
  obtain s g where g: "rng_draw (pcg i) = (s, g)" by fastforce
  obtain ts g' where "test_trees g = Inr (ts, g')" by (rule test_trees_ok)
  with g show ?thesis by (simp add: new_bench_client_def)
qed

lemma newClientHarness_error:
  assumes "j < n" "\<And>i. i < j \<Longrightarrow> \<exists>c. new_client i = Inr c" "new_client j = Inl e"
  shows "newClientHarness pcg chacha new_client n = Inl e"
proof -
  let ?f = "\<lambda>i clients. bind_result (bind_result (new_client i) (new_bench_client pcg chacha i))
    (\<lambda>bcli. Inr (clients @ [bcli]))"
  have "fold_result ?f [k..<n] cs = Inl e" if "k \<le> j" for k cs
    using that
  proof (induction "j - k" arbitrary: k cs)
    case 0
    then have "[k..<n] = j # [Suc j..<n]" using assms(1) by (simp add: upt_conv_Cons)
    then show ?case using assms(3) by simp
  next
    case (Suc d)
    then have k: "k < j" "[k..<n] = k # [Suc k..<n]" using assms(1) by (simp_all add: upt_conv_Cons)
    obtain c where c: "new_client k = Inr c" using assms(2) [OF k(1)] by blast
    moreover obtain b where "new_bench_client pcg chacha k c = Inr b"
      using new_bench_client_total [of pcg chacha k c] by blast
    ultimately have "?f k cs = Inr (cs @ [b])" by simp
    with Suc k show ?case by simp
  qed
  from this [of 0] show ?thesis by (simp add: newClientHarness_def)
qed

section \<open>Properties\<close>

text \<open>C19: A case whose set-up fails returns the first error and makes no call: the error of
  \<open>net.Listen\<close>, of \<open>NewServer\<close>, or of the first \<open>NewClient\<close> that fails.\<close>

theorem RunCase_setup_error:
  "RunCase cl aops rops (Inl e) fac pcg chacha bc ks = Some (Inl e) \<and>
    (fac_NewServer fac l = Inl e \<longrightarrow>
      RunCase cl aops rops (Inr (l, addr)) fac pcg chacha bc ks = Some (Inl e)) \<and>
    (\<forall>s j. fac_NewServer fac l = Inr s \<and> j < (if case_Parallel bc then length ks else 1) \<and>
        (\<forall>i < j. \<exists>c. fac_NewClient fac addr i = Inr c) \<and> fac_NewClient fac addr j = Inl e \<longrightarrow>
      RunCase cl aops rops (Inr (l, addr)) fac pcg chacha bc ks = Some (Inl e))"
proof (intro conjI allI impI)
  show "RunCase cl aops rops (Inl e) fac pcg chacha bc ks = Some (Inl e)"
    by (simp add: RunCase_def runSequentialBench_def runParallelBench_def newServerHarness_def Let_def)
  show "RunCase cl aops rops (Inr (l, addr)) fac pcg chacha bc ks = Some (Inl e)"
    if "fac_NewServer fac l = Inl e"
    using that by (simp add: RunCase_def runSequentialBench_def runParallelBench_def newServerHarness_def Let_def)
  fix s j
  assume *: "fac_NewServer fac l = Inr s \<and> j < (if case_Parallel bc then length ks else 1) \<and>
      (\<forall>i < j. \<exists>c. fac_NewClient fac addr i = Inr c) \<and> fac_NewClient fac addr j = Inl e"
  then have "newClientHarness pcg chacha (fac_NewClient fac addr)
      (if case_Parallel bc then length ks else 1) = Inl e"
    by (intro newClientHarness_error [of j]) auto
  with * show "RunCase cl aops rops (Inr (l, addr)) fac pcg chacha bc ks = Some (Inl e)"
    by (cases "case_Parallel bc")
      (simp_all add: RunCase_def runSequentialBench_def runParallelBench_def newServerHarness_def Let_def)
qed

lemma RunCase_setup_error_witness:
  "RunCase ideal_ops tn_ops tn_ops (Inr ((), ''127.0.0.1:80''))
     \<lparr>fac_NewServer = (\<lambda>l. Inr l), fac_NewClient = (\<lambda>a i. if i < 2 then Inr () else Inl (NetError i))\<rparr>
     (\<lambda>i. []) (\<lambda>s. []) \<lparr>case_Sys = 0, case_Call = ClientCallNop, case_Parallel = True\<rparr> [4, 5, 6, 7] =
   Some (Inl (NetError 2))"
proof -
  let ?fac = "\<lparr>fac_NewServer = \<lambda>l. Inr l, fac_NewClient = \<lambda>a i. if i < 2 then Inr () else Inl (NetError i)\<rparr>"
  let ?bc = "\<lparr>case_Sys = 0, case_Call = ClientCallNop, case_Parallel = True\<rparr>"
  have "fac_NewServer ?fac () = Inr () \<and> 2 < (if case_Parallel ?bc then length [4 :: nat, 5, 6, 7] else 1) \<and>
      (\<forall>i < 2. \<exists>c. fac_NewClient ?fac ''127.0.0.1:80'' i = Inr c) \<and>
      fac_NewClient ?fac ''127.0.0.1:80'' 2 = Inl (NetError 2)"
    by simp
  then show ?thesis by (rule RunCase_setup_error [THEN conjunct2, THEN conjunct2, rule_format])
qed

text \<open>The matrix has each of the 64 combinations of a system, a call and a mode exactly once,
  and no two of its cases have the same name.\<close>

lemma fullTestMatrix_complete:
  "length fullTestMatrix = 64 \<and> distinct (map BenchCase_Name fullTestMatrix) \<and>
   set fullTestMatrix = {bc. case_Sys bc < 8 \<and> case_Call bc \<in> set ClientCallMatrix}"
proof (intro conjI)
  show "length fullTestMatrix = 64" by code_simp
  show "distinct (map BenchCase_Name fullTestMatrix)" by code_simp
  show "set fullTestMatrix = {bc. case_Sys bc < 8 \<and> case_Call bc \<in> set ClientCallMatrix}"
    unfolding set_fullTestMatrix by (simp add: allSystems_def eval_nat_numeral)
qed

end
