(* ===== verification/Tcp.thy ===== *)
theory Tcp
  imports Benches
begin

text \<open>
  \<open>internal/rpc/tcp\<close>: the hand-written protocol over a raw connection. A request is a
  command byte and its binary arguments, a reply has no header. This theory has the
  commands of \<open>custom_protocol.go\<close>, the connection loop of \<open>tcp_server.go\<close> and the client
  of \<open>tcp_client.go\<close>; accepting connections is in \<open>ServerLoop\<close>.
\<close>

section \<open>Commands\<close>

definition cmdNop :: byte where "cmdNop = 1"
definition cmdAdd :: byte where "cmdAdd = 2"
definition cmdMultTree :: byte where "cmdMultTree = 3"
definition cmdToHex :: byte where "cmdToHex = 4"

lemmas cmd_defs = cmdNop_def cmdAdd_def cmdMultTree_def cmdToHex_def

section \<open>The server's connection loop\<close>

text \<open>The loop of \<open>ToHex\<close> writes through \<open>hex.NewEncoder(writer)\<close>.\<close>

definition tcp_hex_loop ::
  "int64 \<Rightarrow> breader \<Rightarrow> bwriter \<Rightarrow> (go_error option \<times> breader \<times> bwriter) option" where
  "tcp_hex_loop = hex_loop (hex_encoder_write bw_write)"

text \<open>
  The \<open>switch\<close> on the command: \<open>Inl e\<close> where the handler returns \<open>e\<close> at once, \<open>Inr err\<close>
  where control reaches the flush with \<open>err\<close> in the variable. A command that has no case
  leaves \<open>err\<close> nil.
\<close>

definition tcp_switch ::
  "byte \<Rightarrow> breader \<Rightarrow> bwriter \<Rightarrow> (go_error option result \<times> breader \<times> bwriter) option"
where
  "tcp_switch cmd r w =
     (if cmd = cmdNop then
        (case bw_write w [cmdNop] of (err, w') \<Rightarrow> Some (Inr err, r, w'))
      else if cmd = cmdAdd then
        (case ReadInt64 br_read r of
           (Inl e, r1) \<Rightarrow> Some (Inl e, r1, w)
         | (Inr a, r1) \<Rightarrow>
             (case ReadInt64 br_read r1 of
                (Inl e, r2) \<Rightarrow> Some (Inl e, r2, w)
              | (Inr b, r2) \<Rightarrow>
                  (case WriteInt64 bw_write w (a + b) of
                     (Some e, w') \<Rightarrow> Some (Inl e, r2, w')
                   | (None, w') \<Rightarrow> Some (Inr None, r2, w'))))
      else if cmd = cmdMultTree then
        (case DoMultTreeRequest br_read bw_write r w of
           (Some e, r', w') \<Rightarrow> Some (Inl e, r', w')
         | (None, r', w') \<Rightarrow> Some (Inr None, r', w'))
      else if cmd = cmdToHex then
        (case ReadInt64 br_read r of
           (Inl e, r') \<Rightarrow> Some (Inl e, r', w)
         | (Inr sz, r') \<Rightarrow>
             map_option (\<lambda>(err, r'', w').
                 (case err of Some e \<Rightarrow> Inl e | None \<Rightarrow> Inr None, r'', w'))
               (tcp_hex_loop sz r' w))
      else Some (Inr None, r, w))"

text \<open>
  \<open>runConn\<close> until it returns: \<open>ctx i\<close> is the value of \<open>ctx.Err()\<close> at the start of round
  \<open>i\<close>. The result is the error it returns, with the reader and the writer it leaves; a
  result \<open>Some Blocked\<close> is a goroutine parked in a read of the open connection.
\<close>

partial_function (option) tcp_runConn ::
  "(nat \<Rightarrow> go_error option) \<Rightarrow> nat \<Rightarrow> breader \<Rightarrow> bwriter \<Rightarrow>
     (go_error option \<times> breader \<times> bwriter) option"
where
  "tcp_runConn ctx i r w =
     (case ctx i of
        Some e \<Rightarrow> Some (Some e, r, w)
      | None \<Rightarrow>
          (case br_read_byte r of
             (Inl e, r') \<Rightarrow> Some (if errors_is e EOF then None else Some e, r', w)
           | (Inr cmd, r') \<Rightarrow>
               Option.bind (tcp_switch cmd r' w) (\<lambda>(res, r2, w2).
                 case res of
                   Inl e \<Rightarrow> Some (Some e, r2, w2)
                 | Inr err \<Rightarrow>
                     (case bw_flush w2 of
                        (Some e, w3) \<Rightarrow> Some (Some e, r2, w3)
                      | (None, w3) \<Rightarrow>
                          (case err of
                             Some e \<Rightarrow> Some (Some e, r2, w3)
                           | None \<Rightarrow> tcp_runConn ctx (Suc i) r2 w3)))))"

text \<open>
  One round of the loop after the check of the context: \<open>Some err\<close> where \<open>runConn\<close> returns
  \<open>err\<close>, \<open>None\<close> where the next round starts.
\<close>

definition tcp_round ::
  "breader \<Rightarrow> bwriter \<Rightarrow> (go_error option option \<times> breader \<times> bwriter) option"
where
  "tcp_round r w =
     (case br_read_byte r of
        (Inl e, r') \<Rightarrow> Some (Some (if errors_is e EOF then None else Some e), r', w)
      | (Inr cmd, r') \<Rightarrow>
          map_option (\<lambda>(res, r2, w2).
            case res of
              Inl e \<Rightarrow> (Some (Some e), r2, w2)
            | Inr err \<Rightarrow>
                (case bw_flush w2 of
                   (Some e, w3) \<Rightarrow> (Some (Some e), r2, w3)
                 | (None, w3) \<Rightarrow> (map_option Some err, r2, w3)))
            (tcp_switch cmd r' w))"

lemma tcp_runConn_round:
  "tcp_runConn ctx i r w =
     (case ctx i of
        Some e \<Rightarrow> Some (Some e, r, w)
      | None \<Rightarrow>
          Option.bind (tcp_round r w) (\<lambda>(res, r', w').
            case res of Some err \<Rightarrow> Some (err, r', w') | None \<Rightarrow> tcp_runConn ctx (Suc i) r' w'))"
  by (subst tcp_runConn.simps)
    (auto simp: tcp_round_def bind_map_option o_def intro!: Option.bind_cong
      split: option.splits prod.splits sum.splits)

text \<open>The buffers \<open>runConn\<close> creates for a connection.\<close>

definition tcp_server_reader :: "source \<Rightarrow> breader" where
  "tcp_server_reader s = \<lparr>br_buf = [], br_size = MaxHexEncodeSize, br_src = s\<rparr>"

definition tcp_server_writer :: "sink \<Rightarrow> bwriter" where
  "tcp_server_writer d =
     \<lparr>bw_buf = [], bw_size = MaxHexEncodeSize * 2, bw_err = None, bw_dst = d\<rparr>"

section \<open>The client\<close>

record tcpClient =
  tc_reader :: breader
  tc_writer :: bwriter
  tc_tree :: TreeNodeImpl

definition newTCPClient :: "source \<Rightarrow> sink \<Rightarrow> tcpClient" where
  "newTCPClient s d =
     \<lparr>tc_reader = \<lparr>br_buf = [], br_size = MaxHexEncodeSize * 2, br_src = s\<rparr>,
      tc_writer = \<lparr>bw_buf = [], bw_size = MaxHexEncodeSize * 2, bw_err = None, bw_dst = d\<rparr>,
      tc_tree = tn_zero\<rparr>"

text \<open>
  Between a flush and the next read the bytes handed to the connection travel to the other
  end and its answer arrives. \<open>peer\<close> is that other end: from its state and the bytes sent,
  the chunks that arrive and its new state.
\<close>

type_synonym 'n peer = "'n \<Rightarrow> byte list \<Rightarrow> byte list list \<times> 'n"

definition tcp_exchange :: "'n peer \<Rightarrow> tcpClient \<times> 'n \<Rightarrow> tcpClient \<times> 'n" where
  "tcp_exchange peer st =
     (case st of (c, n) \<Rightarrow>
        let d = bw_dst (tc_writer c);
            s = br_src (tc_reader c);
            (arrived, n') = peer n (sk_out d)
        in (c\<lparr>tc_writer := (tc_writer c)\<lparr>bw_dst := d\<lparr>sk_out := []\<rparr>\<rparr>,
              tc_reader := (tc_reader c)\<lparr>br_src := Source (src_chunks s @ arrived) (src_end s)\<rparr>\<rparr>,
            n'))"

definition tcp_Nop :: "'n peer \<Rightarrow> tcpClient \<times> 'n \<Rightarrow> go_error option \<times> tcpClient \<times> 'n" where
  "tcp_Nop peer st =
     (case st of (c, n) \<Rightarrow>
       (case bw_write_byte (tc_writer c) cmdNop of
          (Some e, w) \<Rightarrow> (Some e, c\<lparr>tc_writer := w\<rparr>, n)
        | (None, w) \<Rightarrow>
            (case bw_flush w of
               (Some e, w') \<Rightarrow> (Some e, c\<lparr>tc_writer := w'\<rparr>, n)
             | (None, w') \<Rightarrow>
                 (case tcp_exchange peer (c\<lparr>tc_writer := w'\<rparr>, n) of
                    (c', n') \<Rightarrow>
                      (case br_read_byte (tc_reader c') of
                         (Inl e, r) \<Rightarrow> (Some e, c'\<lparr>tc_reader := r\<rparr>, n')
                       | (Inr _, r) \<Rightarrow> (None, c'\<lparr>tc_reader := r\<rparr>, n'))))))"

definition tcp_Add ::
  "'n peer \<Rightarrow> tcpClient \<times> 'n \<Rightarrow> int64 \<Rightarrow> int64 \<Rightarrow> int64 result \<times> tcpClient \<times> 'n"
where
  "tcp_Add peer st a b =
     (case st of (c, n) \<Rightarrow>
       (case bw_write_byte (tc_writer c) cmdAdd of
          (Some e, w) \<Rightarrow> (Inl e, c\<lparr>tc_writer := w\<rparr>, n)
        | (None, w) \<Rightarrow>
       (case WriteInt64 bw_write w a of
          (Some e, w) \<Rightarrow> (Inl e, c\<lparr>tc_writer := w\<rparr>, n)
        | (None, w) \<Rightarrow>
       (case WriteInt64 bw_write w b of
          (Some e, w) \<Rightarrow> (Inl e, c\<lparr>tc_writer := w\<rparr>, n)
        | (None, w) \<Rightarrow>
       (case bw_flush w of
          (Some e, w) \<Rightarrow> (Inl e, c\<lparr>tc_writer := w\<rparr>, n)
        | (None, w) \<Rightarrow>
       (case tcp_exchange peer (c\<lparr>tc_writer := w\<rparr>, n) of
          (c', n') \<Rightarrow>
            (case ReadInt64 br_read (tc_reader c') of
               (res, r) \<Rightarrow> (res, c'\<lparr>tc_reader := r\<rparr>, n'))))))))"

definition tcp_MultTreeValues ::
  "'n peer \<Rightarrow> tcpClient \<times> 'n \<Rightarrow> int64 \<Rightarrow> (TreeNodeImpl \<Rightarrow> TreeNodeImpl result) \<Rightarrow>
     TreeNodeImpl result \<times> tcpClient \<times> 'n"
where
  "tcp_MultTreeValues peer st mult fillArgs =
     (case st of (c, n) \<Rightarrow>
       (case fillArgs (tn_Reset (tc_tree c)) of
          Inl e \<Rightarrow> (Inl e, c\<lparr>tc_tree := tn_Reset (tc_tree c)\<rparr>, n)
        | Inr tree \<Rightarrow>
       (let c = c\<lparr>tc_tree := tree\<rparr> in
       (case bw_write_byte (tc_writer c) cmdMultTree of
          (Some e, w) \<Rightarrow> (Inl e, c\<lparr>tc_writer := w\<rparr>, n)
        | (None, w) \<Rightarrow>
       (case WriteMultTreeRequest bw_write mult tree w of
          (Some e, w) \<Rightarrow> (Inl e, c\<lparr>tc_writer := w\<rparr>, n)
        | (None, w) \<Rightarrow>
       (case bw_flush w of
          (Some e, w) \<Rightarrow> (Inl e, c\<lparr>tc_writer := w\<rparr>, n)
        | (None, w) \<Rightarrow>
       (case tcp_exchange peer (c\<lparr>tc_writer := w\<rparr>, n) of
          (c', n') \<Rightarrow>
            (case ReadMultTreeReponse br_read tree (tc_reader c') of
               (Some e, tree', r) \<Rightarrow> (Inl e, c'\<lparr>tc_reader := r, tc_tree := tree'\<rparr>, n')
             | (None, tree', r) \<Rightarrow>
                 (Inr tree', c'\<lparr>tc_reader := r, tc_tree := tree'\<rparr>, n')))))))))"

text \<open>\<open>out\<close> is filled by \<open>io.ReadFull\<close>; a failed read leaves the model's \<open>out\<close> as it was.\<close>

definition tcp_ToHex ::
  "'n peer \<Rightarrow> tcpClient \<times> 'n \<Rightarrow> byte list \<Rightarrow> byte list \<Rightarrow>
     go_error option \<times> byte list \<times> tcpClient \<times> 'n"
where
  "tcp_ToHex peer st inp outp =
     (case st of (c, n) \<Rightarrow>
       (case bw_write_byte (tc_writer c) cmdToHex of
          (Some e, w) \<Rightarrow> (Some e, outp, c\<lparr>tc_writer := w\<rparr>, n)
        | (None, w) \<Rightarrow>
       (case WriteInt64 bw_write w (word_of_nat (length inp)) of
          (Some e, w) \<Rightarrow> (Some e, outp, c\<lparr>tc_writer := w\<rparr>, n)
        | (None, w) \<Rightarrow>
       (case bw_write w inp of
          (Some e, w) \<Rightarrow> (Some e, outp, c\<lparr>tc_writer := w\<rparr>, n)
        | (None, w) \<Rightarrow>
       (case bw_flush w of
          (Some e, w) \<Rightarrow> (Some e, outp, c\<lparr>tc_writer := w\<rparr>, n)
        | (None, w) \<Rightarrow>
       (case tcp_exchange peer (c\<lparr>tc_writer := w\<rparr>, n) of
          (c', n') \<Rightarrow>
            (case read_full br_read (length outp) [] (tc_reader c') of
               (Inl e, r) \<Rightarrow> (Some e, outp, c'\<lparr>tc_reader := r\<rparr>, n')
             | (Inr bs, r) \<Rightarrow> (None, bs, c'\<lparr>tc_reader := r\<rparr>, n'))))))))"

definition tcp_client_ops ::
  "'n peer \<Rightarrow> (tcpClient \<times> 'n, TreeNodeImpl, TreeNodeImpl) client_ops"
where
  "tcp_client_ops peer =
     \<lparr>cl_Nop = tcp_Nop peer,
      cl_Add = tcp_Add peer,
      cl_MultTreeValues = tcp_MultTreeValues peer,
      cl_ToHex = tcp_ToHex peer\<rparr>"

section \<open>The server's loop\<close>

lemma tcp_hex_loop_exact:
  assumes "br_content r = p" "length p < MaxHexEncodeSize" "bw_reliable w"
  shows "\<exists>r' w'. tcp_hex_loop (word_of_nat (length p)) r w = Some (None, r', w') \<and>
           br_content r' = [] \<and> br_end r' = br_end r \<and> bw_reliable w' \<and>
           bw_out w' = bw_out w @ hex_encode p"
  unfolding tcp_hex_loop_def
  using bw.hex_encoder_write_reliable assms by (rule hex_loop_exact)

lemma tcp_switch_call:
  assumes "bin_valid c" "bin_request c = cmd # args" "br_content r = args @ rest"
    and "is_hex c \<Longrightarrow> rest = []" "bw_reliable w"
  shows "\<exists>r' w'. tcp_switch cmd r w = Some (Inr None, r', w') \<and> br_content r' = rest \<and>
           br_end r' = br_end r \<and> bw_reliable w' \<and> bw_out w' = bw_out w @ bin_reply c"
proof (cases c)
  case CNop
  obtain w' where "bw_write w [cmdNop] = (None, w')" "bw_out w' = bw_out w @ [cmdNop]" "bw_reliable w'"
    using assms(5) by (rule bw.wr_reliable_eq)
  with CNop assms show ?thesis by (auto simp: tcp_switch_def cmdNop_def)
next
  case (CAdd a b)
  with assms have cont: "br_content r = put_uint64 a @ put_uint64 b @ rest" by auto
  obtain r1 where r1: "ReadInt64 br_read r = (Inr a, r1)" "br_content r1 = put_uint64 b @ rest"
      "br_end r1 = br_end r"
    using cont by (rule br.ReadInt64_value)
  obtain r2 where r2: "ReadInt64 br_read r1 = (Inr b, r2)" "br_content r2 = rest" "br_end r2 = br_end r1"
    using r1(2) by (rule br.ReadInt64_value)
  obtain w' where "WriteInt64 bw_write w (a + b) = (None, w')"
      "bw_out w' = bw_out w @ put_uint64 (a + b)" "bw_reliable w'"
    using assms(5) by (rule bw.WriteInt64_reliable)
  with CAdd assms r1 r2 show ?thesis by (auto simp: tcp_switch_def cmd_defs)
next
  case (CMult m t)
  with assms have cont: "br_content r = mult_tree_request m t @ rest" and n: "vnodes t < 2 ^ 63"
    by auto
  obtain r' w' where "DoMultTreeRequest br_read bw_write r w = (None, r', w')"
      "bw_out w' = bw_out w @ int64s (vvalues (vmult m t))" "bw_reliable w'"
      "br_content r' = rest" "br_end r' = br_end r"
    using assms(5) cont n by (rule br_bw.DoMultTreeRequest_ok)
  with CMult assms show ?thesis by (auto simp: tcp_switch_def cmd_defs)
next
  case (CHex p)
  with assms have cont: "br_content r = put_uint64 (word_of_nat (length p)) @ p"
    and len: "length p < MaxHexEncodeSize" and rest: "rest = []" by auto
  obtain r1 where r1: "ReadInt64 br_read r = (Inr (word_of_nat (length p)), r1)" "br_content r1 = p"
      "br_end r1 = br_end r"
    using cont by (rule br.ReadInt64_value)
  from tcp_hex_loop_exact [OF r1(2) len assms(5)] r1 CHex assms rest
  show ?thesis by (auto simp: tcp_switch_def cmd_defs)
qed

lemma bin_request_Cons: "\<exists>cmd args. bin_request c = cmd # args"
  by (cases c) auto

lemma tcp_round_call:
  assumes "bin_valid c" "br_content r = bin_request c @ rest"
    and "is_hex c \<Longrightarrow> rest = []" "bw_reliable w"
  obtains r' w' where "tcp_round r w = Some (None, r', w')"
    "br_content r' = rest" "br_end r' = br_end r" "bw_reliable w'"
    "bw_buf w' = []" "sk_out (bw_dst w') = bw_out w @ bin_reply c"
proof -
  obtain cmd args where req: "bin_request c = cmd # args"
    using bin_request_Cons by blast
  then have "br_content r = cmd # args @ rest" using assms(2) by simp
  then obtain r1 where r1: "br_read_byte r = (Inr cmd, r1)" "br_content r1 = args @ rest"
      "br_end r1 = br_end r"
    by (rule br_read_byte_content)
  obtain r2 w2 where r2: "tcp_switch cmd r1 w = Some (Inr None, r2, w2)" "br_content r2 = rest"
      "br_end r2 = br_end r1" "bw_reliable w2" "bw_out w2 = bw_out w @ bin_reply c"
    using tcp_switch_call [OF assms(1) req r1(2) assms(3,4)] by blast
  obtain w3 where w3: "bw_flush w2 = (None, w3)" "sk_out (bw_dst w3) = bw_out w2" "bw_buf w3 = []"
      "bw_reliable w3"
    using r2(4) by (rule bw_flush_reliable)
  have "tcp_round r w = Some (None, r2, w3)"
    using r1(1) r2(1) w3(1) by (simp add: tcp_round_def)
  with r1 r2 w3 show ?thesis by (intro that [of r2 w3]) simp_all
qed

lemma tcp_runConn_call:
  assumes "ctx i = None" "bin_valid c" "br_content r = bin_request c @ rest"
    and "is_hex c \<Longrightarrow> rest = []" "bw_reliable w"
  obtains r' w' where "tcp_runConn ctx i r w = tcp_runConn ctx (Suc i) r' w'"
    "br_content r' = rest" "br_end r' = br_end r" "bw_reliable w'"
    "bw_buf w' = []" "sk_out (bw_dst w') = bw_out w @ bin_reply c"
proof -
  obtain r' w' where rw: "tcp_round r w = Some (None, r', w')"
    "br_content r' = rest" "br_end r' = br_end r" "bw_reliable w'"
    "bw_buf w' = []" "sk_out (bw_dst w') = bw_out w @ bin_reply c"
    using assms(2-5) by (rule tcp_round_call)
  have "tcp_runConn ctx i r w = tcp_runConn ctx (Suc i) r' w'"
    using assms(1) rw(1) by (simp add: tcp_runConn_round [of ctx i])
  from this rw(2-) show ?thesis by (rule that)
qed

lemma tcp_round_end:
  assumes "br_content r = []"
  obtains r' where
    "tcp_round r w = Some (Some (if errors_is (br_end r) EOF then None else Some (br_end r)), r', w)"
    "br_content r' = []" "br_end r' = br_end r"
proof -
  obtain r' where "br_read_byte r = (Inl (br_end r), r')" "br_content r' = []" "br_end r' = br_end r"
    using assms by (rule br_read_byte_end)
  then show ?thesis by (intro that [of r']) (simp_all add: tcp_round_def)
qed

lemma tcp_runConn_end:
  assumes "ctx i = None" "br_content r = []"
  obtains r' where
    "tcp_runConn ctx i r w = Some (if errors_is (br_end r) EOF then None else Some (br_end r), r', w)"
    "br_content r' = []" "br_end r' = br_end r"
proof -
  obtain r' where "tcp_round r w = Some (Some (if errors_is (br_end r) EOF then None else Some (br_end r)), r', w)"
      "br_content r' = []" "br_end r' = br_end r"
    using assms(2) by (rule tcp_round_end)
  with assms(1) show ?thesis
    by (intro that [of r']) (simp_all add: tcp_runConn_round [of ctx i])
qed

lemma bw_out_flushed: "bw_buf w = [] \<Longrightarrow> bw_out w = sk_out (bw_dst w)"
  by (simp add: bw_out_def)

text \<open>
  A whole pipeline of requests: the replies leave in the order of the requests. A \<open>ToHex\<close>
  request may only be the last one.
\<close>

lemma tcp_runConn_pipeline:
  assumes "\<And>j. ctx j = None" "\<forall>c \<in> set cs. bin_valid c" "\<forall>c \<in> set (butlast cs). \<not> is_hex c"
    and "br_content r = concat (map bin_request cs)" "bw_reliable w" "bw_buf w = []"
  shows "\<exists>r' w'. tcp_runConn ctx i r w =
           Some (if errors_is (br_end r) EOF then None else Some (br_end r), r', w') \<and>
           br_content r' = [] \<and> br_end r' = br_end r \<and> bw_reliable w' \<and> bw_buf w' = [] \<and>
           sk_out (bw_dst w') = sk_out (bw_dst w) @ concat (map bin_reply cs)"
  using assms(2-)
proof (induction cs arbitrary: i r w)
  case Nil
  obtain r' where "tcp_runConn ctx i r w =
      Some (if errors_is (br_end r) EOF then None else Some (br_end r), r', w)"
    "br_content r' = []" "br_end r' = br_end r"
    by (rule tcp_runConn_end [where ctx = ctx and i = i and r = r and w = w])
      (use assms(1) Nil in simp_all)
  with Nil show ?case by auto
next
  case (Cons c cs)
  have "is_hex c \<Longrightarrow> concat (map bin_request cs) = []"
    using Cons.prems(2) by (cases cs) auto
  then obtain r1 w1 where r1: "tcp_runConn ctx i r w = tcp_runConn ctx (Suc i) r1 w1"
    "br_content r1 = concat (map bin_request cs)" "br_end r1 = br_end r" "bw_reliable w1"
    "bw_buf w1 = []" "sk_out (bw_dst w1) = bw_out w @ bin_reply c"
    using tcp_runConn_call [where ctx = ctx and i = i and c = c and r = r and w = w
        and rest = "concat (map bin_request cs)"] assms(1) Cons.prems by auto
  moreover have "\<forall>c \<in> set (butlast cs). \<not> is_hex c"
    using Cons.prems(2) by (cases cs) auto
  ultimately show ?case
    using Cons.IH [of r1 w1 "Suc i"] Cons.prems by (auto simp: bw_out_flushed)
qed

section \<open>Client and server connected\<close>

text \<open>
  The other end of the connection when it is the server of this package: what is sent
  arrives at the reader of \<open>runConn\<close>, which runs until it waits for more, and what it has
  flushed by then arrives at the client. A handler that spins sends nothing.
\<close>

type_synonym tcp_link = "breader \<times> bwriter \<times> nat list"

definition tcp_peer :: "tcp_link peer" where
  "tcp_peer n sent =
     (case n of (r, w, cuts) \<Rightarrow>
        (case cut_bytes cuts sent of (chunks, cuts1) \<Rightarrow>
           let s = br_src r;
               r1 = r\<lparr>br_src := Source (src_chunks s @ chunks) (src_end s)\<rparr>
           in (case tcp_runConn (\<lambda>_. None) 0 r1 w of
                 None \<Rightarrow> ([], (r1, w, cuts1))
               | Some (err, r', w') \<Rightarrow>
                   (case cut_bytes cuts1 (sk_out (bw_dst w')) of (arrived, cuts2) \<Rightarrow>
                      (arrived, (r', w'\<lparr>bw_dst := (bw_dst w')\<lparr>sk_out := []\<rparr>\<rparr>, cuts2))))))"

definition idle_writer :: "bwriter \<Rightarrow> bool" where
  "idle_writer w \<longleftrightarrow> bw_reliable w \<and> bw_buf w = [] \<and> sk_out (bw_dst w) = []"

definition idle_reader :: "breader \<Rightarrow> bool" where
  "idle_reader r \<longleftrightarrow> br_content r = [] \<and> br_end r = Blocked"

definition tcp_idle :: "tcpClient \<times> tcp_link \<Rightarrow> bool" where
  "tcp_idle st \<longleftrightarrow>
     (case st of (c, r, w, cuts) \<Rightarrow>
        idle_writer (tc_writer c) \<and> idle_reader (tc_reader c) \<and> tn_wf (tc_tree c) \<and>
        idle_writer w \<and> idle_reader r)"

lemma br_content_arrive:
  "br_content (r\<lparr>br_src := Source (src_chunks (br_src r) @ cs) (src_end (br_src r))\<rparr>) =
     br_content r @ concat cs"
  "br_end (r\<lparr>br_src := Source (src_chunks (br_src r) @ cs) (src_end (br_src r))\<rparr>) = br_end r"
  by (simp_all add: br_content_def br_end_def src_content_def)

lemma idle_writer_drain:
  "bw_reliable w \<Longrightarrow> bw_buf w = [] \<Longrightarrow> idle_writer (w\<lparr>bw_dst := (bw_dst w)\<lparr>sk_out := []\<rparr>\<rparr>)"
  by (simp add: idle_writer_def bw_reliable_def)

lemma tcp_peer_call:
  assumes "bin_valid call" "idle_reader r" "idle_writer w"
  obtains arrived r' w' cuts' where
    "tcp_peer (r, w, cuts) (bin_request call) = (arrived, r', w', cuts')"
    "concat arrived = bin_reply call" "idle_reader r'" "idle_writer w'"
proof -
  obtain chunks cuts1 where ch: "cut_bytes cuts (bin_request call) = (chunks, cuts1)"
    by fastforce
  then have cc: "concat chunks = bin_request call"
    by (metis concat_cut_bytes fst_conv)
  let ?r1 = "r\<lparr>br_src := Source (src_chunks (br_src r) @ chunks) (src_end (br_src r))\<rparr>"
  have cont: "br_content ?r1 = concat (map bin_request [call])" and end1: "br_end ?r1 = Blocked"
    using assms(2) cc by (simp_all only: br_content_arrive idle_reader_def) simp_all
  obtain r' w' where run: "tcp_runConn (\<lambda>_. None) 0 ?r1 w = Some (Some Blocked, r', w')"
      "br_content r' = []" "br_end r' = Blocked" "bw_reliable w'" "bw_buf w' = []"
      "sk_out (bw_dst w') = bin_reply call"
    using tcp_runConn_pipeline [where ctx = "\<lambda>_. None" and cs = "[call]" and r = ?r1 and w = w and i = 0]
      assms cont end1 by (auto simp: idle_writer_def)
  obtain arrived cuts2 where ar: "cut_bytes cuts1 (bin_reply call) = (arrived, cuts2)"
    by fastforce
  then have "concat arrived = bin_reply call"
    by (metis concat_cut_bytes fst_conv)
  with run ch ar show ?thesis
    by (intro that [of arrived r' "w'\<lparr>bw_dst := (bw_dst w')\<lparr>sk_out := []\<rparr>\<rparr>" cuts2])
      (simp_all add: tcp_peer_def idle_reader_def idle_writer_drain)
qed

text \<open>One round trip, seen by a client whose writer has flushed the request.\<close>

lemma tcp_exchange_call:
  assumes "tcp_idle (c0, r, w, cuts)" "bin_valid call" "tc_reader c = tc_reader c0"
    and "bw_reliable (tc_writer c)" "bw_buf (tc_writer c) = []"
    and "sk_out (bw_dst (tc_writer c)) = bin_request call"
  obtains rd wt n' where
    "tcp_exchange tcp_peer (c, r, w, cuts) = (c\<lparr>tc_reader := rd, tc_writer := wt\<rparr>, n')"
    "br_content rd = bin_reply call" "br_end rd = Blocked" "idle_writer wt"
    "\<And>c'. idle_writer (tc_writer c') \<Longrightarrow> idle_reader (tc_reader c') \<Longrightarrow> tn_wf (tc_tree c') \<Longrightarrow>
       tcp_idle (c', n')"
proof -
  have idle: "idle_reader r" "idle_writer w" "idle_reader (tc_reader c)"
    using assms(1,3) by (simp_all add: tcp_idle_def)
  obtain arrived r' w' cuts' where p:
    "tcp_peer (r, w, cuts) (bin_request call) = (arrived, r', w', cuts')"
    "concat arrived = bin_reply call" "idle_reader r'" "idle_writer w'"
    using tcp_peer_call [OF assms(2) idle(1,2), of cuts] by blast
  let ?rd = "(tc_reader c)\<lparr>br_src := Source (src_chunks (br_src (tc_reader c)) @ arrived)
      (src_end (br_src (tc_reader c)))\<rparr>"
  let ?wt = "(tc_writer c)\<lparr>bw_dst := (bw_dst (tc_writer c))\<lparr>sk_out := []\<rparr>\<rparr>"
  have "tcp_exchange tcp_peer (c, r, w, cuts) =
      (c\<lparr>tc_reader := ?rd, tc_writer := ?wt\<rparr>, r', w', cuts')"
    using p(1) assms(6) by (simp add: tcp_exchange_def Let_def)
  moreover have "br_content ?rd = bin_reply call" "br_end ?rd = Blocked"
    using idle(3) p(2) by (simp_all only: br_content_arrive idle_reader_def) simp
  moreover have "idle_writer ?wt"
    using assms(4,5) by (rule idle_writer_drain)
  ultimately show ?thesis
    using p(3,4) by (intro that [where rd = ?rd and wt = ?wt and n' = "(r', w', cuts')"]) (simp_all add: tcp_idle_def)
qed

lemma idle_writer_reliable: "idle_writer w \<Longrightarrow> bw_reliable w \<and> bw_out w = []"
  by (simp add: idle_writer_def bw_out_def)

lemma tcp_Nop_ok:
  assumes "tcp_idle st"
  shows "\<exists>st'. tcp_Nop tcp_peer st = (None, st') \<and> tcp_idle st'"
proof -
  obtain c r w cuts where st: "st = (c, r, w, cuts)" by (cases st)
  note idle = assms [unfolded st tcp_idle_def prod.case]
  obtain w1 where w1: "bw_write_byte (tc_writer c) cmdNop = (None, w1)" "bw_out w1 = [cmdNop]"
      "bw_reliable w1"
    using idle by (metis append_Nil bw_write_byte_reliable idle_writer_reliable)
  obtain w2 where w2: "bw_flush w1 = (None, w2)" "sk_out (bw_dst w2) = bw_out w1" "bw_buf w2 = []"
      "bw_reliable w2"
    using w1(3) by (rule bw_flush_reliable)
  obtain rd wt n' where ex:
    "tcp_exchange tcp_peer (c\<lparr>tc_writer := w2\<rparr>, r, w, cuts) =
       (c\<lparr>tc_writer := w2\<rparr>\<lparr>tc_reader := rd, tc_writer := wt\<rparr>, n')"
    "br_content rd = bin_reply CNop" "br_end rd = Blocked" "idle_writer wt"
    "\<And>c'. idle_writer (tc_writer c') \<Longrightarrow> idle_reader (tc_reader c') \<Longrightarrow> tn_wf (tc_tree c') \<Longrightarrow>
       tcp_idle (c', n')"
    using w1 w2
    by (rule_tac tcp_exchange_call [where call = CNop and c = "c\<lparr>tc_writer := w2\<rparr>", OF assms [unfolded st]])
      (auto simp: cmdNop_def)
  obtain rd' where "br_read_byte rd = (Inr 1, rd')" "br_content rd' = []" "br_end rd' = br_end rd"
    using ex(2) by (auto intro: br_read_byte_content)
  with st idle w1 w2 ex show ?thesis
    by (auto simp: tcp_Nop_def idle_reader_def intro!: ex(5))
qed

lemma tcp_Add_ok:
  assumes "tcp_idle st"
  shows "\<exists>st'. tcp_Add tcp_peer st a b = (Inr (a + b), st') \<and> tcp_idle st'"
proof -
  obtain c r w cuts where st: "st = (c, r, w, cuts)" by (cases st)
  note idle = assms [unfolded st tcp_idle_def prod.case]
  obtain w1 where w1: "bw_write_byte (tc_writer c) cmdAdd = (None, w1)" "bw_out w1 = [cmdAdd]"
      "bw_reliable w1"
    using idle by (metis append_Nil bw_write_byte_reliable idle_writer_reliable)
  obtain w2 where w2: "WriteInt64 bw_write w1 a = (None, w2)" "bw_out w2 = bw_out w1 @ put_uint64 a"
      "bw_reliable w2"
    using w1(3) by (rule bw.WriteInt64_reliable)
  obtain w3 where w3: "WriteInt64 bw_write w2 b = (None, w3)" "bw_out w3 = bw_out w2 @ put_uint64 b"
      "bw_reliable w3"
    using w2(3) by (rule bw.WriteInt64_reliable)
  obtain w4 where w4: "bw_flush w3 = (None, w4)" "sk_out (bw_dst w4) = bw_out w3" "bw_buf w4 = []"
      "bw_reliable w4"
    using w3(3) by (rule bw_flush_reliable)
  obtain rd wt n' where ex:
    "tcp_exchange tcp_peer (c\<lparr>tc_writer := w4\<rparr>, r, w, cuts) =
       (c\<lparr>tc_writer := w4\<rparr>\<lparr>tc_reader := rd, tc_writer := wt\<rparr>, n')"
    "br_content rd = bin_reply (CAdd a b)" "br_end rd = Blocked" "idle_writer wt"
    "\<And>c'. idle_writer (tc_writer c') \<Longrightarrow> idle_reader (tc_reader c') \<Longrightarrow> tn_wf (tc_tree c') \<Longrightarrow>
       tcp_idle (c', n')"
    using w1 w2 w3 w4
    by (rule_tac tcp_exchange_call [where call = "CAdd a b" and c = "c\<lparr>tc_writer := w4\<rparr>", OF assms [unfolded st]])
      (auto simp: cmdAdd_def)
  have "br_content rd = put_uint64 (a + b) @ []" using ex(2) by simp
  then obtain rd' where "ReadInt64 br_read rd = (Inr (a + b), rd')" "br_content rd' = []"
      "br_end rd' = br_end rd"
    by (rule br.ReadInt64_value)
  with st idle w1 w2 w3 w4 ex show ?thesis
    by (auto simp: tcp_Add_def idle_reader_def intro!: ex(5))
qed

lemma tcp_MultTreeValues_ok:
  assumes "tcp_idle st"
    and fill: "\<And>t. tn_wf t \<Longrightarrow> \<exists>t'. fill t = Inr t' \<and> tn_wf t' \<and> tn_view t' = vt"
    and "vnodes vt < 2 ^ 63"
  shows "\<exists>res st'. tcp_MultTreeValues tcp_peer st m fill = (Inr res, st') \<and> tn_wf res \<and>
           tn_view res = vmult m vt \<and> tcp_idle st'"
proof -
  obtain c r w cuts where st: "st = (c, r, w, cuts)" by (cases st)
  note idle = assms(1) [unfolded st tcp_idle_def prod.case]
  obtain tree where tree: "fill (tn_Reset (tc_tree c)) = Inr tree" "tn_wf tree" "tn_view tree = vt"
    using fill tn_wf_Reset idle by blast
  obtain w1 where w1: "bw_write_byte (tc_writer c) cmdMultTree = (None, w1)"
      "bw_out w1 = [cmdMultTree]" "bw_reliable w1"
    using idle by (metis append_Nil bw_write_byte_reliable idle_writer_reliable)
  obtain w2 where w2: "WriteMultTreeRequest bw_write m tree w1 = (None, w2)"
      "bw_out w2 = bw_out w1 @ mult_tree_request m (tn_view tree)" "bw_reliable w2"
    using w1(3) by (rule bw.WriteMultTreeRequest_reliable)
  obtain w3 where w3: "bw_flush w2 = (None, w3)" "sk_out (bw_dst w3) = bw_out w2" "bw_buf w3 = []"
      "bw_reliable w3"
    using w2(3) by (rule bw_flush_reliable)
  let ?c = "c\<lparr>tc_tree := tree, tc_writer := w3\<rparr>"
  obtain rd wt n' where ex:
    "tcp_exchange tcp_peer (?c, r, w, cuts) = (?c\<lparr>tc_reader := rd, tc_writer := wt\<rparr>, n')"
    "br_content rd = bin_reply (CMult m vt)" "br_end rd = Blocked" "idle_writer wt"
    "\<And>c'. idle_writer (tc_writer c') \<Longrightarrow> idle_reader (tc_reader c') \<Longrightarrow> tn_wf (tc_tree c') \<Longrightarrow>
       tcp_idle (c', n')"
    using w1 w2 w3 tree assms(3)
    by (rule_tac tcp_exchange_call [where call = "CMult m vt" and c = ?c, OF assms(1) [unfolded st]])
      (auto simp: cmdMultTree_def)
  have lay: "vlayout (vmult m vt) = vlayout (tn_view tree)"
    and cont: "br_content rd = int64s (vvalues (vmult m vt)) @ []"
    using tree ex(2) by simp_all
  obtain tree' rd' where "ReadTree br_read tree rd = (None, tree', rd')"
      "tn_view tree' = vmult m vt" "tn_wf tree'" "br_content rd' = []" "br_end rd' = br_end rd"
    using br.ReadTree_value [OF lay cont] tree(2) by blast
  with st idle tree w1 w2 w3 ex show ?thesis
    by (auto simp: tcp_MultTreeValues_def ReadMultTreeReponse_def idle_reader_def intro!: ex(5))
qed

lemma tcp_ToHex_ok:
  assumes "tcp_idle st" "length p < MaxHexEncodeSize" "length q = 2 * length p"
  shows "\<exists>st'. tcp_ToHex tcp_peer st p q = (None, hex_encode p, st') \<and> tcp_idle st'"
proof -
  obtain c r w cuts where st: "st = (c, r, w, cuts)" by (cases st)
  note idle = assms(1) [unfolded st tcp_idle_def prod.case]
  obtain w1 where w1: "bw_write_byte (tc_writer c) cmdToHex = (None, w1)" "bw_out w1 = [cmdToHex]"
      "bw_reliable w1"
    using idle by (metis append_Nil bw_write_byte_reliable idle_writer_reliable)
  obtain w2 where w2: "WriteInt64 bw_write w1 (word_of_nat (length p)) = (None, w2)"
      "bw_out w2 = bw_out w1 @ put_uint64 (word_of_nat (length p))" "bw_reliable w2"
    using w1(3) by (rule bw.WriteInt64_reliable)
  obtain w3 where w3: "bw_write w2 p = (None, w3)" "bw_out w3 = bw_out w2 @ p" "bw_reliable w3"
    using w2(3) by (rule bw.wr_reliable_eq)
  obtain w4 where w4: "bw_flush w3 = (None, w4)" "sk_out (bw_dst w4) = bw_out w3" "bw_buf w4 = []"
      "bw_reliable w4"
    using w3(3) by (rule bw_flush_reliable)
  obtain rd wt n' where ex:
    "tcp_exchange tcp_peer (c\<lparr>tc_writer := w4\<rparr>, r, w, cuts) =
       (c\<lparr>tc_writer := w4\<rparr>\<lparr>tc_reader := rd, tc_writer := wt\<rparr>, n')"
    "br_content rd = bin_reply (CHex p)" "br_end rd = Blocked" "idle_writer wt"
    "\<And>c'. idle_writer (tc_writer c') \<Longrightarrow> idle_reader (tc_reader c') \<Longrightarrow> tn_wf (tc_tree c') \<Longrightarrow>
       tcp_idle (c', n')"
    using w1 w2 w3 w4 assms(2)
    by (rule_tac tcp_exchange_call [where call = "CHex p" and c = "c\<lparr>tc_writer := w4\<rparr>", OF assms(1) [unfolded st]])
      (auto simp: cmdToHex_def)
  have n: "length q = length (br_content rd)"
    using ex(2) assms(3) by simp
  obtain rd' where "read_full br_read (length q) [] rd = (Inr (hex_encode p), rd')"
      "br_content rd' = []" "br_end rd' = br_end rd"
    using br.read_full_enough [of "length q" rd "[]"] ex(2) n
    by (cases "read_full br_read (length q) [] rd") auto
  with st idle w1 w2 w3 w4 ex show ?thesis
    by (auto simp: tcp_ToHex_def idle_reader_def intro!: ex(5))
qed

interpretation tcp: rpc_system "tcp_client_ops tcp_peer" tcp_idle
  tn_ops tn_wf "\<lambda>t t' vt. tn_wf t' \<and> tn_view t' = vt" tn_ops tn_view tn_wf
  "2 ^ 63 - 1" l "MaxHexEncodeSize - 1"
  for l
proof unfold_locales
  fix c m vt and fill :: "TreeNodeImpl \<Rightarrow> TreeNodeImpl result"
  assume "tcp_idle c" "vwithin (2 ^ 63 - 1) l vt"
    "\<And>t. tn_wf t \<Longrightarrow> \<exists>t'. fill t = Inr t' \<and> tn_wf t' \<and> tn_view t' = vt"
  then show "\<exists>res c'. cl_MultTreeValues (tcp_client_ops tcp_peer) c m fill = (Inr res, c') \<and>
      tn_wf res \<and> tn_view res = vmult m vt \<and> tcp_idle c'"
    using tcp_MultTreeValues_ok by (simp add: tcp_client_ops_def vwithin_def)
next
  fix c and p q :: "byte list"
  assume "tcp_idle c" "length p \<le> MaxHexEncodeSize - 1" "length q = 2 * length p"
  then show "\<exists>c'. cl_ToHex (tcp_client_ops tcp_peer) c p q = (None, hex_encode p, c') \<and> tcp_idle c'"
    using tcp_ToHex_ok [of c p q] by (simp add: tcp_client_ops_def MaxHexEncodeSize_def)
qed (simp_all add: tcp_client_ops_def tcp_Nop_ok tcp_Add_ok del: split_paired_Ex)

section \<open>Requests that are not answered\<close>

lemma hex_encoder_write_Nil [simp]: "hex_encoder_write wr w [] = (None, w)"
  by (simp add: hex_encoder_write.simps)

lemma ReadInt64_buffered:
  assumes "br_buf r = put_uint64 v @ rest"
  shows "ReadInt64 br_read r = (Inr v, r\<lparr>br_buf := rest\<rparr>)"
proof -
  have "br_read r 8 = (Inr (put_uint64 v), r\<lparr>br_buf := rest\<rparr>)"
    using assms by (simp add: br_read_def)
  then have "read_full br_read 8 [] r = read_full br_read 0 (put_uint64 v) (r\<lparr>br_buf := rest\<rparr>)"
    by (subst read_full.simps) simp
  also have "\<dots> = (Inr (put_uint64 v), r\<lparr>br_buf := rest\<rparr>)"
    by (subst read_full.simps) simp
  finally show ?thesis by (simp add: ReadInt64_def)
qed

lemma br_read_byte_buffered:
  "br_buf r = b # rest \<Longrightarrow> br_read_byte r = (Inr b, r\<lparr>br_buf := rest\<rparr>)"
  by (simp add: br_read_byte_def)

lemma tcp_runConn_cmd:
  assumes "ctx i = None" "br_read_byte r = (Inr cmd, r1)"
    and "tcp_switch cmd r1 w = Some (Inr None, r2, w2)" "bw_reliable w2"
  obtains w3 where "tcp_runConn ctx i r w = tcp_runConn ctx (Suc i) r2 w3"
    "bw_buf w3 = []" "sk_out (bw_dst w3) = bw_out w2" "bw_reliable w3"
proof -
  obtain w3 where w3: "bw_flush w2 = (None, w3)" "sk_out (bw_dst w3) = bw_out w2" "bw_buf w3 = []"
      "bw_reliable w3"
    using assms(4) by (rule bw_flush_reliable)
  have "tcp_runConn ctx i r w = tcp_runConn ctx (Suc i) r2 w3"
    using assms(1-3) w3(1) by (subst tcp_runConn.simps) simp
  with w3 show thesis by (intro that) simp_all
qed

section \<open>Properties\<close>

text \<open>C20: With a context that is never cancelled, a pipeline of valid requests of which at most the
  last is a \<open>ToHex\<close> is answered in order, however it is cut into chunks: the connection loop
  sends exactly the concatenated replies, then returns nil at the end of the input and the read
  error otherwise. (A \<open>ToHex\<close> before the last can swallow what is buffered behind it.)\<close>

theorem tcp_pipeline_in_order:
  assumes "\<And>j. ctx j = None" "\<forall>c \<in> set cs. bin_valid c" "\<forall>c \<in> set (butlast cs). \<not> is_hex c"
    and "concat chunks = concat (map bin_request cs)" "sk_room d = None"
  shows "\<exists>r' w'. tcp_runConn ctx 0 (tcp_server_reader (Source chunks fin)) (tcp_server_writer d) =
      Some (if errors_is fin EOF then None else Some fin, r', w') \<and>
    bw_buf w' = [] \<and> sk_out (bw_dst w') = sk_out d @ concat (map bin_reply cs)"
proof -
  let ?r = "tcp_server_reader (Source chunks fin)" and ?w = "tcp_server_writer d"
  have "br_content ?r = concat (map bin_request cs)" "br_end ?r = fin"
    using assms(4) by (simp_all add: tcp_server_reader_def br_content_def br_end_def src_content_def)
  moreover have "bw_reliable ?w" "bw_buf ?w = []" "sk_out (bw_dst ?w) = sk_out d"
    using assms(5) by (simp_all add: tcp_server_writer_def bw_reliable_def)
  ultimately show ?thesis
    using tcp_runConn_pipeline [where ctx = ctx and i = 0 and cs = cs and r = ?r and w = ?w]
      assms(1-3) by auto
qed

lemma tcp_pipeline_in_order_witness:
  "\<exists>r' w'. tcp_runConn (\<lambda>_. None) 0
      (tcp_server_reader (Source [bin_request CNop @ bin_request (CAdd 2 3), bin_request (CHex [171])] EOF))
      (tcp_server_writer \<lparr>sk_out = [], sk_room = None, sk_err = EOF\<rparr>) = Some (None, r', w') \<and>
    sk_out (bw_dst w') = bin_reply CNop @ put_uint64 5 @ bin_reply (CHex [171])"
  using tcp_pipeline_in_order [of "\<lambda>_. None" "[CNop, CAdd 2 3, CHex [171]]"
      "[bin_request CNop @ bin_request (CAdd 2 3), bin_request (CHex [171])]"
      "\<lparr>sk_out = [], sk_room = None, sk_err = EOF\<rparr>" EOF]
  by (auto simp: MaxHexEncodeSize_def)

text \<open>C21: A \<open>ToHex\<close> request whose size is \<open>MaxHexEncodeSize\<close> or more never ends: the loop
  reads into an empty slice for ever, and the connection loop does not return.\<close>

theorem tcp_ToHex_spins:
  assumes "ctx i = None" "br_content r = cmdToHex # put_uint64 sz @ rest"
    and "int MaxHexEncodeSize \<le> sint sz"
  shows "tcp_runConn ctx i r w = None"
proof -
  obtain r1 where r1: "br_read_byte r = (Inr cmdToHex, r1)" "br_content r1 = put_uint64 sz @ rest"
    using assms(2) by (rule br_read_byte_content)
  obtain r2 where r2: "ReadInt64 br_read r1 = (Inr sz, r2)"
    using r1(2) by (rule br.ReadInt64_value)
  have "tcp_hex_loop sz r2 w = None"
    unfolding tcp_hex_loop_def by (rule hex_loop_spins) (use assms(3) in simp_all)
  with r2 have "tcp_switch cmdToHex r1 w = None" by (simp add: tcp_switch_def cmd_defs)
  with assms(1) r1(1) show ?thesis by (subst tcp_runConn.simps) simp
qed

lemma tcp_ToHex_spins_witness:
  "tcp_runConn (\<lambda>_. None) 0 (tcp_server_reader (Source [cmdToHex # put_uint64 131072 @ [1, 2]] EOF))
     (tcp_server_writer \<lparr>sk_out = [], sk_room = None, sk_err = EOF\<rparr>) = None"
  by (rule tcp_ToHex_spins [where sz = 131072 and rest = "[1, 2]"])
    (simp_all add: tcp_server_reader_def br_content_def src_content_def MaxHexEncodeSize_def)

text \<open>C22: A \<open>ToHex\<close> request swallows what is pipelined behind it: when its data \<open>p\<close>, which is not
  empty, and further bytes \<open>rest\<close> are already buffered, and twice the length of \<open>p\<close> with that of
  \<open>rest\<close> is at most \<open>MaxHexEncodeSize\<close>, the reply is the hex form of both, and the requests in
  \<open>rest\<close> are gone.\<close>

theorem tcp_ToHex_swallows:
  assumes "ctx i = None" "bw_reliable w" "p \<noteq> []" "2 * length p + length rest \<le> MaxHexEncodeSize"
    and "br_buf r = cmdToHex # put_uint64 (word_of_nat (length p)) @ p @ rest"
  shows "\<exists>w'. tcp_runConn ctx i r w = tcp_runConn ctx (Suc i) (r\<lparr>br_buf := []\<rparr>) w' \<and>
    bw_buf w' = [] \<and> sk_out (bw_dst w') = bw_out w @ hex_encode (p @ rest)"
proof -
  let ?r1 = "r\<lparr>br_buf := put_uint64 (word_of_nat (length p)) @ p @ rest\<rparr>"
  let ?r2 = "?r1\<lparr>br_buf := p @ rest\<rparr>"
  have r1: "br_read_byte r = (Inr cmdToHex, ?r1)"
    using assms(5) by (rule br_read_byte_buffered)
  have "ReadInt64 br_read ?r1 = (Inr (word_of_nat (length p)), ?r2)"
    by (rule ReadInt64_buffered) simp
  moreover obtain w1 where w1: "hex_encoder_write bw_write w (p @ rest) = (None, w1)"
      "bw_out w1 = bw_out w @ hex_encode (p @ rest)" "bw_reliable w1"
    using bw.hex_encoder_write_reliable [OF assms(2)] by blast
  moreover have "tcp_hex_loop (word_of_nat (length p)) ?r2 w = Some (None, ?r2\<lparr>br_buf := []\<rparr>, w1)"
    unfolding tcp_hex_loop_def using w1(1) by (rule hex_loop_overreads) (use assms(3,4) in simp_all)
  ultimately have sw: "tcp_switch cmdToHex ?r1 w = Some (Inr None, r\<lparr>br_buf := []\<rparr>, w1)"
    by (simp add: tcp_switch_def cmd_defs)
  show ?thesis
    using tcp_runConn_cmd [where ctx = ctx and i = i, OF assms(1) r1 sw w1(3)] w1(2) by metis
qed

lemma tcp_ToHex_swallows_witness:
  "\<exists>w'. tcp_runConn (\<lambda>_. None) 0
      \<lparr>br_buf = cmdToHex # put_uint64 1 @ [171, cmdNop], br_size = MaxHexEncodeSize, br_src = Source [] EOF\<rparr>
      (tcp_server_writer \<lparr>sk_out = [], sk_room = None, sk_err = EOF\<rparr>) =
    tcp_runConn (\<lambda>_. None) 1 \<lparr>br_buf = [], br_size = MaxHexEncodeSize, br_src = Source [] EOF\<rparr> w' \<and>
    sk_out (bw_dst w') = hex_encode [171, cmdNop]"
  using tcp_ToHex_swallows [of "\<lambda>_. None" 0 "tcp_server_writer \<lparr>sk_out = [], sk_room = None, sk_err = EOF\<rparr>"
      "[171]" "[cmdNop]"
      "\<lparr>br_buf = cmdToHex # put_uint64 1 @ [171, cmdNop], br_size = MaxHexEncodeSize, br_src = Source [] EOF\<rparr>"]
  by (auto simp: MaxHexEncodeSize_def tcp_server_writer_def bw_reliable_def bw_out_def
      simp del: hex_encode_simps)

text \<open>A byte that is no command is skipped: nothing is sent and the next byte is taken as
  a command.\<close>

lemma tcp_unknown_command:
  assumes "ctx i = None" "br_content r = cmd # rest" "cmd \<notin> {cmdNop, cmdAdd, cmdMultTree, cmdToHex}"
    and "bw_reliable w" "bw_buf w = []"
  shows "\<exists>r' w'. tcp_runConn ctx i r w = tcp_runConn ctx (Suc i) r' w' \<and> br_content r' = rest \<and>
    bw_buf w' = [] \<and> sk_out (bw_dst w') = sk_out (bw_dst w)"
proof -
  obtain r1 where r1: "br_read_byte r = (Inr cmd, r1)" "br_content r1 = rest"
    using assms(2) by (rule br_read_byte_content)
  have "tcp_switch cmd r1 w = Some (Inr None, r1, w)"
    using assms(3) by (simp add: tcp_switch_def)
  from tcp_runConn_cmd [where ctx = ctx and i = i, OF assms(1) r1(1) this assms(4)] r1(2) assms(5) show ?thesis
    by (metis bw_out_flushed)
qed

lemma tcp_unknown_command_witness:
  "\<exists>r' w'. tcp_runConn (\<lambda>_. None) 0 (tcp_server_reader (Source [[9, 1]] EOF))
      (tcp_server_writer \<lparr>sk_out = [], sk_room = None, sk_err = EOF\<rparr>) = tcp_runConn (\<lambda>_. None) 1 r' w' \<and>
    br_content r' = [1] \<and> sk_out (bw_dst w') = []"
  using tcp_unknown_command [of "\<lambda>_. None" 0 "tcp_server_reader (Source [[9, 1]] EOF)" 9 "[1]"
      "tcp_server_writer \<lparr>sk_out = [], sk_room = None, sk_err = EOF\<rparr>"]
  by (auto simp: tcp_server_reader_def tcp_server_writer_def br_content_def src_content_def
      bw_reliable_def cmd_defs)

text \<open>One call of each kind over an idle connection to the server: the client returns the
  sum, the multiplied tree and the hex form, and the connection is idle again.\<close>

lemma tcp_calls_correct:
  assumes "tcp_idle st" "vnodes (tn_view t) < 2 ^ 63"
    and "length p < MaxHexEncodeSize" "length q = 2 * length p"
  shows "(\<exists>st'. tcp_Nop tcp_peer st = (None, st') \<and> tcp_idle st') \<and>
    (\<exists>st'. tcp_Add tcp_peer st a b = (Inr (a + b), st') \<and> tcp_idle st') \<and>
    (\<exists>res st'. tcp_MultTreeValues tcp_peer st m (copyTree tn_ops t) = (Inr res, st') \<and>
       tn_view res = vmult m (tn_view t) \<and> tcp_idle st') \<and>
    (\<exists>st'. tcp_ToHex tcp_peer st p q = (None, hex_encode p, st') \<and> tcp_idle st')"
proof -
  have "\<exists>res st'. tcp_MultTreeValues tcp_peer st m (copyTree tn_ops t) = (Inr res, st') \<and> tn_wf res \<and>
       tn_view res = vmult m (tn_view t) \<and> tcp_idle st'"
    using assms(1) tn.copyTree_view assms(2) by (rule tcp_MultTreeValues_ok)
  then show ?thesis
    using tcp_Nop_ok [OF assms(1)] tcp_Add_ok [OF assms(1), of a b] tcp_ToHex_ok [OF assms(1,3,4)]
    by blast
qed

definition tcp_connected :: "nat list \<Rightarrow> tcpClient \<times> tcp_link" where
  "tcp_connected cuts =
     (newTCPClient (Source [] Blocked) \<lparr>sk_out = [], sk_room = None, sk_err = EOF\<rparr>,
      tcp_server_reader (Source [] Blocked),
      tcp_server_writer \<lparr>sk_out = [], sk_room = None, sk_err = EOF\<rparr>, cuts)"

lemma tcp_idle_connected: "tcp_idle (tcp_connected cuts)"
  by (simp add: tcp_connected_def tcp_idle_def newTCPClient_def tcp_server_reader_def
      tcp_server_writer_def idle_writer_def idle_reader_def bw_reliable_def br_content_def br_end_def
      src_content_def tn_zero_def)

lemma tcp_calls_correct_witness:
  "\<exists>st'. tcp_ToHex tcp_peer (tcp_connected [1, 2]) [171, 205] [0, 0, 0, 0] =
      (None, [97, 98, 99, 100], st') \<and> tcp_idle st'"
proof -
  have "hex_encode [171, 205] = [97, 98, 99, 100]" by code_simp
  with tcp_calls_correct [of "tcp_connected [1, 2]" tn_zero "[171, 205]" "[0, 0, 0, 0]"] show ?thesis
    by (simp add: tcp_idle_connected MaxHexEncodeSize_def tn_zero_def del: hex_encode_simps)
qed

end
