(* ===== verification/ServerLoop.thy ===== *)
theory ServerLoop
  imports Tcp
begin

text \<open>
  The \<open>Run\<close> methods of the servers. The TCP and the two Cap'n Proto servers accept
  connections in a task of a pool of \<open>sourcegraph/conc\<close>; the HTTP and websocket servers
  pass through what \<open>http.Server\<close> returns. The pools are not part of the repository: what
  \<open>Wait\<close> returns is an argument, and \<open>first_error\<close> states what is relied on.
\<close>

section \<open>Accepting connections\<close>

text \<open>
  The loop over \<open>Accept\<close>, whose results are given up to the first error: the connections it
  starts and \<open>acceptErr\<close>. An error that says the listener was closed is the way it ends.
\<close>

fun accept_loop :: "'c result list \<Rightarrow> 'c list \<times> go_error option" where
  "accept_loop [] = ([], None)"
| "accept_loop (Inl err # rs) = ([], if \<not> errors_is err NetClosed then Some err else None)"
| "accept_loop (Inr c # rs) = (case accept_loop rs of (cs, acceptErr) \<Rightarrow> (c # cs, acceptErr))"

text \<open>What the accepting task returns, from \<open>acceptErr\<close> and the error of \<open>connPool.Wait\<close>.\<close>

definition accept_result :: "go_error option \<Rightarrow> go_error option \<Rightarrow> go_error option" where
  "accept_result acceptErr waitErr =
     (case acceptErr of
        Some e \<Rightarrow> Some (Errorf_w ''server Accept() errored'' e)
      | None \<Rightarrow>
          (case waitErr of
             Some e \<Rightarrow> Some (Errorf_w ''conn wait() errored'' e)
           | None \<Rightarrow> None))"

text \<open>
  The accepting task: \<open>conn_wait cs\<close> is what \<open>connPool.Wait\<close> returns when the tasks are those
  of the connections \<open>cs\<close>.
\<close>

definition accept_task ::
  "('c list \<Rightarrow> go_error option) \<Rightarrow> 'c result list \<Rightarrow> go_error option" where
  "accept_task conn_wait accepts =
     (case accept_loop accepts of (cs, acceptErr) \<Rightarrow> accept_result acceptErr (conn_wait cs))"

text \<open>\<open>g.Wait\<close> over the results of the tasks, and the check for \<open>context.Canceled\<close> after it.\<close>

definition pool_run :: "(go_error option list \<Rightarrow> go_error option) \<Rightarrow> go_error option list \<Rightarrow> go_error option"
where
  "pool_run wait tasks =
     (case wait tasks of
        None \<Rightarrow> None
      | Some err \<Rightarrow> if errors_is err Canceled then None else Some err)"

definition tcp_Run ::
  "(go_error option list \<Rightarrow> go_error option) \<Rightarrow> ('c list \<Rightarrow> go_error option) \<Rightarrow>
     go_error option \<Rightarrow> 'c result list \<Rightarrow> go_error option"
where
  "tcp_Run wait conn_wait close_err accepts =
     pool_run wait [close_err, accept_task conn_wait accepts]"

text \<open>
  A go-capnp connection is over when the library ends it, or it is closed when the context
  ends first; \<open>close\<close> is \<open>conn.Close\<close> of the library on a state of its own. The deferred \<open>Close\<close>
  comes last in both cases, after the value to return is known, and its result is dropped.
\<close>

definition gocapnp_runConn ::
  "('m \<Rightarrow> go_error option \<times> 'm) \<Rightarrow> bool \<Rightarrow> 'm \<Rightarrow> go_error option \<times> 'm" where
  "gocapnp_runConn close done_first m =
     (case (if done_first then (None, m) else close m) of
        (res, m1) \<Rightarrow> (case close m1 of (_, m2) \<Rightarrow> (res, m2)))"

definition gocapnp_Run ::
  "(go_error option list \<Rightarrow> go_error option) \<Rightarrow> ('c list \<Rightarrow> go_error option) \<Rightarrow>
     go_error option \<Rightarrow> 'c result list \<Rightarrow> go_error option"
where
  "gocapnp_Run wait conn_wait close_err accepts =
     pool_run wait [close_err, accept_task conn_wait accepts]"

text \<open>
  The other Cap'n Proto server hands the connections to its vat, a third task, and never
  starts a task of \<open>connPool\<close>.
\<close>

definition mdcapnp_Run ::
  "(go_error option list \<Rightarrow> go_error option) \<Rightarrow> go_error option \<Rightarrow> go_error option \<Rightarrow>
     'c result list \<Rightarrow> go_error option"
where
  "mdcapnp_Run wait close_err vat_err accepts =
     pool_run wait [close_err, vat_err, accept_task (\<lambda>_. wait []) accepts]"

section \<open>Serving HTTP and gRPC\<close>

text \<open>
  What \<open>Run\<close> returns by what the library's \<open>Serve\<close> returned; the goroutines are in \<open>ServeRun\<close>.
\<close>

definition http1_Run :: "go_error option \<Rightarrow> go_error option" where
  "http1_Run serve_err =
     (case serve_err of
        None \<Rightarrow> None
      | Some err \<Rightarrow> if errors_is err ServerClosed then None else Some err)"

definition ws_Run :: "go_error option \<Rightarrow> go_error option" where
  "ws_Run serve_err =
     (case serve_err of
        None \<Rightarrow> None
      | Some err \<Rightarrow> if errors_is err ServerClosed then None else Some err)"

text \<open>The gRPC server returns what \<open>gs.Serve\<close> returns.\<close>

definition grpc_Run :: "go_error option \<Rightarrow> go_error option" where
  "grpc_Run serve_err = serve_err"

section \<open>What a run returns\<close>

text \<open>\<open>WithFirstError\<close>: \<open>Wait\<close> returns the error of one of the tasks, and nil when none failed.\<close>

definition first_error :: "(go_error option list \<Rightarrow> go_error option) \<Rightarrow> bool" where
  "first_error wait \<longleftrightarrow>
     (\<forall>tasks. (wait tasks = None \<longleftrightarrow> (\<forall>t \<in> set tasks. t = None)) \<and>
              (\<forall>e. wait tasks = Some e \<longrightarrow> Some e \<in> set tasks))"

lemma first_errorD:
  assumes "first_error wait"
  shows "wait tasks = None \<longleftrightarrow> (\<forall>t \<in> set tasks. t = None)"
    and "wait tasks = Some e \<Longrightarrow> Some e \<in> set tasks"
  using assms unfolding first_error_def by simp_all

lemma accept_loop_closed:
  "errors_is e NetClosed \<Longrightarrow> accept_loop (map Inr cs @ [Inl e]) = (cs, None)"
  by (induction cs) simp_all

lemma accept_loop_failed:
  "\<not> errors_is e NetClosed \<Longrightarrow> accept_loop (map Inr cs @ [Inl e]) = (cs, Some e)"
  by (induction cs) simp_all

text \<open>The connection pool over the results of \<open>runConn\<close>; a loop that spins has none.\<close>

definition conn_results ::
  "(nat \<Rightarrow> go_error option) \<Rightarrow> (breader \<times> bwriter) list \<Rightarrow> go_error option list" where
  "conn_results ctx cs =
     map (\<lambda>(r, w). case tcp_runConn ctx 0 r w of None \<Rightarrow> None | Some (err, _) \<Rightarrow> err) cs"

lemma pool_run_clean:
  assumes "first_error wait" "\<And>e. Some e \<in> set tasks \<Longrightarrow> errors_is e Canceled"
  shows "pool_run wait tasks = None"
  using first_errorD [OF assms(1), of tasks] assms(2)
  by (auto simp: pool_run_def split: option.splits)

lemma pool_run_error:
  assumes "first_error wait" "Some e \<in> set tasks" "\<And>e'. Some e' \<in> set tasks \<Longrightarrow> e' = e"
    "\<not> errors_is e Canceled"
  shows "pool_run wait tasks = Some e"
proof -
  have "wait tasks \<noteq> None" using first_errorD(1) [OF assms(1), of tasks] assms(2) by auto
  then obtain e' where e': "wait tasks = Some e'" by blast
  then have "e' = e" using first_errorD(2) [OF assms(1)] assms(3) by blast
  with e' assms(4) show ?thesis by (simp add: pool_run_def)
qed

section \<open>Properties\<close>

text \<open>A run that ends because its context was cancelled returns nil: the listener was closed
  and every connection loop returned nil or the context's error, which is wrapped on the way.\<close>

lemma tcp_Run_cancelled:
  assumes "first_error wait" "errors_is e NetClosed"
    and "\<And>err. Some err \<in> set (conn_results ctx cs) \<Longrightarrow> errors_is err Canceled"
  shows "tcp_Run wait (\<lambda>cs. wait (conn_results ctx cs)) None (map Inr cs @ [Inl e]) = None"
proof -
  have task: "accept_task (\<lambda>cs. wait (conn_results ctx cs)) (map Inr cs @ [Inl e]) =
      map_option (Errorf_w ''conn wait() errored'') (wait (conn_results ctx cs))"
    using assms(2) by (simp add: accept_task_def accept_result_def accept_loop_closed split: option.splits)
  have canc: "errors_is err Canceled" if "wait (conn_results ctx cs) = Some err" for err
    using first_errorD(2) [OF assms(1) that] assms(3) by blast
  show ?thesis
    unfolding tcp_Run_def using assms(1)
    by (rule pool_run_clean) (use task canc in \<open>auto simp: map_option_case split: option.splits\<close>)
qed

text \<open>The pool that returns the first error of its list, for the examples.\<close>

fun first_of :: "go_error option list \<Rightarrow> go_error option" where
  "first_of [] = None"
| "first_of (None # ts) = first_of ts"
| "first_of (Some e # ts) = Some e"

lemma first_of_first_error: "first_error first_of"
proof -
  have "(first_of ts = None \<longleftrightarrow> (\<forall>t \<in> set ts. t = None)) \<and> (\<forall>e. first_of ts = Some e \<longrightarrow> Some e \<in> set ts)" for ts
    by (induction ts rule: first_of.induct) auto
  then show ?thesis by (simp add: first_error_def)
qed

lemma tcp_runConn_context: "ctx i = Some e \<Longrightarrow> tcp_runConn ctx i r w = Some (Some e, r, w)"
  by (subst tcp_runConn.simps) simp

lemma tcp_Run_cancelled_witness:
  "tcp_Run first_of (\<lambda>cs. first_of (conn_results (\<lambda>_. Some Canceled) cs)) None
     (map Inr [(tcp_server_reader (Source [[1]] Blocked),
                tcp_server_writer \<lparr>sk_out = [], sk_room = None, sk_err = EOF\<rparr>)] @
      [Inl (Errorf_w ''accept'' NetClosed)]) = None"
  by (rule tcp_Run_cancelled [OF first_of_first_error])
    (simp_all add: conn_results_def tcp_runConn_context)

lemma tcp_Run_conn_error:
  assumes "first_error wait" "errors_is e NetClosed"
    and "Some err \<in> set (conn_results ctx cs)"
    and "\<And>err'. Some err' \<in> set (conn_results ctx cs) \<Longrightarrow> err' = err"
    and "\<not> errors_is err Canceled"
  shows "tcp_Run wait (\<lambda>cs. wait (conn_results ctx cs)) None (map Inr cs @ [Inl e]) =
    Some (Errorf_w ''conn wait() errored'' err)"
proof -
  have "wait (conn_results ctx cs) \<noteq> None"
    using first_errorD(1) [OF assms(1), of "conn_results ctx cs"] assms(3) by auto
  then obtain err' where err': "wait (conn_results ctx cs) = Some err'" by blast
  then have "err' = err" using first_errorD(2) [OF assms(1)] assms(4) by blast
  with err' assms(2) have task: "accept_task (\<lambda>cs. wait (conn_results ctx cs)) (map Inr cs @ [Inl e]) =
      Some (Errorf_w ''conn wait() errored'' err)"
    by (simp add: accept_task_def accept_result_def accept_loop_closed)
  show ?thesis
    unfolding tcp_Run_def using assms(1)
    by (rule pool_run_error) (use task assms(5) in auto)
qed

lemma tcp_truncated_add:
  assumes "ctx i = None" "br_content r = cmdAdd # part" "length part < 8" "br_end r = EOF"
  shows "\<exists>r' w'. tcp_runConn ctx i r w = Some (Some (if part = [] then EOF else UnexpectedEOF), r', w')"
proof -
  obtain r1 where r1: "br_read_byte r = (Inr cmdAdd, r1)" "br_content r1 = part" "br_end r1 = br_end r"
    using assms(2) by (rule br_read_byte_content)
  have "length (br_content r1) < 8" using r1(2) assms(3) by simp
  then obtain r2 where "ReadInt64 br_read r1 =
      (Inl (if br_content r1 \<noteq> [] \<and> br_end r1 = EOF then UnexpectedEOF else br_end r1), r2)"
    by (rule br.ReadInt64_short)
  with r1 assms(4) have "tcp_switch cmdAdd r1 w = Some (Inl (if part = [] then EOF else UnexpectedEOF), r2, w)"
    by (simp add: tcp_switch_def cmd_defs)
  with assms(1) r1(1) show ?thesis by (subst tcp_runConn.simps) simp
qed

text \<open>After a client that disconnects in the middle of an \<open>Add\<close> request, \<open>Run\<close> returns an error
  when its listener is closed: the loop of the connection returns the read error, which
  cancels the pool, and \<open>Run\<close> reports it, also when it is a plain \<open>EOF\<close>.\<close>

lemma tcp_Run_disconnect:
  assumes "first_error wait" "errors_is e NetClosed"
    and "br_content r = cmdAdd # part" "length part < 8" "br_end r = EOF"
  shows "tcp_Run wait (\<lambda>cs. wait (conn_results (\<lambda>_. None) cs)) None (map Inr [(r, w)] @ [Inl e]) =
    Some (Errorf_w ''conn wait() errored'' (if part = [] then EOF else UnexpectedEOF))"
proof (rule tcp_Run_conn_error [OF assms(1,2)])
  have "conn_results (\<lambda>_. None) [(r, w)] = [Some (if part = [] then EOF else UnexpectedEOF)]"
    using tcp_truncated_add [where ctx = "\<lambda>_. None" and i = 0 and w = w, OF _ assms(3-5)]
    by (auto simp: conn_results_def)
  then show "Some (if part = [] then EOF else UnexpectedEOF) \<in> set (conn_results (\<lambda>_. None) [(r, w)])"
    and "Some err' \<in> set (conn_results (\<lambda>_. None) [(r, w)]) \<Longrightarrow>
      err' = (if part = [] then EOF else UnexpectedEOF)" for err'
    by simp_all
qed simp

lemma tcp_Run_disconnect_witness:
  "tcp_Run first_of (\<lambda>cs. first_of (conn_results (\<lambda>_. None) cs)) None
     (map Inr [(tcp_server_reader (Source [[2]] EOF),
                tcp_server_writer \<lparr>sk_out = [], sk_room = None, sk_err = EOF\<rparr>)] @ [Inl NetClosed]) =
   Some (Errorf_w ''conn wait() errored'' EOF)"
  using tcp_Run_disconnect [OF first_of_first_error, of NetClosed "tcp_server_reader (Source [[2]] EOF)" "[]"
      "tcp_server_writer \<lparr>sk_out = [], sk_room = None, sk_err = EOF\<rparr>"]
  by (simp add: tcp_server_reader_def br_content_def br_end_def src_content_def cmdAdd_def)

end
