(* ===== verification/ServerRun.thy ===== *)
theory ServerRun
  imports ServerLoop
begin

text \<open>
  The goroutines of the servers' \<open>Run\<close> methods as a step relation. \<open>Run\<close> of the TCP and of
  the go-capnp server is the same code: a task that closes the listener when the context
  ends, one that accepts connections and then waits for them, and one for each connection,
  in two pools of \<open>sourcegraph/conc\<close> with \<open>WithCancelOnError\<close> and \<open>WithFirstError\<close>. The
  systems differ in the task of a connection. The function \<open>tcp_Run\<close> of \<open>ServerLoop\<close> is shown
  to describe every run.
\<close>

section \<open>The state of a run\<close>

text \<open>
  A connection keeps the state its task left, with the value the task returned. The
  accepting task is in its loop, at \<open>connPool.Wait()\<close> with \<open>acceptErr\<close>, or over.
\<close>

datatype 'c conn = Running 'c | Ended 'c "go_error option"

datatype accepting = Accepting | Joining "go_error option" | Joined "go_error option"

text \<open>
  \<open>sv_done\<close>: the context given to \<open>Run\<close> is cancelled. \<open>sv_closer\<close>: the result of the task
  that closes the listener, which is open until then. The results of the tasks of a pool
  are in the order in which they returned. \<open>sv_returned\<close>: what \<open>Run\<close> has returned.
\<close>

record 'c server =
  sv_done :: bool
  sv_closer :: "go_error option option"
  sv_accepting :: accepting
  sv_conns :: "'c conn list"
  sv_conn_results :: "go_error option list"
  sv_results :: "go_error option list"
  sv_returned :: "go_error option option"

definition server_start :: "'c server" where
  "server_start =
     \<lparr>sv_done = False, sv_closer = None, sv_accepting = Accepting, sv_conns = [],
      sv_conn_results = [], sv_results = [], sv_returned = None\<rparr>"

text \<open>
  What a run depends on: what \<open>Wait\<close> of a pool returns and whether the pool has cancelled its
  context, both from the results of its tasks; the result of closing the listener; the
  states of a new connection; what the task of a connection can do next, where the empty
  list is a goroutine that is parked and the flag says whether its context is cancelled; and
  what the other end of a connection may do.
\<close>

record 'c run_env =
  re_wait :: "go_error option list \<Rightarrow> go_error option"
  re_cancelled :: "go_error option list \<Rightarrow> bool"
  re_close :: "go_error option"
  re_new :: "'c \<Rightarrow> bool"
  re_task :: "bool \<Rightarrow> 'c \<Rightarrow> ('c \<times> go_error option option) list"
  re_client :: "'c \<Rightarrow> 'c \<Rightarrow> bool"

text \<open>The pool \<open>g\<close> gives its tasks a context of its own, and \<open>connPool\<close> one below that.\<close>

definition group_cancelled :: "'c run_env \<Rightarrow> 'c server \<Rightarrow> bool" where
  "group_cancelled R s \<longleftrightarrow> sv_done s \<or> re_cancelled R (sv_results s)"

definition conns_cancelled :: "'c run_env \<Rightarrow> 'c server \<Rightarrow> bool" where
  "conns_cancelled R s \<longleftrightarrow> group_cancelled R s \<or> re_cancelled R (sv_conn_results s)"

section \<open>Steps\<close>

text \<open>Steps of the goroutines of \<open>Run\<close>.\<close>

inductive own_step :: "'c run_env \<Rightarrow> 'c server \<Rightarrow> 'c server \<Rightarrow> bool" for R where
  close_listener:
    "sv_closer s = None \<Longrightarrow> group_cancelled R s \<Longrightarrow>
     own_step R s (s\<lparr>sv_closer := Some (re_close R), sv_results := sv_results s @ [re_close R]\<rparr>)"
| accept_closed:
    "sv_accepting s = Accepting \<Longrightarrow> sv_closer s \<noteq> None \<Longrightarrow>
     own_step R s (s\<lparr>sv_accepting := Joining None\<rparr>)"
| conn_runs:
    "i < length (sv_conns s) \<Longrightarrow> sv_conns s ! i = Running c \<Longrightarrow>
     (c', None) \<in> set (re_task R (conns_cancelled R s) c) \<Longrightarrow>
     own_step R s (s\<lparr>sv_conns := (sv_conns s)[i := Running c']\<rparr>)"
| conn_returns:
    "i < length (sv_conns s) \<Longrightarrow> sv_conns s ! i = Running c \<Longrightarrow>
     (c', Some r) \<in> set (re_task R (conns_cancelled R s) c) \<Longrightarrow>
     own_step R s (s\<lparr>sv_conns := (sv_conns s)[i := Ended c' r],
                    sv_conn_results := sv_conn_results s @ [r]\<rparr>)"
| join_conns:
    "sv_accepting s = Joining acceptErr \<Longrightarrow> \<forall>c \<in> set (sv_conns s). \<exists>c' r. c = Ended c' r \<Longrightarrow>
     own_step R s (s\<lparr>sv_accepting := Joined acceptErr,
                    sv_results := sv_results s @ [accept_result acceptErr (re_wait R (sv_conn_results s))]\<rparr>)"
| run_returns:
    "sv_accepting s = Joined acceptErr \<Longrightarrow> sv_closer s \<noteq> None \<Longrightarrow> sv_returned s = None \<Longrightarrow>
     own_step R s (s\<lparr>sv_returned := Some (pool_run (re_wait R) (sv_results s))\<rparr>)"

text \<open>Steps of the rest of the world: the context, the listener and the other ends.\<close>

inductive outside_step :: "'c run_env \<Rightarrow> 'c server \<Rightarrow> 'c server \<Rightarrow> bool" for R where
  cancel: "outside_step R s (s\<lparr>sv_done := True\<rparr>)"
| connect:
    "sv_accepting s = Accepting \<Longrightarrow> sv_closer s = None \<Longrightarrow> re_new R c \<Longrightarrow>
     outside_step R s (s\<lparr>sv_conns := sv_conns s @ [Running c]\<rparr>)"
| accept_fails:
    "sv_accepting s = Accepting \<Longrightarrow> \<not> errors_is e NetClosed \<Longrightarrow>
     outside_step R s (s\<lparr>sv_accepting := Joining (Some e)\<rparr>)"
| client_acts:
    "i < length (sv_conns s) \<Longrightarrow> sv_conns s ! i = Running c \<Longrightarrow> re_client R c c' \<Longrightarrow>
     outside_step R s (s\<lparr>sv_conns := (sv_conns s)[i := Running c']\<rparr>)"

definition server_step :: "'c run_env \<Rightarrow> 'c server \<Rightarrow> 'c server \<Rightarrow> bool" where
  "server_step R s t \<longleftrightarrow> own_step R s t \<or> outside_step R s t"

definition server_reaches :: "'c run_env \<Rightarrow> 'c server \<Rightarrow> bool" where
  "server_reaches R s \<longleftrightarrow> (server_step R)\<^sup>*\<^sup>* server_start s"

text \<open>
  What is relied on of the pools: \<open>Wait\<close> returns the error of a task, and nil when none
  failed; the context of a pool is cancelled when a task has failed, and not before.
\<close>

definition conc_pools :: "'c run_env \<Rightarrow> bool" where
  "conc_pools R \<longleftrightarrow> first_error (re_wait R) \<and> (\<forall>rs. re_cancelled R rs \<longleftrightarrow> (\<exists>e. Some e \<in> set rs))"

section \<open>The order of the tasks\<close>

fun conn_ended :: "'c conn \<Rightarrow> bool" where
  "conn_ended (Ended c r) = True"
| "conn_ended (Running c) = False"

fun conn_state :: "'c conn \<Rightarrow> 'c" where
  "conn_state (Running c) = c"
| "conn_state (Ended c r) = c"

lemma conn_ended_iff: "conn_ended c \<longleftrightarrow> (\<exists>c' r. c = Ended c' r)"
  by (cases c) simp_all

text \<open>The results of \<open>g\<close>'s tasks that are over, up to their order.\<close>

fun joined_result :: "go_error option \<Rightarrow> accepting \<Rightarrow> go_error option set" where
  "joined_result waitErr (Joined acceptErr) = {accept_result acceptErr waitErr}"
| "joined_result waitErr _ = {}"

definition group_results :: "'c run_env \<Rightarrow> 'c server \<Rightarrow> go_error option set" where
  "group_results R s =
     set_option (sv_closer s) \<union> joined_result (re_wait R (sv_conn_results s)) (sv_accepting s)"

lemma joined_result_running [simp]:
  "\<forall>acceptErr. acc \<noteq> Joined acceptErr \<Longrightarrow> joined_result w acc = {}"
  by (cases acc) simp_all

definition server_inv :: "'c run_env \<Rightarrow> 'c server \<Rightarrow> bool" where
  "server_inv R s \<longleftrightarrow>
     set (sv_results s) = group_results R s \<and>
     set (sv_conn_results s) = {r. \<exists>c. Ended c r \<in> set (sv_conns s)} \<and>
     (sv_closer s = None \<or> sv_closer s = Some (re_close R)) \<and>
     (\<forall>acceptErr. sv_accepting s = Joined acceptErr \<longrightarrow> (\<forall>c \<in> set (sv_conns s). conn_ended c)) \<and>
     (sv_accepting s \<in> {Joining None, Joined None} \<longrightarrow> sv_closer s \<noteq> None) \<and>
     (\<forall>e. sv_accepting s \<in> {Joining (Some e), Joined (Some e)} \<longrightarrow> \<not> errors_is e NetClosed) \<and>
     (\<forall>r. sv_returned s = Some r \<longrightarrow> sv_closer s \<noteq> None \<and>
        (\<exists>acceptErr. sv_accepting s = Joined acceptErr) \<and> r = pool_run (re_wait R) (sv_results s))"

lemma server_inv_start: "server_inv R server_start"
  by (simp add: server_inv_def server_start_def group_results_def)

lemma Ended_in_update:
  assumes "xs ! i = Running c" "i < length xs"
  shows "Ended a r \<in> set (xs[i := y]) \<longleftrightarrow> Ended a r \<in> set xs \<or> y = Ended a r"
  using assms by (auto simp: in_set_conv_nth nth_list_update) (metis conn.distinct(1))+

lemma running_not_joined:
  assumes "server_inv R s" "i < length (sv_conns s)" "sv_conns s ! i = Running c"
  shows "sv_accepting s \<noteq> Joined acceptErr"
  using assms by (auto simp: server_inv_def dest!: nth_mem)

lemma own_step_inv:
  assumes "own_step R s t" "server_inv R s"
  shows "server_inv R t"
  using assms(1)
proof (cases rule: own_step.cases)
  case close_listener
  with assms(2) show ?thesis
    by (auto simp: server_inv_def group_results_def)
next
  case accept_closed
  with assms(2) show ?thesis
    by (auto simp: server_inv_def group_results_def)
next
  case (conn_runs i c c')
  note running_not_joined [OF assms(2) conn_runs(2,3)]
  with conn_runs assms(2) show ?thesis
    by (auto simp: server_inv_def group_results_def Ended_in_update split: accepting.splits)
next
  case (conn_returns i c c' r)
  note running_not_joined [OF assms(2) conn_returns(2,3)]
  with conn_returns assms(2) show ?thesis
    by (auto simp: server_inv_def group_results_def Ended_in_update split: accepting.splits)
next
  case (join_conns acceptErr)
  with assms(2) show ?thesis
    by (auto simp: server_inv_def group_results_def conn_ended_iff)
next
  case (run_returns acceptErr)
  with assms(2) show ?thesis
    by (auto simp: server_inv_def group_results_def)
qed

lemma outside_step_inv:
  assumes "outside_step R s t" "server_inv R s"
  shows "server_inv R t"
  using assms(1)
proof (cases rule: outside_step.cases)
  case (client_acts i c c')
  note running_not_joined [OF assms(2) client_acts(2,3)]
  with client_acts assms(2) show ?thesis
    by (auto simp: server_inv_def group_results_def Ended_in_update split: accepting.splits)
qed (use assms(2) in \<open>auto simp: server_inv_def group_results_def\<close>)

lemma server_reaches_inv: "server_reaches R s \<Longrightarrow> server_inv R s"
  unfolding server_reaches_def
  by (induction rule: rtranclp_induct)
    (use server_inv_start own_step_inv outside_step_inv in \<open>auto simp: server_step_def\<close>)

text \<open>The listener is closed when the context is cancelled or when accepting failed.\<close>

definition close_reason :: "'c server \<Rightarrow> bool" where
  "close_reason s \<longleftrightarrow>
     sv_closer s \<noteq> None \<longrightarrow> sv_done s \<or> (\<exists>e. sv_accepting s = Joined (Some e))"

lemma server_step_close_reason:
  assumes "server_step R s t" "server_inv R s" "conc_pools R" "close_reason s"
  shows "close_reason t"
  using assms(1) unfolding server_step_def
proof
  assume "own_step R s t"
  then show ?thesis
  proof (cases rule: own_step.cases)
    case close_listener
    moreover have "set (sv_results s) = group_results R s" "sv_accepting s \<noteq> Joined None"
      using assms(2) close_listener(2) by (auto simp: server_inv_def)
    moreover from this have "sv_accepting s = Joined acceptErr \<Longrightarrow> acceptErr \<noteq> None" for acceptErr
      by auto
    ultimately show ?thesis
      using assms(3)
      by (cases "sv_accepting s")
        (auto simp: close_reason_def group_cancelled_def conc_pools_def group_results_def)
  qed (use assms(4) in \<open>auto simp: close_reason_def\<close>)
next
  assume "outside_step R s t"
  then show ?thesis
    by (cases rule: outside_step.cases) (use assms(4) in \<open>auto simp: close_reason_def\<close>)
qed

lemma server_reaches_close_reason:
  assumes "server_reaches R s" "conc_pools R"
  shows "close_reason s"
proof -
  have "server_reaches R s \<and> close_reason s" if "(server_step R)\<^sup>*\<^sup>* server_start s" for s
    using that
  proof induction
    case base
    then show ?case by (simp add: server_reaches_def close_reason_def server_start_def)
  next
    case (step s t)
    then show ?case
      using server_step_close_reason [OF step(2) server_reaches_inv assms(2)]
      by (auto simp: server_reaches_def)
  qed
  with assms(1) show ?thesis unfolding server_reaches_def by blast
qed

lemma pool_run_pair:
  assumes "first_error wait" "set rs = {None, r}"
  shows "pool_run wait rs = pool_run wait [None, r]"
proof -
  have "wait xs = r" if "set xs = {None, r}" for xs
    using first_errorD [OF assms(1), of xs] that by (cases "wait xs"; cases r) auto
  with assms(2) show ?thesis by (simp add: pool_run_def)
qed

lemma server_returned:
  assumes "server_reaches R s" "conc_pools R" "re_close R = None" "sv_returned s = Some r"
  obtains e where "sv_accepting s = Joined (if errors_is e NetClosed then None else Some e)"
    "r = tcp_Run (re_wait R) (\<lambda>_. re_wait R (sv_conn_results s)) None (map Inr (sv_conns s) @ [Inl e])"
proof -
  have inv: "server_inv R s" using assms(1) by (rule server_reaches_inv)
  then obtain acceptErr where acc: "sv_accepting s = Joined acceptErr" "sv_closer s = Some None"
      "r = pool_run (re_wait R) (sv_results s)"
      "set (sv_results s) = {None, accept_result acceptErr (re_wait R (sv_conn_results s))}"
    using assms(3,4) by (auto simp: server_inv_def group_results_def)
  have first: "first_error (re_wait R)" using assms(2) by (simp add: conc_pools_def)
  obtain e where e: "acceptErr = (if errors_is e NetClosed then None else Some e)"
  proof (cases acceptErr)
    case None
    then show ?thesis using that [of NetClosed] by simp
  next
    case (Some e)
    then have "\<not> errors_is e NetClosed" using inv acc(1) by (auto simp: server_inv_def)
    with Some show ?thesis using that [of e] by simp
  qed
  have "accept_task (\<lambda>_. w) (map Inr (sv_conns s) @ [Inl e]) = accept_result acceptErr w" for w
    using e by (simp add: accept_task_def accept_loop_closed accept_loop_failed)
  with pool_run_pair [OF first acc(4)] acc(3) have
    "r = tcp_Run (re_wait R) (\<lambda>_. re_wait R (sv_conn_results s)) None (map Inr (sv_conns s) @ [Inl e])"
    by (simp add: tcp_Run_def)
  with that acc(1) e show ?thesis by blast
qed

section \<open>The end of a run\<close>

text \<open>
  A task of a connection whose context is cancelled comes to an end, or is parked. That is
  what \<open>task_rank\<close> says; the rest of a run ends by itself.
\<close>

fun conn_rank :: "('c \<Rightarrow> nat) \<Rightarrow> 'c conn \<Rightarrow> nat" where
  "conn_rank f (Running c) = Suc (f c)"
| "conn_rank f (Ended c r) = 0"

fun accepting_rank :: "accepting \<Rightarrow> nat" where
  "accepting_rank Accepting = 2"
| "accepting_rank (Joining acceptErr) = 1"
| "accepting_rank (Joined acceptErr) = 0"

definition server_rank :: "('c \<Rightarrow> nat) \<Rightarrow> 'c server \<Rightarrow> nat" where
  "server_rank f s =
     (if sv_closer s = None then 1 else 0) + accepting_rank (sv_accepting s) +
     sum_list (map (conn_rank f) (sv_conns s)) + (if sv_returned s = None then 1 else 0)"

definition parked :: "'c run_env \<Rightarrow> 'c server \<Rightarrow> 'c \<Rightarrow> bool" where
  "parked R s c \<longleftrightarrow> Running c \<in> set (sv_conns s) \<and> re_task R (conns_cancelled R s) c = []"

locale conn_tasks =
  fixes R :: "'c run_env" and task_rank :: "'c \<Rightarrow> nat"
  assumes task_ends: "(c', None) \<in> set (re_task R True c) \<Longrightarrow> task_rank c' < task_rank c"
begin

lemma own_step_rank:
  assumes "own_step R s t" "sv_done s"
  shows "server_rank task_rank t < server_rank task_rank s"
proof -
  have upd: "sum_list ((map (conn_rank task_rank) (sv_conns s))[i := k]) <
      sum_list (map (conn_rank task_rank) (sv_conns s))"
    if "i < length (sv_conns s)" "k < conn_rank task_rank (sv_conns s ! i)" for i k
  proof -
    have "conn_rank task_rank (sv_conns s ! i) \<le> sum_list (map (conn_rank task_rank) (sv_conns s))"
      using that(1) by (metis elem_le_sum_list length_map nth_map)
    then show ?thesis using that by (simp add: sum_list_update)
  qed
  have canc: "conns_cancelled R s" using assms(2) by (simp add: conns_cancelled_def group_cancelled_def)
  from assms(1) show ?thesis
  proof (cases rule: own_step.cases)
    case (conn_runs i c c')
    then have "conn_rank task_rank (Running c') < conn_rank task_rank (sv_conns s ! i)"
      using canc task_ends by simp
    from upd [OF conn_runs(2) this] show ?thesis using conn_runs by (simp add: server_rank_def map_update)
  next
    case (conn_returns i c c' r)
    then have "conn_rank task_rank (Ended c' r) < conn_rank task_rank (sv_conns s ! i)" by simp
    from upd [OF conn_returns(2) this] show ?thesis using conn_returns by (simp add: server_rank_def map_update)
  qed (auto simp: server_rank_def)
qed

lemma server_stuck:
  assumes "\<nexists>t. own_step R s t" "sv_done s" "sv_returned s = None"
  shows "\<exists>c. parked R s c"
proof (rule ccontr)
  assume none: "\<nexists>c. parked R s c"
  have closed: "sv_closer s \<noteq> None"
    using own_step.close_listener [of s R] assms(1,2) by (auto simp: group_cancelled_def)
  have ended: "\<exists>c' r. c = Ended c' r" if c: "c \<in> set (sv_conns s)" for c
  proof (cases c)
    case (Running a)
    obtain i where i: "i < length (sv_conns s)" "sv_conns s ! i = Running a"
      using c Running by (metis in_set_conv_nth)
    have "re_task R (conns_cancelled R s) a \<noteq> []"
      using none c Running by (auto simp: parked_def)
    then obtain a' r where "(a', r) \<in> set (re_task R (conns_cancelled R s) a)"
      by (cases "re_task R (conns_cancelled R s) a") auto
    with own_step.conn_runs [OF i] own_step.conn_returns [OF i] assms(1) show ?thesis
      by (cases r) blast+
  qed blast
  show False
  proof (cases "sv_accepting s")
    case Accepting
    then show False using own_step.accept_closed [of s R] closed assms(1) by blast
  next
    case (Joining acceptErr)
    then show False using own_step.join_conns [of s acceptErr R] ended assms(1) by blast
  next
    case (Joined acceptErr)
    then show False using own_step.run_returns [of s acceptErr R] closed assms by blast
  qed
qed

text \<open>The goroutines of a run, left alone with a cancelled context.\<close>

lemma server_completes:
  assumes "sv_done s"
  shows "\<exists>t. (own_step R)\<^sup>*\<^sup>* s t \<and> sv_done t \<and> (\<nexists>u. own_step R t u)"
  using assms
proof (induction "server_rank task_rank s" arbitrary: s rule: less_induct)
  case less
  show ?case
  proof (cases "\<exists>t. own_step R s t")
    case True
    then obtain t where t: "own_step R s t" by blast
    then have "sv_done t" using less.prems by (cases rule: own_step.cases) simp_all
    with less.hyps [of t] own_step_rank [OF t less.prems] obtain u where
      "(own_step R)\<^sup>*\<^sup>* t u" "sv_done u" "\<nexists>v. own_step R u v" by blast
    with t show ?thesis by (meson converse_rtranclp_into_rtranclp)
  qed (use less.prems in blast)
qed

end

section \<open>The TCP server\<close>

text \<open>
  A connection of \<open>runConn\<close>: at the check of its context or past it, its buffers, and all
  bytes the client has sent. A round is one step, taken when the bytes it needs have
  arrived. Past the check nothing but the connection wakes the task: it is parked while the
  round has too few bytes, and it spins in a \<open>ToHex\<close> request that is too long.
\<close>

datatype tcp_pc = AtHead | Reading

record tcp_conn =
  tcn_pc :: tcp_pc
  tcn_reader :: breader
  tcn_writer :: bwriter
  tcn_sent :: "byte list"

definition tcp_accepted :: tcp_conn where
  "tcp_accepted =
     \<lparr>tcn_pc = AtHead, tcn_reader = tcp_server_reader (Source [] Blocked),
      tcn_writer = tcp_server_writer \<lparr>sk_out = [], sk_room = None, sk_err = EOF\<rparr>, tcn_sent = []\<rparr>"

definition tcp_task :: "bool \<Rightarrow> tcp_conn \<Rightarrow> (tcp_conn \<times> go_error option option) list" where
  "tcp_task cancelled c =
     (case tcn_pc c of
        AtHead \<Rightarrow> if cancelled then [(c, Some (Some Canceled))] else [(c\<lparr>tcn_pc := Reading\<rparr>, None)]
      | Reading \<Rightarrow>
          (case tcp_round (tcn_reader c) (tcn_writer c) of
             None \<Rightarrow> []
           | Some (res, r, w) \<Rightarrow>
               if res = Some (Some Blocked) then []
               else [(c\<lparr>tcn_pc := AtHead, tcn_reader := r, tcn_writer := w\<rparr>, res)]))"

text \<open>
  What arrives from the other end: bytes, in any pieces; the end of the stream or a reset;
  and the refusal of what the server writes.
\<close>

definition tcp_arrive :: "byte list list \<Rightarrow> go_error \<Rightarrow> tcp_conn \<Rightarrow> tcp_conn" where
  "tcp_arrive bss e c =
     c\<lparr>tcn_reader := (tcn_reader c)\<lparr>br_src := Source (src_chunks (br_src (tcn_reader c)) @ bss) e\<rparr>,
       tcn_sent := tcn_sent c @ concat bss\<rparr>"

inductive tcp_any_client :: "tcp_conn \<Rightarrow> tcp_conn \<Rightarrow> bool" where
  arrives: "br_end (tcn_reader c) = Blocked \<Longrightarrow> tcp_any_client c (tcp_arrive bss e c)"
| refuses: "tcp_any_client c
     (c\<lparr>tcn_writer := (tcn_writer c)\<lparr>bw_dst := (bw_dst (tcn_writer c))\<lparr>sk_room := Some 0, sk_err := e\<rparr>\<rparr>\<rparr>)"

text \<open>
  A client that keeps to the protocol: one valid request at a time, and it hangs up when no
  answer is due.
\<close>

inductive tcp_good_client :: "tcp_conn \<Rightarrow> tcp_conn \<Rightarrow> bool" where
  sends: "br_content (tcn_reader c) = [] \<Longrightarrow> br_end (tcn_reader c) = Blocked \<Longrightarrow> bin_valid call \<Longrightarrow>
     concat bss = bin_request call \<Longrightarrow> tcp_good_client c (tcp_arrive bss Blocked c)"
| hangs_up: "br_content (tcn_reader c) = [] \<Longrightarrow> br_end (tcn_reader c) = Blocked \<Longrightarrow>
     tcp_good_client c (tcp_arrive [] EOF c)"

definition tcp_server_env ::
  "(go_error option list \<Rightarrow> go_error option) \<Rightarrow> (go_error option list \<Rightarrow> bool) \<Rightarrow>
     (tcp_conn \<Rightarrow> tcp_conn \<Rightarrow> bool) \<Rightarrow> tcp_conn run_env"
where
  "tcp_server_env wait cancelled client =
     \<lparr>re_wait = wait, re_cancelled = cancelled, re_close = None, re_new = (\<lambda>c. c = tcp_accepted),
      re_task = tcp_task, re_client = client\<rparr>"

lemma tcp_server_env_simps [simp]:
  "re_wait (tcp_server_env wait cancelled client) = wait"
  "re_cancelled (tcp_server_env wait cancelled client) = cancelled"
  "re_close (tcp_server_env wait cancelled client) = None"
  "re_new (tcp_server_env wait cancelled client) c \<longleftrightarrow> c = tcp_accepted"
  "re_task (tcp_server_env wait cancelled client) = tcp_task"
  "re_client (tcp_server_env wait cancelled client) = client"
  by (simp_all add: tcp_server_env_def)

fun tcp_pc_rank :: "tcp_pc \<Rightarrow> nat" where
  "tcp_pc_rank Reading = 1"
| "tcp_pc_rank AtHead = 0"

interpretation tcp_tasks: conn_tasks "tcp_server_env wait cancelled client" "\<lambda>c. tcp_pc_rank (tcn_pc c)"
  for wait cancelled client
  by unfold_locales
    (auto simp: tcp_task_def split: tcp_pc.splits option.splits if_splits)

subsection \<open>After a failed connection\<close>

definition tcp_out :: "tcp_conn \<Rightarrow> byte list" where
  "tcp_out c = sk_out (bw_dst (tcn_writer c))"

text \<open>A connection that will write nothing more once its context is cancelled.\<close>

definition silent :: "byte list \<Rightarrow> tcp_conn conn \<Rightarrow> bool" where
  "silent out c \<longleftrightarrow> tcp_out (conn_state c) = out \<and> (conn_ended c \<or> tcn_pc (conn_state c) = AtHead)"

lemma tcp_client_keeps:
  assumes "tcp_any_client c c'"
  shows "tcn_pc c' = tcn_pc c" "tcp_out c' = tcp_out c"
  using assms by (auto simp: tcp_arrive_def tcp_out_def elim!: tcp_any_client.cases)

lemma silent_update:
  assumes "silent out (xs ! i)" "i < length xs" "j < length xs" "xs ! j = Running c"
    and "silent out (Running c) \<Longrightarrow> silent out y"
  shows "silent out (xs[j := y] ! i)"
  using assms by (cases "i = j") simp_all

text \<open>In a step with a cancelled pool every silent connection stays silent, a new one is.\<close>

definition quiet_after :: "tcp_conn conn list \<Rightarrow> tcp_conn conn list \<Rightarrow> bool" where
  "quiet_after xs ys \<longleftrightarrow> length xs \<le> length ys \<and>
     (\<forall>i out. i < length xs \<longrightarrow> silent out (xs ! i) \<longrightarrow> silent out (ys ! i)) \<and>
     (\<forall>i. length xs \<le> i \<longrightarrow> i < length ys \<longrightarrow> silent [] (ys ! i))"

lemma quiet_after_refl [simp]: "quiet_after xs xs"
  by (simp add: quiet_after_def)

lemma quiet_after_trans: "quiet_after xs ys \<Longrightarrow> quiet_after ys zs \<Longrightarrow> quiet_after xs zs"
  unfolding quiet_after_def by (meson le_trans less_le_trans not_less)

lemma quiet_after_update:
  assumes "i < length xs" "xs ! i = Running c" "\<And>out. silent out (Running c) \<Longrightarrow> silent out y"
  shows "quiet_after xs (xs[i := y])"
  using assms silent_update by (auto simp: quiet_after_def)

lemma tcp_task_silent:
  assumes "(c', res) \<in> set (tcp_task True c)" "silent out (Running c)"
  shows "silent out (case res of None \<Rightarrow> Running c' | Some r \<Rightarrow> Ended c' r)"
  using assms by (auto simp: tcp_task_def silent_def split: tcp_pc.splits)

lemma server_step_quiet:
  assumes "server_step (tcp_server_env wait cancelled tcp_any_client) s t"
    and "conns_cancelled (tcp_server_env wait cancelled tcp_any_client) s"
  shows "quiet_after (sv_conns s) (sv_conns t)"
proof -
  let ?R = "tcp_server_env wait cancelled tcp_any_client"
  from assms(1) consider "own_step ?R s t" | "outside_step ?R s t" by (auto simp: server_step_def)
  then show ?thesis
  proof cases
    case 1
    then show ?thesis
    proof (cases rule: own_step.cases)
      case (conn_runs i c c')
      with tcp_task_silent [of c' None c] assms(2)
        quiet_after_update [OF conn_runs(2,3), of "Running c'"] show ?thesis by simp
    next
      case (conn_returns i c c' r)
      with tcp_task_silent [of c' "Some r" c] assms(2)
        quiet_after_update [OF conn_returns(2,3), of "Ended c' r"] show ?thesis by simp
    qed simp_all
  next
    case 2
    then show ?thesis
    proof (cases rule: outside_step.cases)
      case (connect c)
      then show ?thesis
        by (auto simp: quiet_after_def nth_append silent_def tcp_accepted_def
            tcp_out_def tcp_server_writer_def)
    next
      case (client_acts i c c')
      then have "tcp_any_client c c'" by simp
      from tcp_client_keeps [OF this] client_acts
        quiet_after_update [OF client_acts(2,3), of "Running c'"] show ?thesis
        by (simp add: silent_def)
    qed simp_all
  qed
qed

lemma server_step_conn_results:
  "server_step R s t \<Longrightarrow> set (sv_conn_results s) \<subseteq> set (sv_conn_results t)"
  by (auto simp: server_step_def elim!: own_step.cases outside_step.cases)

lemma failed_conn_cancels:
  "conc_pools R \<Longrightarrow> Some e \<in> set (sv_conn_results s) \<Longrightarrow> conns_cancelled R s"
  by (auto simp: conc_pools_def conns_cancelled_def)

lemma quiet_after_failure:
  assumes "(server_step (tcp_server_env wait cancelled tcp_any_client))\<^sup>*\<^sup>* s t"
    and "conc_pools (tcp_server_env wait cancelled tcp_any_client)"
    and "Some e \<in> set (sv_conn_results s)"
  shows "quiet_after (sv_conns s) (sv_conns t) \<and> Some e \<in> set (sv_conn_results t)"
  using assms(1)
proof induction
  case base
  then show ?case using assms(3) by simp
next
  case (step t u)
  then show ?case
    using server_step_quiet [OF step(2) failed_conn_cancels [OF assms(2)]] server_step_conn_results
    by (meson quiet_after_trans subsetD)
qed

subsection \<open>Clients that keep to the protocol\<close>

text \<open>
  The state of a connection in terms of the requests it got: \<open>cs\<close> are answered, and at most
  one more is \<open>due\<close>, whose bytes are still to be read.
\<close>

definition tcp_served :: "tcp_conn \<Rightarrow> bool" where
  "tcp_served c \<longleftrightarrow>
     bw_reliable (tcn_writer c) \<and> bw_buf (tcn_writer c) = [] \<and>
     br_end (tcn_reader c) \<in> {Blocked, EOF} \<and>
     (\<exists>cs due. (\<forall>q \<in> set (cs @ due). bin_valid q) \<and> length due \<le> 1 \<and>
        tcn_sent c = concat (map bin_request (cs @ due)) \<and> tcp_out c = concat (map bin_reply cs) \<and>
        br_content (tcn_reader c) = concat (map bin_request due) \<and>
        (due \<noteq> [] \<longrightarrow> br_end (tcn_reader c) = Blocked))"

lemma bin_request_not_Nil [simp]: "bin_request c \<noteq> []"
  by (cases c) simp_all

lemma tcp_served_cases:
  assumes "tcp_served c"
  obtains (idle) cs where "\<forall>q \<in> set cs. bin_valid q" "tcn_sent c = concat (map bin_request cs)"
    "br_content (tcn_reader c) = []" "tcp_out c = concat (map bin_reply cs)"
  | (due) cs q where "\<forall>q \<in> set cs. bin_valid q" "bin_valid q"
    "tcn_sent c = concat (map bin_request (cs @ [q]))" "br_content (tcn_reader c) = bin_request q"
    "br_end (tcn_reader c) = Blocked" "tcp_out c = concat (map bin_reply cs)"
proof -
  from assms obtain cs due where cs: "\<forall>q \<in> set (cs @ due). bin_valid q" "length due \<le> 1"
      "tcn_sent c = concat (map bin_request (cs @ due))" "tcp_out c = concat (map bin_reply cs)"
      "br_content (tcn_reader c) = concat (map bin_request due)"
      "due \<noteq> [] \<longrightarrow> br_end (tcn_reader c) = Blocked"
    unfolding tcp_served_def by blast
  from cs(2) consider "due = []" | q where "due = [q]" by (cases due) auto
  then show ?thesis using cs that by cases auto
qed

lemma tcp_served_idle:
  assumes "bw_reliable (tcn_writer c)" "bw_buf (tcn_writer c) = []" "br_end (tcn_reader c) \<in> {Blocked, EOF}"
    and "\<forall>q \<in> set cs. bin_valid q" "tcn_sent c = concat (map bin_request cs)"
    and "br_content (tcn_reader c) = []" "tcp_out c = concat (map bin_reply cs)"
  shows "tcp_served c"
  using assms unfolding tcp_served_def by (intro conjI exI [of _ cs] exI [of _ "[]"]) auto

lemma tcp_accepted_served: "tcp_served tcp_accepted"
  by (rule tcp_served_idle [of _ "[]"])
    (simp_all add: tcp_accepted_def tcp_server_reader_def tcp_server_writer_def
      br_content_def br_end_def src_content_def bw_reliable_def tcp_out_def)

lemma tcp_arrive_simps:
  "br_content (tcn_reader (tcp_arrive bss e c)) = br_content (tcn_reader c) @ concat bss"
  "br_end (tcn_reader (tcp_arrive bss e c)) = e"
  "tcn_writer (tcp_arrive bss e c) = tcn_writer c" "tcn_sent (tcp_arrive bss e c) = tcn_sent c @ concat bss"
  by (simp_all add: tcp_arrive_def br_content_def br_end_def src_content_def)

lemma tcp_good_client_served:
  assumes "tcp_good_client c c'" "tcp_served c"
  shows "tcp_served c'"
proof -
  have empty: "br_content (tcn_reader c) = []" using assms(1) by (auto elim: tcp_good_client.cases)
  with assms(2) obtain cs where cs: "\<forall>q \<in> set cs. bin_valid q"
      "tcn_sent c = concat (map bin_request cs)" "tcp_out c = concat (map bin_reply cs)"
    by (auto elim: tcp_served_cases)
  have io: "bw_reliable (tcn_writer c)" "bw_buf (tcn_writer c) = []"
    using assms(2) by (simp_all add: tcp_served_def)
  from assms(1) show ?thesis
  proof (cases rule: tcp_good_client.cases)
    case (sends call bss)
    then have c': "tcn_writer c' = tcn_writer c" "tcn_sent c' = tcn_sent c @ bin_request call"
        "br_content (tcn_reader c') = bin_request call" "br_end (tcn_reader c') = Blocked"
      using empty by (simp_all add: tcp_arrive_simps)
    with cs io sends(4) show ?thesis
      unfolding tcp_served_def tcp_out_def
      by (intro conjI exI [of _ cs] exI [of _ "[call]"]) (auto simp: tcp_out_def)
  next
    case hangs_up
    then have "tcn_writer c' = tcn_writer c" "tcn_sent c' = tcn_sent c"
        "br_content (tcn_reader c') = []" "br_end (tcn_reader c') = EOF"
      using empty by (simp_all add: tcp_arrive_simps)
    with cs io show ?thesis
      by (intro tcp_served_idle [of _ cs]) (auto simp: tcp_out_def)
  qed
qed

text \<open>A request that is due is answered by the next round.\<close>

lemma tcp_task_due:
  assumes "bin_valid q" "br_content (tcn_reader c) = bin_request q" "bw_reliable (tcn_writer c)"
    and "bw_buf (tcn_writer c) = []" "tcn_pc c = Reading"
  obtains c' where "tcp_task cancelled c = [(c', None)]" "br_content (tcn_reader c') = []"
    "br_end (tcn_reader c') = br_end (tcn_reader c)" "bw_reliable (tcn_writer c')"
    "bw_buf (tcn_writer c') = []" "tcp_out c' = tcp_out c @ bin_reply q" "tcn_sent c' = tcn_sent c"
proof -
  have "br_content (tcn_reader c) = bin_request q @ []" using assms(2) by simp
  then obtain r w where rw: "tcp_round (tcn_reader c) (tcn_writer c) = Some (None, r, w)"
      "br_content r = []" "br_end r = br_end (tcn_reader c)" "bw_reliable w" "bw_buf w = []"
      "sk_out (bw_dst w) = bw_out (tcn_writer c) @ bin_reply q"
    using tcp_round_call [OF assms(1) _ _ assms(3)] by blast
  then show ?thesis
    using assms(4,5)
    by (intro that [of "c\<lparr>tcn_pc := AtHead, tcn_reader := r, tcn_writer := w\<rparr>"])
      (simp_all add: tcp_task_def tcp_out_def bw_out_flushed)
qed

text \<open>Past the check of its context the task answers; at the head it goes on when not cancelled.\<close>

lemma tcp_due_answered:
  assumes "i < length (sv_conns s)" "sv_conns s ! i = Running c" "bin_valid q"
    and "br_content (tcn_reader c) = bin_request q" "bw_reliable (tcn_writer c)" "bw_buf (tcn_writer c) = []"
    and "tcn_pc c = Reading \<or> \<not> conns_cancelled (tcp_server_env wait cancelled client) s"
  shows "\<exists>t. (own_step (tcp_server_env wait cancelled client))\<^sup>*\<^sup>* s t \<and>
    tcp_out (conn_state (sv_conns t ! i)) = tcp_out c @ bin_reply q"
proof -
  let ?R = "tcp_server_env wait cancelled client"
  have reading: "\<exists>t. own_step ?R s t \<and> tcp_out (conn_state (sv_conns t ! i)) = tcp_out c @ bin_reply q"
    if at: "i < length (sv_conns s)" "sv_conns s ! i = Running c" and c: "tcn_pc c = Reading"
      "br_content (tcn_reader c) = bin_request q" "bw_reliable (tcn_writer c)" "bw_buf (tcn_writer c) = []" for s c
  proof -
    obtain c' where c': "tcp_task (conns_cancelled ?R s) c = [(c', None)]" "tcp_out c' = tcp_out c @ bin_reply q"
      using tcp_task_due [OF assms(3) c(2,3,4,1), where cancelled = "conns_cancelled ?R s"] by metis
    with own_step.conn_runs [OF at, of c' ?R] at(1) show ?thesis
      by (intro exI [of _ "s\<lparr>sv_conns := (sv_conns s)[i := Running c']\<rparr>"]) simp
  qed
  show ?thesis
  proof (cases "tcn_pc c")
    case Reading
    then show ?thesis using reading [OF assms(1,2) _ assms(4-6)] by (meson r_into_rtranclp)
  next
    case AtHead
    let ?c = "c\<lparr>tcn_pc := Reading\<rparr>" and ?s = "s\<lparr>sv_conns := (sv_conns s)[i := Running (c\<lparr>tcn_pc := Reading\<rparr>)]\<rparr>"
    have "own_step ?R s ?s"
      using own_step.conn_runs [OF assms(1,2), of ?c ?R] assms(7) AtHead by (simp add: tcp_task_def)
    moreover obtain t where "own_step ?R ?s t" "tcp_out (conn_state (sv_conns t ! i)) = tcp_out ?c @ bin_reply q"
      using reading [of ?s ?c] assms(1,4-6) by auto
    moreover have "tcp_out ?c = tcp_out c" by (simp add: tcp_out_def)
    ultimately show ?thesis by (metis converse_rtranclp_into_rtranclp r_into_rtranclp)
  qed
qed

lemma tcp_task_idle:
  assumes "br_content (tcn_reader c) = []" "tcn_pc c = Reading"
  obtains "br_end (tcn_reader c) = Blocked" "tcp_task cancelled c = []"
  | c' where "br_end (tcn_reader c) \<noteq> Blocked" "br_content (tcn_reader c') = []"
    "br_end (tcn_reader c') = br_end (tcn_reader c)" "tcn_writer c' = tcn_writer c"
    "tcn_sent c' = tcn_sent c"
    "tcp_task cancelled c =
       [(c', Some (if errors_is (br_end (tcn_reader c)) EOF then None else Some (br_end (tcn_reader c))))]"
proof -
  obtain r where r: "tcp_round (tcn_reader c) (tcn_writer c) =
      Some (Some (if errors_is (br_end (tcn_reader c)) EOF then None else Some (br_end (tcn_reader c))),
        r, tcn_writer c)" "br_content r = []" "br_end r = br_end (tcn_reader c)"
    using assms(1) by (rule tcp_round_end)
  show ?thesis
  proof (cases "br_end (tcn_reader c) = Blocked")
    case True
    then show ?thesis using r(1) assms(2) by (intro that(1)) (simp_all add: tcp_task_def)
  next
    case False
    then show ?thesis
      using r assms(2)
      by (intro that(2) [of "c\<lparr>tcn_pc := AtHead, tcn_reader := r\<rparr>"]) (auto simp: tcp_task_def)
  qed
qed

lemma tcp_task_served:
  assumes "tcp_served c" "(c', res) \<in> set (tcp_task cancelled c)"
  shows "tcp_served c'" "res \<in> {None, Some None, Some (Some Canceled)}"
proof -
  have io: "bw_reliable (tcn_writer c)" "bw_buf (tcn_writer c) = []" "br_end (tcn_reader c) \<in> {Blocked, EOF}"
    using assms(1) by (simp_all add: tcp_served_def)
  have "tcp_served c' \<and> res \<in> {None, Some None, Some (Some Canceled)}"
  proof (cases "tcn_pc c")
    case AtHead
    with assms show ?thesis
      by (cases cancelled) (simp_all add: tcp_task_def tcp_served_def tcp_out_def)
  next
    case Reading
    from assms(1) show ?thesis
    proof (cases rule: tcp_served_cases)
      case (idle cs)
      from idle(3) Reading show ?thesis
      proof (cases rule: tcp_task_idle [where cancelled = cancelled])
        case (2 c'')
        with assms(2) idle io show ?thesis
          by (auto simp: tcp_out_def intro!: tcp_served_idle [of _ cs])
      qed (use assms(2) in simp)
    next
      case (due cs q)
      obtain c'' where c'': "tcp_task cancelled c = [(c'', None)]" "br_content (tcn_reader c'') = []"
          "br_end (tcn_reader c'') = br_end (tcn_reader c)" "bw_reliable (tcn_writer c'')"
          "bw_buf (tcn_writer c'') = []" "tcp_out c'' = tcp_out c @ bin_reply q"
          "tcn_sent c'' = tcn_sent c"
        using due(2,4) io(1,2) Reading by (rule tcp_task_due)
      with assms(2) due show ?thesis
        by (auto intro!: tcp_served_idle [of _ "cs @ [q]"])
    qed
  qed
  then show "tcp_served c'" "res \<in> {None, Some None, Some (Some Canceled)}" by simp_all
qed

text \<open>A run whose clients keep to the protocol has no failed connection.\<close>

definition good_run :: "tcp_conn server \<Rightarrow> bool" where
  "good_run s \<longleftrightarrow> (\<forall>c \<in> set (sv_conns s). tcp_served (conn_state c)) \<and>
     set (sv_conn_results s) \<subseteq> {None, Some Canceled}"

lemma good_run_update:
  assumes "good_run s" "tcp_served (conn_state y)"
  shows "\<forall>c \<in> set ((sv_conns s)[i := y]). tcp_served (conn_state c)"
  using assms set_update_subset_insert [of "sv_conns s" i y] by (auto simp: good_run_def)

lemma good_run_conn:
  "good_run s \<Longrightarrow> i < length (sv_conns s) \<Longrightarrow> sv_conns s ! i = Running c \<Longrightarrow> tcp_served c"
  unfolding good_run_def by (metis conn_state.simps(1) nth_mem)

lemma server_step_good_run:
  assumes "server_step (tcp_server_env wait cancelled tcp_good_client) s t" "good_run s"
  shows "good_run t"
  using assms(1) unfolding server_step_def
proof
  assume "own_step (tcp_server_env wait cancelled tcp_good_client) s t"
  then show ?thesis
  proof (cases rule: own_step.cases)
    case (conn_runs i c c')
    with tcp_task_served [OF good_run_conn [OF assms(2) conn_runs(2,3)], of c' None]
      good_run_update [OF assms(2), of "Running c'"] assms(2) show ?thesis
      by (simp add: good_run_def)
  next
    case (conn_returns i c c' r)
    with tcp_task_served [OF good_run_conn [OF assms(2) conn_returns(2,3)], of c' "Some r"]
      good_run_update [OF assms(2), of "Ended c' r"] assms(2) show ?thesis
      by (auto simp: good_run_def)
  qed (use assms(2) in \<open>simp_all add: good_run_def\<close>)
next
  assume "outside_step (tcp_server_env wait cancelled tcp_good_client) s t"
  then show ?thesis
  proof (cases rule: outside_step.cases)
    case (client_acts i c c')
    with tcp_good_client_served [of c c'] good_run_conn [OF assms(2) client_acts(2,3)]
      good_run_update [OF assms(2), of "Running c'"] assms(2) show ?thesis
      by (simp add: good_run_def)
  qed (use assms(2) tcp_accepted_served in \<open>simp_all add: good_run_def\<close>)
qed

lemma server_reaches_good_run:
  "server_reaches (tcp_server_env wait cancelled tcp_good_client) s \<Longrightarrow> good_run s"
  unfolding server_reaches_def
proof (induction rule: rtranclp_induct)
  case base
  show ?case by (simp add: good_run_def server_start_def)
next
  case (step s t)
  then show ?case using server_step_good_run by blast
qed

lemma wait_canceled:
  assumes "first_error wait" "set rs \<subseteq> {None, Some Canceled}"
  shows "wait rs \<in> {None, Some Canceled}"
  using first_errorD(2) [OF assms(1), of rs] assms(2) by (cases "wait rs") auto

lemma tcp_Run_canceled:
  assumes "first_error wait" "w \<in> {None, Some Canceled}" "errors_is e NetClosed"
  shows "tcp_Run wait (\<lambda>_. w) None (map Inr cs @ [Inl e]) = None"
  unfolding tcp_Run_def using assms(1)
  by (rule pool_run_clean)
    (use assms(2,3) in \<open>auto simp: accept_task_def accept_loop_closed accept_result_def\<close>)

section \<open>The go-capnp server\<close>

text \<open>
  A connection of go-capnp is served by the library; \<open>True\<close> says that it has ended it, so that
  \<open>conn.Done()\<close> is ready. Where the context is cancelled too, \<open>select\<close> takes either case. That
  \<open>conn.Close()\<close> returns, with \<open>close_err\<close>, is built in: the rest of \<open>runConn\<close> is one step.
\<close>

definition gocapnp_task :: "go_error option \<Rightarrow> bool \<Rightarrow> bool \<Rightarrow> (bool \<times> go_error option option) list" where
  "gocapnp_task close_err cancelled ended =
     map (\<lambda>done_first. (ended, Some (fst (gocapnp_runConn (Pair close_err) done_first ()))))
       ((if ended then [True] else []) @ (if cancelled then [False] else []))"

definition gocapnp_server_env ::
  "(go_error option list \<Rightarrow> go_error option) \<Rightarrow> (go_error option list \<Rightarrow> bool) \<Rightarrow> go_error option \<Rightarrow>
     bool run_env"
where
  "gocapnp_server_env wait cancelled close_err =
     \<lparr>re_wait = wait, re_cancelled = cancelled, re_close = None, re_new = (\<lambda>ended. \<not> ended),
      re_task = gocapnp_task close_err, re_client = (\<lambda>ended ended'. ended')\<rparr>"

interpretation capnp_tasks: conn_tasks "gocapnp_server_env wait cancelled close_err" "\<lambda>_. 0"
  for wait cancelled close_err
  by unfold_locales (auto simp: gocapnp_server_env_def gocapnp_task_def)

lemma gocapnp_never_parked:
  assumes "sv_done s"
  shows "\<not> parked (gocapnp_server_env wait cancelled close_err) s c"
  using assms
  by (simp add: parked_def gocapnp_server_env_def gocapnp_task_def conns_cancelled_def group_cancelled_def)

lemma returned_no_step:
  assumes "server_inv R s" "sv_returned s \<noteq> None"
  shows "\<not> own_step R s t"
proof
  assume "own_step R s t"
  moreover obtain acceptErr where acc: "sv_closer s \<noteq> None" "sv_accepting s = Joined acceptErr"
      "\<forall>c \<in> set (sv_conns s). conn_ended c"
    using assms by (auto simp: server_inv_def)
  moreover have "sv_conns s ! i \<noteq> Running c" if "i < length (sv_conns s)" for i c
    using acc(3) that by (metis conn_ended.simps(2) nth_mem)
  ultimately show False
    using assms(2) by (cases rule: own_step.cases) auto
qed

section \<open>Clients that stay connected\<close>

text \<open>Past the check of its context a connection of the TCP server does not see it.\<close>

lemma tcp_task_Reading: "tcn_pc c = Reading \<Longrightarrow> tcp_task b c = tcp_task b' c"
  by (simp add: tcp_task_def)

lemma parked_stays:
  assumes "(own_step (tcp_server_env wait cancelled client))\<^sup>*\<^sup>* s t"
    and "i < length (sv_conns s)" "sv_conns s ! i = Running c" "tcn_pc c = Reading" "tcp_task True c = []"
  shows "i < length (sv_conns t) \<and> sv_conns t ! i = Running c"
  using assms(1)
proof induction
  case base
  then show ?case using assms(2,3) by simp
next
  case (step t u)
  have stuck: "tcp_task b c = []" for b
    using tcp_task_Reading [OF assms(4)] assms(5) by metis
  from step(2) show ?case
  proof (cases rule: own_step.cases)
    case (conn_runs j d d')
    with step(3) stuck show ?thesis by (cases "i = j") auto
  next
    case (conn_returns j d d' r)
    with step(3) stuck show ?thesis by (cases "i = j") auto
  qed (use step(3) in simp_all)
qed

section \<open>Properties\<close>

text \<open>C13: Whatever the interleaving of the server's goroutines and its clients, when \<open>Run\<close> of the
  TCP server returns, every connection is over and the listener is closed; the context was
  cancelled or \<open>Accept\<close> failed, for no failure of a connection ends \<open>Run\<close>; and the value is the
  one \<open>tcp_Run\<close> computes from the results of the connections.\<close>

theorem tcp_run_refines:
  assumes "conc_pools (tcp_server_env wait cancelled client)"
    and "server_reaches (tcp_server_env wait cancelled client) s" "sv_returned s = Some r"
  shows "\<exists>e. r = tcp_Run wait (\<lambda>_. wait (sv_conn_results s)) None (map Inr (sv_conns s) @ [Inl e]) \<and>
    (sv_done s \<or> \<not> errors_is e NetClosed) \<and> sv_closer s \<noteq> None \<and>
    (\<forall>c \<in> set (sv_conns s). conn_ended c) \<and>
    set (sv_conn_results s) = {r. \<exists>c. Ended c r \<in> set (sv_conns s)}"
proof -
  let ?R = "tcp_server_env wait cancelled client"
  have close: "re_close ?R = None" by simp
  obtain e where e: "sv_accepting s = Joined (if errors_is e NetClosed then None else Some e)"
    "r = tcp_Run (re_wait ?R) (\<lambda>_. re_wait ?R (sv_conn_results s)) None (map Inr (sv_conns s) @ [Inl e])"
    using assms(2,1) close assms(3) by (rule server_returned)
  note inv = server_reaches_inv [OF assms(2)]
  have "sv_closer s \<noteq> None" using inv assms(3) by (simp add: server_inv_def)
  moreover from this e(1) server_reaches_close_reason [OF assms(2,1)] have "sv_done s \<or> \<not> errors_is e NetClosed"
    by (auto simp: close_reason_def split: if_splits)
  moreover have "\<forall>c \<in> set (sv_conns s). conn_ended c"
      "set (sv_conn_results s) = {r. \<exists>c. Ended c r \<in> set (sv_conns s)}"
    using inv e(1) unfolding server_inv_def by blast+
  moreover have "r = tcp_Run wait (\<lambda>_. wait (sv_conn_results s)) None (map Inr (sv_conns s) @ [Inl e])"
    using e(2) by simp
  ultimately show ?thesis using \<open>sv_closer s \<noteq> None\<close> by blast
qed

text \<open>A pool that works as relied on, for the examples.\<close>

definition any_failed :: "go_error option list \<Rightarrow> bool" where
  "any_failed rs = list_ex (\<lambda>r. r \<noteq> None) rs"

lemma first_of_pools [simp]: "conc_pools (tcp_server_env first_of any_failed client)"
  by (auto simp: conc_pools_def any_failed_def list_ex_iff first_of_first_error)

lemma server_reaches_start: "server_reaches R server_start"
  by (simp add: server_reaches_def)

lemma server_reaches_own: "server_reaches R s \<Longrightarrow> own_step R s t \<Longrightarrow> server_reaches R t"
  unfolding server_reaches_def by (meson rtranclp.rtrancl_into_rtrancl server_step_def)

lemma server_reaches_outside: "server_reaches R s \<Longrightarrow> outside_step R s t \<Longrightarrow> server_reaches R t"
  unfolding server_reaches_def by (meson rtranclp.rtrancl_into_rtrancl server_step_def)

lemma server_reaches_owns: "server_reaches R s \<Longrightarrow> (own_step R)\<^sup>*\<^sup>* s t \<Longrightarrow> server_reaches R t"
  by (rotate_tac, induction rule: rtranclp_induct) (blast intro: server_reaches_own)+

lemma tcp_run_refines_witness:
  "\<exists>s r e. server_reaches (tcp_server_env first_of any_failed tcp_any_client) s \<and> sv_returned s = Some r \<and> sv_conns s = [Ended tcp_accepted (Some Canceled)] \<and>
    r = tcp_Run first_of (\<lambda>_. first_of (sv_conn_results s)) None (map Inr (sv_conns s) @ [Inl e])"
proof -
  let ?R = "tcp_server_env first_of any_failed tcp_any_client"
  let ?s1 = "server_start\<lparr>sv_conns := [Running tcp_accepted]\<rparr>"
  let ?s2 = "?s1\<lparr>sv_done := True\<rparr>"
  let ?s3 = "?s2\<lparr>sv_conns := [Ended tcp_accepted (Some Canceled)], sv_conn_results := [Some Canceled]\<rparr>"
  let ?s4 = "?s3\<lparr>sv_closer := Some None, sv_results := [None]\<rparr>"
  let ?s5 = "?s4\<lparr>sv_accepting := Joining None\<rparr>"
  let ?s6 = "?s5\<lparr>sv_accepting := Joined None,
    sv_results := [None, accept_result None (first_of [Some Canceled])]\<rparr>"
  let ?s7 = "?s6\<lparr>sv_returned := Some (pool_run first_of (sv_results ?s6))\<rparr>"
  have 1: "server_reaches ?R ?s1"
    using server_reaches_outside [OF server_reaches_start outside_step.connect [of server_start ?R tcp_accepted]]
    by (simp add: server_start_def)
  note 2 = server_reaches_outside [OF 1 outside_step.cancel]
  have 3: "server_reaches ?R ?s3"
    using server_reaches_own [OF 2 own_step.conn_returns [of 0 ?s2 tcp_accepted tcp_accepted "Some Canceled" ?R]]
    by (simp add: server_start_def conns_cancelled_def group_cancelled_def tcp_task_def tcp_accepted_def)
  have 4: "server_reaches ?R ?s4"
    using server_reaches_own [OF 3 own_step.close_listener [of ?s3 ?R]]
    by (simp add: server_start_def group_cancelled_def)
  have 5: "server_reaches ?R ?s5"
    using server_reaches_own [OF 4 own_step.accept_closed [of ?s4 ?R]] by (simp add: server_start_def)
  have 6: "server_reaches ?R ?s6"
    using server_reaches_own [OF 5 own_step.join_conns [of ?s5 None ?R]] by (simp add: server_start_def)
  have 7: "server_reaches ?R ?s7"
    using server_reaches_own [OF 6 own_step.run_returns [of ?s6 None ?R]] by (simp add: server_start_def)
  obtain s r where "server_reaches ?R s" "sv_returned s = Some r"
      "sv_conns s = [Ended tcp_accepted (Some Canceled)]"
    using that [OF 7] by simp
  moreover from this(1,2) obtain e where
    "r = tcp_Run first_of (\<lambda>_. first_of (sv_conn_results s)) None (map Inr (sv_conns s) @ [Inl e])"
    using tcp_run_refines [OF first_of_pools] by blast
  ultimately show ?thesis by (intro exI [of _ s] exI [of _ r] exI [of _ e] conjI)
qed

text \<open>C14: When one connection of the TCP server has failed, for example because its client hung up
  in the middle of a request, the server answers no request on a new connection, nor on an
  old one that is at the head of its loop, while it keeps its listener open and goes on
  accepting for as long as the context is not cancelled and no \<open>Accept\<close> has failed; until one of
  the two happens \<open>Run\<close> does not return. A connection that is already waiting in \<open>ReadByte\<close> is
  not silenced before it comes back to the head of its loop.\<close>

theorem tcp_failure_stops_service:
  assumes "conc_pools (tcp_server_env wait cancelled tcp_any_client)"
    and "server_reaches (tcp_server_env wait cancelled tcp_any_client) s"
    and "Some e \<in> set (sv_conn_results s)"
    and "(server_step (tcp_server_env wait cancelled tcp_any_client))\<^sup>*\<^sup>* s t"
  shows "(\<forall>i < length (sv_conns s). tcn_pc (conn_state (sv_conns s ! i)) = AtHead \<longrightarrow>
      tcp_out (conn_state (sv_conns t ! i)) = tcp_out (conn_state (sv_conns s ! i))) \<and>
    (\<forall>i. length (sv_conns s) \<le> i \<and> i < length (sv_conns t) \<longrightarrow>
      tcp_out (conn_state (sv_conns t ! i)) = []) \<and>
    (\<not> sv_done t \<and> (\<forall>e. sv_accepting t \<noteq> Joining (Some e) \<and> sv_accepting t \<noteq> Joined (Some e)) \<longrightarrow>
      sv_accepting t = Accepting \<and> sv_closer t = None \<and> sv_returned t = None)"
proof (intro conjI allI impI)
  let ?R = "tcp_server_env wait cancelled tcp_any_client"
  have quiet: "quiet_after (sv_conns s) (sv_conns t)"
    using quiet_after_failure [OF assms(4,1,3)] by blast
  have reach: "server_reaches ?R t"
    using assms(2,4) unfolding server_reaches_def by (rule rtranclp_trans)
  show "tcp_out (conn_state (sv_conns t ! i)) = tcp_out (conn_state (sv_conns s ! i))"
    if "i < length (sv_conns s)" "tcn_pc (conn_state (sv_conns s ! i)) = AtHead" for i
    using quiet that by (simp add: quiet_after_def silent_def)
  show "tcp_out (conn_state (sv_conns t ! i)) = []"
    if "length (sv_conns s) \<le> i \<and> i < length (sv_conns t)" for i
    using quiet that by (simp add: quiet_after_def silent_def)
  assume up: "\<not> sv_done t \<and> (\<forall>e. sv_accepting t \<noteq> Joining (Some e) \<and> sv_accepting t \<noteq> Joined (Some e))"
  then show closer: "sv_closer t = None"
    using server_reaches_close_reason [OF reach assms(1)] by (auto simp: close_reason_def)
  show acc: "sv_accepting t = Accepting"
  proof (cases "sv_accepting t")
    case (Joining acceptErr)
    then show ?thesis using up closer server_reaches_inv [OF reach]
      by (cases acceptErr) (simp_all add: server_inv_def)
  next
    case (Joined acceptErr)
    then show ?thesis using up closer server_reaches_inv [OF reach]
      by (cases acceptErr) (simp_all add: server_inv_def)
  qed
  show "sv_returned t = None" using server_reaches_inv [OF reach] acc by (auto simp: server_inv_def)
qed

text \<open>A client that sends the command byte of \<open>Add\<close> and hangs up.\<close>

definition tcp_hung_up :: tcp_conn where
  "tcp_hung_up = tcp_arrive [[cmdAdd]] EOF (tcp_accepted\<lparr>tcn_pc := Reading\<rparr>)"

lemma tcp_hung_up_task:
  obtains c where "tcp_task b tcp_hung_up = [(c, Some (Some EOF))]"
proof -
  have end_: "br_end (tcn_reader tcp_hung_up) = EOF" and content: "br_content (tcn_reader tcp_hung_up) = cmdAdd # []"
    by (simp_all add: tcp_hung_up_def tcp_arrive_simps)
      (simp add: tcp_accepted_def tcp_server_reader_def br_content_def src_content_def)
  obtain r1 where r1: "br_read_byte (tcn_reader tcp_hung_up) = (Inr cmdAdd, r1)" "br_content r1 = []" "br_end r1 = EOF"
    using br_read_byte_content [OF content] end_ by metis
  obtain r2 where "ReadInt64 br_read r1 = (Inl EOF, r2)"
    using br.ReadInt64_short [of r1] r1(2,3) by auto
  then have "tcp_round (tcn_reader tcp_hung_up) (tcn_writer tcp_hung_up) =
      Some (Some (Some EOF), r2, tcn_writer tcp_hung_up)"
    using r1(1) by (simp add: tcp_round_def tcp_switch_def cmd_defs)
  moreover have "tcn_pc tcp_hung_up = Reading" by (simp add: tcp_hung_up_def tcp_arrive_def)
  ultimately show ?thesis using that by (simp add: tcp_task_def)
qed

lemma tcp_failed_run:
  assumes "R = tcp_server_env first_of any_failed tcp_any_client"
  obtains s where "server_reaches R s" "sv_conn_results s = [Some EOF]" "length (sv_conns s) = 1"
    "sv_accepting s = Accepting" "sv_closer s = None"
proof -
  let ?c = "tcp_accepted\<lparr>tcn_pc := Reading\<rparr>"
  let ?s = "\<lambda>c. server_start\<lparr>sv_conns := [c]\<rparr>"
  have 1: "server_reaches R (?s (Running tcp_accepted))"
    using server_reaches_outside [OF server_reaches_start outside_step.connect [of server_start R tcp_accepted]] assms
    by (simp add: server_start_def)
  have 2: "server_reaches R (?s (Running ?c))"
    using server_reaches_own [OF 1 own_step.conn_runs [of 0 _ tcp_accepted ?c R]] assms
    by (simp add: server_start_def conns_cancelled_def group_cancelled_def any_failed_def tcp_task_def tcp_accepted_def)
  have "br_end (tcn_reader ?c) = Blocked"
    by (simp add: tcp_accepted_def tcp_server_reader_def br_end_def)
  then have "tcp_any_client ?c tcp_hung_up"
    unfolding tcp_hung_up_def by (rule tcp_any_client.arrives)
  then have 3: "server_reaches R (?s (Running tcp_hung_up))"
    using server_reaches_outside [OF 2 outside_step.client_acts [of 0 _ ?c R tcp_hung_up]] assms
    by (simp add: server_start_def)
  obtain c where "tcp_task False tcp_hung_up = [(c, Some (Some EOF))]"
    by (rule tcp_hung_up_task)
  then have "server_reaches R ((?s (Ended c (Some EOF)))\<lparr>sv_conn_results := [Some EOF]\<rparr>)"
    using server_reaches_own [OF 3 own_step.conn_returns [of 0 _ tcp_hung_up c "Some EOF" R]] assms
    by (simp add: server_start_def conns_cancelled_def group_cancelled_def any_failed_def)
  then show ?thesis by (rule that) (simp_all add: server_start_def)
qed

lemma tcp_failure_stops_service_witness:
  "\<exists>s t. server_reaches (tcp_server_env first_of any_failed tcp_any_client) s \<and>
    sv_conn_results s = [Some EOF] \<and>
    (server_step (tcp_server_env first_of any_failed tcp_any_client))\<^sup>*\<^sup>* s t \<and> length (sv_conns t) = 2 \<and>
    tcp_out (conn_state (sv_conns t ! 1)) = [] \<and> sv_accepting t = Accepting"
proof -
  let ?R = "tcp_server_env first_of any_failed tcp_any_client"
  obtain s where s: "server_reaches ?R s" "sv_conn_results s = [Some EOF]" "length (sv_conns s) = 1"
      "sv_accepting s = Accepting" "sv_closer s = None"
    using tcp_failed_run [OF refl] by metis
  let ?t = "s\<lparr>sv_conns := sv_conns s @ [Running tcp_accepted]\<rparr>"
  have "server_step ?R s ?t"
    using outside_step.connect [of s ?R tcp_accepted] s(4,5) by (simp add: server_step_def)
  then have steps: "(server_step ?R)\<^sup>*\<^sup>* s ?t" by (rule r_into_rtranclp)
  have "Some EOF \<in> set (sv_conn_results s)" using s(2) by simp
  from tcp_failure_stops_service [OF first_of_pools s(1) this steps]
  have "tcp_out (conn_state (sv_conns ?t ! 1)) = []" using s(3) by simp
  moreover have "length (sv_conns ?t) = 2" "sv_accepting ?t = Accepting" using s(3,4) by simp_all
  ultimately show ?thesis using s(1,2) steps by blast
qed

text \<open>C9: The TCP server serves any number of clients at a time: when each sends one valid request
  after the other, then in every interleaving each connection has got the answers to all its
  requests but at most the last, in order and nothing else. A last request whose answer is
  due is answered by the next steps of its goroutine, unless the context was cancelled while
  the goroutine is at the head of its loop, where it ends the connection instead. When \<open>Run\<close>
  returns and no \<open>Accept\<close> has failed, the clean-up of the harness has nothing to report.\<close>

theorem tcp_serves_clients:
  assumes "conc_pools (tcp_server_env wait cancelled tcp_good_client)"
    and "server_reaches (tcp_server_env wait cancelled tcp_good_client) s"
  shows "(\<forall>i < length (sv_conns s). \<exists>cs due. (\<forall>q \<in> set (cs @ due). bin_valid q) \<and> length due \<le> 1 \<and>
      tcn_sent (conn_state (sv_conns s ! i)) = concat (map bin_request (cs @ due)) \<and>
      tcp_out (conn_state (sv_conns s ! i)) = concat (map bin_reply cs) \<and>
      (\<forall>c. sv_conns s ! i = Running c \<and>
          (tcn_pc c = Reading \<or> \<not> conns_cancelled (tcp_server_env wait cancelled tcp_good_client) s) \<longrightarrow>
        (\<exists>t. (own_step (tcp_server_env wait cancelled tcp_good_client))\<^sup>*\<^sup>* s t \<and>
           tcp_out (conn_state (sv_conns t ! i)) = concat (map bin_reply (cs @ due))))) \<and>
    (\<forall>r. sv_returned s = Some r \<longrightarrow>
      server_cleanup None (RunReturned r) = [] \<or> (\<exists>e. sv_accepting s = Joined (Some e)))"
proof (intro conjI allI impI)
  let ?R = "tcp_server_env wait cancelled tcp_good_client"
  have good: "good_run s" using assms(2) by (rule server_reaches_good_run)
  fix i assume i: "i < length (sv_conns s)"
  with good have served: "tcp_served (conn_state (sv_conns s ! i))" by (simp add: good_run_def)
  then show "\<exists>cs due. (\<forall>q \<in> set (cs @ due). bin_valid q) \<and> length due \<le> 1 \<and>
      tcn_sent (conn_state (sv_conns s ! i)) = concat (map bin_request (cs @ due)) \<and>
      tcp_out (conn_state (sv_conns s ! i)) = concat (map bin_reply cs) \<and>
      (\<forall>c. sv_conns s ! i = Running c \<and> (tcn_pc c = Reading \<or> \<not> conns_cancelled ?R s) \<longrightarrow>
        (\<exists>t. (own_step ?R)\<^sup>*\<^sup>* s t \<and>
           tcp_out (conn_state (sv_conns t ! i)) = concat (map bin_reply (cs @ due))))"
  proof (cases rule: tcp_served_cases)
    case (idle cs)
    then show ?thesis by (intro exI [of _ cs] exI [of _ "[]"]) auto
  next
    case (due cs q)
    have "\<exists>t. (own_step ?R)\<^sup>*\<^sup>* s t \<and> tcp_out (conn_state (sv_conns t ! i)) = concat (map bin_reply (cs @ [q]))"
      if c: "sv_conns s ! i = Running c" "tcn_pc c = Reading \<or> \<not> conns_cancelled ?R s" for c
      using tcp_due_answered [OF i c(1) due(2) _ _ _ c(2)] due(4,6) served c(1) by (auto simp: tcp_served_def)
    then show ?thesis using due by (intro exI [of _ cs] exI [of _ "[q]"]) auto
  qed
next
  let ?R = "tcp_server_env wait cancelled tcp_good_client"
  fix r assume r: "sv_returned s = Some r"
  have first: "first_error wait" using assms(1) by (simp add: conc_pools_def)
  have close: "re_close ?R = None" by simp
  obtain e where e: "sv_accepting s = Joined (if errors_is e NetClosed then None else Some e)"
    "r = tcp_Run (re_wait ?R) (\<lambda>_. re_wait ?R (sv_conn_results s)) None (map Inr (sv_conns s) @ [Inl e])"
    using assms(2,1) close r by (rule server_returned)
  have "wait (sv_conn_results s) \<in> {None, Some Canceled}"
    using server_reaches_good_run [OF assms(2)] wait_canceled [OF first] unfolding good_run_def by blast
  then have "r = None" if "errors_is e NetClosed"
    using tcp_Run_canceled [OF first _ that] e(2) by simp
  then show "server_cleanup None (RunReturned r) = [] \<or> (\<exists>e. sv_accepting s = Joined (Some e))"
    using e(1) by (cases "errors_is e NetClosed") (simp_all add: server_cleanup_def)
qed

lemma tcp_serves_clients_witness:
  "\<exists>s c cs due. server_reaches (tcp_server_env first_of any_failed tcp_good_client) s \<and>
    sv_conns s = [c] \<and> tcn_sent (conn_state c) = [1] \<and> [1] = concat (map bin_request (cs @ due)) \<and>
    tcp_out (conn_state c) = concat (map bin_reply cs) \<and>
    (\<exists>t. (own_step (tcp_server_env first_of any_failed tcp_good_client))\<^sup>*\<^sup>* s t \<and>
       tcp_out (conn_state (sv_conns t ! 0)) = concat (map bin_reply (cs @ due)))"
proof -
  let ?R = "tcp_server_env first_of any_failed tcp_good_client"
  let ?s = "server_start\<lparr>sv_conns := [Running tcp_accepted]\<rparr>"
  let ?c = "tcp_arrive [[1]] Blocked tcp_accepted"
  have 1: "server_reaches ?R ?s"
    using server_reaches_outside [OF server_reaches_start outside_step.connect [of server_start ?R tcp_accepted]]
    by (simp add: server_start_def)
  have "tcp_good_client tcp_accepted ?c"
    by (rule tcp_good_client.sends [of _ CNop])
      (simp_all add: tcp_accepted_def tcp_server_reader_def br_content_def br_end_def src_content_def)
  then have 2: "server_reaches ?R (?s\<lparr>sv_conns := [Running ?c]\<rparr>)"
    using server_reaches_outside [OF 1 outside_step.client_acts [of 0 ?s tcp_accepted ?R ?c]]
    by (simp add: server_start_def)
  have sent: "tcn_sent ?c = [1]" by (simp add: tcp_arrive_def tcp_accepted_def)
  let ?t = "?s\<lparr>sv_conns := [Running ?c]\<rparr>"
  have "\<not> conns_cancelled ?R ?t" by (simp add: server_start_def conns_cancelled_def group_cancelled_def any_failed_def)
  with tcp_serves_clients [OF first_of_pools 2] obtain cs due where
    due: "tcn_sent ?c = concat (map bin_request (cs @ due))"
      "tcp_out ?c = concat (map bin_reply cs)" "\<exists>t. (own_step ?R)\<^sup>*\<^sup>* ?t t \<and>
        tcp_out (conn_state (sv_conns t ! 0)) = concat (map bin_reply (cs @ due))"
    by force
  show ?thesis
    by (rule exI [of _ ?t], rule exI [of _ "Running ?c"], rule exI [of _ cs], rule exI [of _ due])
      (use 2 sent due in simp)
qed

text \<open>C15: Left alone with a cancelled context, the goroutines of the TCP server take finitely many
  steps; if \<open>Run\<close> has not returned then, some connection is inside a round it cannot finish;
  and while a connection is, \<open>Run\<close> does not return, for nothing closes the connection.\<close>

theorem tcp_run_waits_for_clients:
  assumes "server_reaches (tcp_server_env wait cancelled client) s" "sv_done s"
  shows "(\<forall>t. own_step (tcp_server_env wait cancelled client) s t \<longrightarrow>
      server_rank (\<lambda>c. tcp_pc_rank (tcn_pc c)) t < server_rank (\<lambda>c. tcp_pc_rank (tcn_pc c)) s) \<and>
    ((\<nexists>t. own_step (tcp_server_env wait cancelled client) s t) \<and> sv_returned s = None \<longrightarrow>
      (\<exists>c. Running c \<in> set (sv_conns s) \<and> tcn_pc c = Reading \<and> tcp_task True c = [])) \<and>
    (\<forall>c t. Running c \<in> set (sv_conns s) \<and> tcn_pc c = Reading \<and> tcp_task True c = [] \<and>
      (own_step (tcp_server_env wait cancelled client))\<^sup>*\<^sup>* s t \<longrightarrow> sv_returned t = None)"
proof (intro conjI allI impI)
  let ?R = "tcp_server_env wait cancelled client"
  show "server_rank (\<lambda>c. tcp_pc_rank (tcn_pc c)) t < server_rank (\<lambda>c. tcp_pc_rank (tcn_pc c)) s"
    if "own_step ?R s t" for t
    using that assms(2) by (rule tcp_tasks.own_step_rank)
next
  let ?R = "tcp_server_env wait cancelled client"
  assume stuck: "(\<nexists>t. own_step ?R s t) \<and> sv_returned s = None"
  then obtain c where c: "parked ?R s c"
    using tcp_tasks.server_stuck assms(2) by blast
  moreover have "conns_cancelled ?R s" using assms(2) by (simp add: conns_cancelled_def group_cancelled_def)
  ultimately have "Running c \<in> set (sv_conns s)" "tcp_task True c = []" by (simp_all add: parked_def)
  moreover from this(2) have "tcn_pc c = Reading" by (cases "tcn_pc c") (simp_all add: tcp_task_def)
  ultimately show "\<exists>c. Running c \<in> set (sv_conns s) \<and> tcn_pc c = Reading \<and> tcp_task True c = []" by blast
next
  let ?R = "tcp_server_env wait cancelled client"
  fix c t
  assume c: "Running c \<in> set (sv_conns s) \<and> tcn_pc c = Reading \<and> tcp_task True c = [] \<and> (own_step ?R)\<^sup>*\<^sup>* s t"
  then obtain i where "i < length (sv_conns s)" "sv_conns s ! i = Running c"
    by (metis in_set_conv_nth)
  with c parked_stays [of wait cancelled client s t i c] have "Running c \<in> set (sv_conns t)"
    by (metis nth_mem)
  moreover have "server_inv ?R t"
    using server_reaches_inv server_reaches_owns [OF assms(1)] c by blast
  ultimately show "sv_returned t = None"
    by (force simp: server_inv_def)
qed

lemma tcp_run_waits_for_clients_witness:
  "\<exists>s. sv_done s \<and> sv_conns s = [Running (tcp_accepted\<lparr>tcn_pc := Reading\<rparr>)] \<and>
    (\<forall>t. (own_step (tcp_server_env first_of any_failed tcp_any_client))\<^sup>*\<^sup>* s t \<longrightarrow> sv_returned t = None)"
proof -
  let ?R = "tcp_server_env first_of any_failed tcp_any_client"
  let ?c = "tcp_accepted\<lparr>tcn_pc := Reading\<rparr>"
  let ?s = "\<lambda>c. server_start\<lparr>sv_conns := [c]\<rparr>"
  have 1: "server_reaches ?R (?s (Running tcp_accepted))"
    using server_reaches_outside [OF server_reaches_start outside_step.connect [of server_start ?R tcp_accepted]]
    by (simp add: server_start_def)
  have 2: "server_reaches ?R (?s (Running ?c))"
    using server_reaches_own [OF 1 own_step.conn_runs [of 0 _ tcp_accepted ?c ?R]]
    by (simp add: server_start_def conns_cancelled_def group_cancelled_def any_failed_def tcp_task_def tcp_accepted_def)
  note 3 = server_reaches_outside [OF 2 outside_step.cancel]
  have "br_content (tcn_reader ?c) = []" "br_end (tcn_reader ?c) = Blocked" "tcn_pc ?c = Reading"
    by (simp_all add: tcp_accepted_def tcp_server_reader_def br_content_def br_end_def src_content_def)
  then have "tcp_task True ?c = []" by (metis tcp_task_idle)
  with tcp_run_waits_for_clients [OF 3] show ?thesis
    by (intro exI [of _ "?s (Running ?c)\<lparr>sv_done := True\<rparr>"]) auto
qed

text \<open>C16: Left alone with a cancelled context, the go-capnp server always ends: its goroutines take
  finitely many steps, and where none can take another, \<open>Run\<close> has returned. That the library's
  \<open>conn.Close()\<close> returns is part of the step of a connection (\<open>gocapnp_task\<close>).\<close>

theorem gocapnp_run_ends:
  assumes "server_reaches (gocapnp_server_env wait cancelled close_err) s" "sv_done s"
  shows "(\<forall>t. own_step (gocapnp_server_env wait cancelled close_err) s t \<longrightarrow>
      server_rank (\<lambda>_. 0) t < server_rank (\<lambda>_. 0) s) \<and>
    ((\<nexists>t. own_step (gocapnp_server_env wait cancelled close_err) s t) \<longleftrightarrow> sv_returned s \<noteq> None) \<and>
    (\<exists>t. (own_step (gocapnp_server_env wait cancelled close_err))\<^sup>*\<^sup>* s t \<and> sv_returned t \<noteq> None)"
proof (intro conjI allI impI)
  let ?R = "gocapnp_server_env wait cancelled close_err"
  have stuck: "sv_returned t \<noteq> None" if "\<nexists>u. own_step ?R t u" "sv_done t" for t
    using capnp_tasks.server_stuck [OF that] gocapnp_never_parked [OF that(2)] by blast
  show "server_rank (\<lambda>_. 0) t < server_rank (\<lambda>_. 0) s" if "own_step ?R s t" for t
    using that assms(2) by (rule capnp_tasks.own_step_rank)
  show "(\<nexists>t. own_step ?R s t) \<longleftrightarrow> sv_returned s \<noteq> None"
    using stuck assms(2) returned_no_step [OF server_reaches_inv [OF assms(1)]] by blast
  show "\<exists>t. (own_step ?R)\<^sup>*\<^sup>* s t \<and> sv_returned t \<noteq> None"
    using capnp_tasks.server_completes [OF assms(2)] stuck by blast
qed

lemma gocapnp_run_ends_witness:
  "\<exists>t. (own_step (gocapnp_server_env first_of any_failed None))\<^sup>*\<^sup>*
      (server_start\<lparr>sv_conns := [Running False], sv_done := True\<rparr>) t \<and> sv_returned t \<noteq> None"
proof -
  let ?R = "gocapnp_server_env first_of any_failed None"
  have "server_reaches ?R (server_start\<lparr>sv_conns := [Running False]\<rparr>)"
    using server_reaches_outside [OF server_reaches_start outside_step.connect [of server_start ?R False]]
    by (simp add: server_start_def gocapnp_server_env_def)
  note reach = server_reaches_outside [OF this outside_step.cancel]
  show ?thesis using gocapnp_run_ends [OF reach] by simp
qed

end
