(* ===== verification/VatRun.thy ===== *)
theory VatRun
  imports ServerRun "HOL-Library.Multiset"
begin

text \<open>
  The goroutines of \<open>Run\<close> of the mdcapnp server as a step relation. It has a third task,
  \<open>Run\<close> of the vat, and the connections it accepts are handed to the vat, so that \<open>connPool\<close>
  has no tasks and its \<open>Wait\<close> does not wait. The function \<open>mdcapnp_Run\<close> of \<open>ServerLoop\<close> is
  shown to describe every run.
\<close>

section \<open>The state of a run\<close>

text \<open>
  \<open>vr_accepted\<close>: the connections given to \<open>RunConn\<close>. \<open>vr_vat\<close>: what the vat's \<open>Run\<close> has returned.
  The other fields are those of \<open>server\<close>.
\<close>

record 'c vat_server =
  vr_done :: bool
  vr_closer :: "go_error option option"
  vr_vat :: "go_error option option"
  vr_accepting :: accepting
  vr_accepted :: "'c list"
  vr_results :: "go_error option list"
  vr_returned :: "go_error option option"

definition vat_start :: "'c vat_server" where
  "vat_start =
     \<lparr>vr_done = False, vr_closer = None, vr_vat = None, vr_accepting = Accepting, vr_accepted = [],
      vr_results = [], vr_returned = None\<rparr>"

text \<open>
  What a run depends on: \<open>Wait\<close> of a pool and whether the pool has cancelled its context, both
  from the results of its tasks; the result of closing the listener; and what the vat's \<open>Run\<close>
  may return next, by whether its context is cancelled. The empty list is a vat that runs.
\<close>

record vat_env =
  ve_wait :: "go_error option list \<Rightarrow> go_error option"
  ve_cancelled :: "go_error option list \<Rightarrow> bool"
  ve_close :: "go_error option"
  ve_vat :: "bool \<Rightarrow> go_error option list"

definition vat_cancelled :: "vat_env \<Rightarrow> 'c vat_server \<Rightarrow> bool" where
  "vat_cancelled V s \<longleftrightarrow> vr_done s \<or> ve_cancelled V (vr_results s)"

section \<open>Steps\<close>

text \<open>Steps of the goroutines of \<open>Run\<close>.\<close>

inductive vat_own :: "vat_env \<Rightarrow> 'c vat_server \<Rightarrow> 'c vat_server \<Rightarrow> bool" for V where
  close_listener:
    "vr_closer s = None \<Longrightarrow> vat_cancelled V s \<Longrightarrow>
     vat_own V s (s\<lparr>vr_closer := Some (ve_close V), vr_results := vr_results s @ [ve_close V]\<rparr>)"
| vat_returns:
    "vr_vat s = None \<Longrightarrow> r \<in> set (ve_vat V (vat_cancelled V s)) \<Longrightarrow>
     vat_own V s (s\<lparr>vr_vat := Some r, vr_results := vr_results s @ [r]\<rparr>)"
| accept_closed:
    "vr_accepting s = Accepting \<Longrightarrow> vr_closer s \<noteq> None \<Longrightarrow>
     vat_own V s (s\<lparr>vr_accepting := Joining None\<rparr>)"
| join_conns:
    "vr_accepting s = Joining acceptErr \<Longrightarrow>
     vat_own V s (s\<lparr>vr_accepting := Joined acceptErr,
                   vr_results := vr_results s @ [accept_result acceptErr (ve_wait V [])]\<rparr>)"
| run_returns:
    "vr_accepting s = Joined acceptErr \<Longrightarrow> vr_closer s \<noteq> None \<Longrightarrow> vr_vat s \<noteq> None \<Longrightarrow> vr_returned s = None \<Longrightarrow>
     vat_own V s (s\<lparr>vr_returned := Some (pool_run (ve_wait V) (vr_results s))\<rparr>)"

text \<open>Steps of the rest of the world: the context and the listener.\<close>

inductive vat_outside :: "'c vat_server \<Rightarrow> 'c vat_server \<Rightarrow> bool" where
  cancel: "vat_outside s (s\<lparr>vr_done := True\<rparr>)"
| connect:
    "vr_accepting s = Accepting \<Longrightarrow> vr_closer s = None \<Longrightarrow>
     vat_outside s (s\<lparr>vr_accepted := vr_accepted s @ [c]\<rparr>)"
| accept_fails:
    "vr_accepting s = Accepting \<Longrightarrow> \<not> errors_is e NetClosed \<Longrightarrow>
     vat_outside s (s\<lparr>vr_accepting := Joining (Some e)\<rparr>)"

definition vat_step :: "vat_env \<Rightarrow> 'c vat_server \<Rightarrow> 'c vat_server \<Rightarrow> bool" where
  "vat_step V s t \<longleftrightarrow> vat_own V s t \<or> vat_outside s t"

definition vat_reaches :: "vat_env \<Rightarrow> 'c vat_server \<Rightarrow> bool" where
  "vat_reaches V s \<longleftrightarrow> (vat_step V)\<^sup>*\<^sup>* vat_start s"

text \<open>
  What is relied on: the pools as for the other servers, and that the vat's \<open>Run\<close> returns when
  its context is cancelled.
\<close>

definition vat_pools :: "vat_env \<Rightarrow> bool" where
  "vat_pools V \<longleftrightarrow>
     first_error (ve_wait V) \<and> (\<forall>rs. ve_cancelled V rs \<longleftrightarrow> (\<exists>e. Some e \<in> set rs)) \<and> ve_vat V True \<noteq> []"

section \<open>The order of the tasks\<close>

text \<open>The results of the three tasks so far; \<open>g\<close> has them in the order in which they came.\<close>

fun joined_results :: "go_error option \<Rightarrow> accepting \<Rightarrow> go_error option multiset" where
  "joined_results waitErr (Joined acceptErr) = {#accept_result acceptErr waitErr#}"
| "joined_results waitErr _ = {#}"

fun task_result :: "go_error option option \<Rightarrow> go_error option multiset" where
  "task_result None = {#}"
| "task_result (Some r) = {#r#}"

definition vat_inv :: "vat_env \<Rightarrow> 'c vat_server \<Rightarrow> bool" where
  "vat_inv V s \<longleftrightarrow>
     mset (vr_results s) =
       task_result (vr_closer s) + task_result (vr_vat s) + joined_results (ve_wait V []) (vr_accepting s) \<and>
     (vr_closer s = None \<or> vr_closer s = Some (ve_close V)) \<and>
     (vr_accepting s \<in> {Joining None, Joined None} \<longrightarrow> vr_closer s \<noteq> None) \<and>
     (\<forall>e. vr_accepting s \<in> {Joining (Some e), Joined (Some e)} \<longrightarrow> \<not> errors_is e NetClosed) \<and>
     (\<forall>r. vr_returned s = Some r \<longrightarrow> vr_closer s \<noteq> None \<and> vr_vat s \<noteq> None \<and>
        (\<exists>acceptErr. vr_accepting s = Joined acceptErr) \<and> r = pool_run (ve_wait V) (vr_results s))"

lemma vat_inv_start: "vat_inv V vat_start"
  by (simp add: vat_inv_def vat_start_def)

lemma vat_step_inv:
  assumes "vat_step V s t" "vat_inv V s"
  shows "vat_inv V t"
  using assms(1) unfolding vat_step_def
proof
  assume "vat_own V s t"
  then show ?thesis
    by (cases rule: vat_own.cases) (use assms(2) in \<open>auto simp: vat_inv_def\<close>)
next
  assume "vat_outside s t"
  then show ?thesis
    by (cases rule: vat_outside.cases) (use assms(2) in \<open>auto simp: vat_inv_def\<close>)
qed

lemma vat_reaches_inv: "vat_reaches V s \<Longrightarrow> vat_inv V s"
  unfolding vat_reaches_def
  by (induction rule: rtranclp_induct) (use vat_inv_start vat_step_inv in blast)+

text \<open>\<open>Wait\<close> when one order of results is looked up in place of another is still a first error.\<close>

lemma first_error_reordered:
  assumes "first_error wait" "mset xs = mset ys"
  shows "first_error (wait(ys := wait xs))"
  using assms(1) mset_eq_setD [OF assms(2)] by (auto simp: first_error_def)

section \<open>The end of a run\<close>

definition vat_rank :: "'c vat_server \<Rightarrow> nat" where
  "vat_rank s =
     (if vr_closer s = None then 1 else 0) + (if vr_vat s = None then 1 else 0) +
     accepting_rank (vr_accepting s) + (if vr_returned s = None then 1 else 0)"

lemma vat_own_rank: "vat_own V s t \<Longrightarrow> vat_rank t < vat_rank s"
  by (erule vat_own.cases) (simp_all add: vat_rank_def)

text \<open>A run that is going to end: its context is cancelled, or a task has failed or will.\<close>

definition vat_ending :: "'c vat_server \<Rightarrow> bool" where
  "vat_ending s \<longleftrightarrow> vr_done s \<or> (\<exists>e. Some e \<in> set (vr_results s)) \<or> (\<exists>e. vr_accepting s = Joining (Some e))"

lemma vat_own_ending:
  assumes "vat_own V s t" "vat_ending s"
  shows "vat_ending t"
  using assms by (cases rule: vat_own.cases) (auto simp: vat_ending_def accept_result_def)

lemma vat_stuck:
  assumes "vat_pools V" "vat_ending s" "\<nexists>t. vat_own V s t"
  shows "vr_returned s \<noteq> None"
proof (cases "vr_accepting s")
  case (Joining acceptErr)
  then show ?thesis using vat_own.join_conns [of s acceptErr V] assms(3) by blast
next
  case acc: Accepting
  then have "vat_cancelled V s"
    using assms(1,2) by (auto simp: vat_cancelled_def vat_ending_def vat_pools_def)
  then show ?thesis
    using vat_own.close_listener [of s V] vat_own.accept_closed [of s V] acc assms(3) by blast
next
  case (Joined acceptErr)
  then have canc: "vat_cancelled V s"
    using assms(1,2) by (auto simp: vat_cancelled_def vat_ending_def vat_pools_def)
  moreover obtain r where "r \<in> set (ve_vat V True)"
    using assms(1) by (cases "ve_vat V True") (auto simp: vat_pools_def)
  ultimately have "vr_vat s \<noteq> None" using vat_own.vat_returns [of s r V] assms(3) by auto
  with canc Joined show ?thesis
    using vat_own.close_listener [of s V] vat_own.run_returns [of s acceptErr V] assms(3) by blast
qed

lemma vat_completes:
  assumes "vat_ending s"
  shows "\<exists>t. (vat_own V)\<^sup>*\<^sup>* s t \<and> vat_ending t \<and> (\<nexists>u. vat_own V t u)"
  using assms
proof (induction "vat_rank s" arbitrary: s rule: less_induct)
  case less
  show ?case
  proof (cases "\<exists>t. vat_own V s t")
    case True
    then obtain t where t: "vat_own V s t" by blast
    with less.hyps [OF vat_own_rank [OF t] vat_own_ending [OF t less.prems]]
    show ?thesis by (meson converse_rtranclp_into_rtranclp)
  qed (use less.prems in blast)
qed

lemma vat_reaches_own: "vat_reaches V s \<Longrightarrow> vat_own V s t \<Longrightarrow> vat_reaches V t"
  by (auto simp: vat_reaches_def vat_step_def intro: rtranclp.rtrancl_into_rtrancl)

lemma vat_reaches_outside: "vat_reaches V s \<Longrightarrow> vat_outside s t \<Longrightarrow> vat_reaches V t"
  by (auto simp: vat_reaches_def vat_step_def intro: rtranclp.rtrancl_into_rtrancl)

lemma vat_reaches_owns:
  assumes "vat_reaches V s" "(vat_own V)\<^sup>*\<^sup>* s t"
  shows "vat_reaches V t"
  using assms(2,1) by (induction rule: rtranclp_induct) (auto intro: vat_reaches_own)

lemma vat_returned_no_step:
  assumes "vat_inv V s" "vr_returned s \<noteq> None"
  shows "\<not> vat_own V s t"
proof
  assume "vat_own V s t"
  then show False
    by (cases rule: vat_own.cases) (use assms in \<open>auto simp: vat_inv_def\<close>)
qed

section \<open>Properties\<close>

text \<open>Whatever the interleaving, what \<open>Run\<close> of the mdcapnp server returns is a value of
  \<open>mdcapnp_Run\<close> for the connections it accepted, the error that ended accepting and what the vat
  and closing the listener returned; all three tasks are over then.\<close>

lemma vat_run_refines:
  assumes "first_error (ve_wait V)" "vat_reaches V s" "vr_returned s = Some r"
  shows "\<exists>wait e vat_err. first_error wait \<and> vr_vat s = Some vat_err \<and> vr_closer s = Some (ve_close V) \<and>
    vr_accepting s = Joined (if errors_is e NetClosed then None else Some e) \<and>
    r = mdcapnp_Run wait (ve_close V) vat_err (map Inr (vr_accepted s) @ [Inl e])"
proof -
  have vi: "vat_inv V s" using assms(2) by (rule vat_reaches_inv)
  then obtain acceptErr vat_err where acc: "vr_accepting s = Joined acceptErr" "vr_vat s = Some vat_err"
      "vr_closer s = Some (ve_close V)" "r = pool_run (ve_wait V) (vr_results s)"
      "mset (vr_results s) = mset [ve_close V, vat_err, accept_result acceptErr (ve_wait V [])]"
    using assms(3) by (auto simp: vat_inv_def)
  obtain e where e: "acceptErr = (if errors_is e NetClosed then None else Some e)"
  proof (cases acceptErr)
    case None
    then show ?thesis using that [of NetClosed] by simp
  next
    case (Some e)
    then have "\<not> errors_is e NetClosed" using vi acc(1) by (auto simp: vat_inv_def)
    with Some show ?thesis using that [of e] by simp
  qed
  let ?ts = "[ve_close V, vat_err, accept_result acceptErr (ve_wait V [])]"
  let ?wait = "(ve_wait V)(?ts := ve_wait V (vr_results s))"
  have first: "first_error ?wait" using assms(1) acc(5) by (rule first_error_reordered)
  have "?wait [] = ve_wait V []" by simp
  then have "accept_task (\<lambda>_. ?wait []) (map Inr (vr_accepted s) @ [Inl e]) =
      accept_result acceptErr (ve_wait V [])"
    using e by (simp add: accept_task_def accept_loop_closed accept_loop_failed)
  then have "r = mdcapnp_Run ?wait (ve_close V) vat_err (map Inr (vr_accepted s) @ [Inl e])"
    using acc(4) by (simp add: mdcapnp_Run_def pool_run_def)
  with first acc(1-3) e show ?thesis by blast
qed

text \<open>C17: The mdcapnp server ends by itself once its context is cancelled, a task has failed or
  \<open>Accept\<close> has: its goroutines never take more than five steps, where they can take no more \<open>Run\<close>
  has returned, and they can always get there, whatever its clients do. The vat is the library's:
  that its \<open>Run\<close> returns when its context is cancelled is assumed (\<open>vat_pools\<close>), and that handing
  it a connection (\<open>RunConn\<close>) does not block is part of the step that accepts one.\<close>

theorem vat_run_ends:
  assumes "vat_pools V" "vat_reaches V s" "vat_ending s"
  shows "vat_rank s \<le> 5 \<and> (\<forall>t. vat_own V s t \<longrightarrow> vat_rank t < vat_rank s) \<and>
    ((\<nexists>t. vat_own V s t) \<longleftrightarrow> vr_returned s \<noteq> None) \<and>
    (\<exists>t. (vat_own V)\<^sup>*\<^sup>* s t \<and> vr_returned t \<noteq> None)"
proof (intro conjI allI impI)
  show "vat_rank s \<le> 5" by (cases "vr_accepting s") (simp_all add: vat_rank_def)
  show "vat_rank t < vat_rank s" if "vat_own V s t" for t using that by (rule vat_own_rank)
  show "(\<nexists>t. vat_own V s t) \<longleftrightarrow> vr_returned s \<noteq> None"
    using vat_stuck [OF assms(1,3)] vat_returned_no_step [OF vat_reaches_inv [OF assms(2)]] by blast
  show "\<exists>t. (vat_own V)\<^sup>*\<^sup>* s t \<and> vr_returned t \<noteq> None"
    using vat_completes [OF assms(3), of V] vat_stuck [OF assms(1)] by blast
qed

text \<open>A vat that runs until its context ends, for the examples.\<close>

definition plain_vat :: vat_env where
  "plain_vat =
     \<lparr>ve_wait = first_of, ve_cancelled = any_failed, ve_close = None,
      ve_vat = (\<lambda>cancelled. if cancelled then [Some Canceled] else [])\<rparr>"

lemma plain_vat_pools: "vat_pools plain_vat"
  by (auto simp: vat_pools_def plain_vat_def first_of_first_error any_failed_def list_ex_iff)

lemma plain_vat_cancelled: "vat_reaches plain_vat ((vat_start :: nat vat_server)\<lparr>vr_accepted := [7], vr_done := True\<rparr>)"
proof -
  have "vat_reaches plain_vat (vat_start :: nat vat_server)" by (simp add: vat_reaches_def)
  from vat_reaches_outside [OF this vat_outside.connect [of vat_start 7]]
  have "vat_reaches plain_vat ((vat_start :: nat vat_server)\<lparr>vr_accepted := [7]\<rparr>)"
    by (simp add: vat_start_def)
  from vat_reaches_outside [OF this vat_outside.cancel] show ?thesis by simp
qed

lemma vat_run_ends_witness:
  "\<exists>t. (vat_own plain_vat)\<^sup>*\<^sup>* ((vat_start :: nat vat_server)\<lparr>vr_accepted := [7], vr_done := True\<rparr>) t \<and>
    vr_returned t \<noteq> None"
  using vat_run_ends [OF plain_vat_pools plain_vat_cancelled] by (simp add: vat_ending_def)

lemma vat_run_refines_witness:
  "\<exists>(s :: nat vat_server) r wait e. vat_reaches plain_vat s \<and> vr_returned s = Some r \<and> vr_closer s = Some None \<and>
    (\<exists>vat_err. r = mdcapnp_Run wait None vat_err (map Inr (vr_accepted s) @ [Inl e]))"
proof -
  let ?s = "(vat_start :: nat vat_server)\<lparr>vr_accepted := [7], vr_done := True\<rparr>"
  have "vat_ending ?s" by (simp add: vat_ending_def)
  from vat_completes [OF this, of plain_vat] vat_stuck [OF plain_vat_pools] obtain s r where
    s: "(vat_own plain_vat)\<^sup>*\<^sup>* ?s s" "vr_returned s = Some r" by blast
  have reach: "vat_reaches plain_vat s" using plain_vat_cancelled s(1) by (rule vat_reaches_owns)
  have "first_error (ve_wait plain_vat)" "ve_close plain_vat = None"
    by (simp_all add: plain_vat_def first_of_first_error)
  with vat_run_refines [OF _ reach s(2)] obtain wait e vat_err where "vr_closer s = Some None"
      "r = mdcapnp_Run wait None vat_err (map Inr (vr_accepted s) @ [Inl e])"
    by auto
  with reach s(2) show ?thesis
    by (intro exI [of _ s] exI [of _ r] exI [of _ wait] exI [of _ e]) blast
qed

end
