(* ===== verification/ServeRun.thy ===== *)
theory ServeRun
  imports ServerLoop
begin

text \<open>
  The goroutines of \<open>Run\<close> of the HTTP, websocket and gRPC servers as a step relation. The three
  are the same code: the caller's goroutine is in \<open>Serve\<close> of the library, and one beside it waits
  for the context and then stops the library's server, with \<open>Shutdown\<close> or \<open>GracefulStop\<close>. What
  the libraries document of these calls is in the steps.
\<close>

section \<open>The state of a run\<close>

text \<open>The goroutine at \<open><-ctx.Done()\<close>, in its call of the library, and over.\<close>

datatype stopper = Waiting | Stopping | Stopped

text \<open>
  \<open>sg_done\<close>: the context is cancelled. \<open>sg_serve\<close>: what \<open>Serve\<close> has returned. \<open>sg_requests\<close>: the
  requests that are being served, for the websocket server its connections. \<open>sg_returned\<close>: what
  \<open>Run\<close> has returned.
\<close>

record 'r serving =
  sg_done :: bool
  sg_stopper :: stopper
  sg_serve :: "go_error option option"
  sg_requests :: "'r list"
  sg_returned :: "go_error option option"

definition serving_start :: "'r serving" where
  "serving_start =
     \<lparr>sg_done = False, sg_stopper = Waiting, sg_serve = None, sg_requests = [], sg_returned = None\<rparr>"

text \<open>
  How the servers differ: what \<open>Serve\<close> returns once the server is stopped and whether it waits
  for the requests first; whether the call that stops the server has a time limit; and what
  \<open>Run\<close> makes of the result of \<open>Serve\<close>.
\<close>

record serve_env =
  sn_stopped :: "go_error option"
  sn_waits :: bool
  sn_limit :: bool
  sn_result :: "go_error option \<Rightarrow> go_error option"

text \<open>\<open>Serve\<close> of \<open>http.Server\<close> returns at once when \<open>Shutdown\<close> is called, which is given a second.\<close>

definition http1_serving :: serve_env where
  "http1_serving =
     \<lparr>sn_stopped = Some ServerClosed, sn_waits = False, sn_limit = True, sn_result = http1_Run\<rparr>"

definition ws_serving :: serve_env where
  "ws_serving =
     \<lparr>sn_stopped = Some ServerClosed, sn_waits = False, sn_limit = True, sn_result = ws_Run\<rparr>"

text \<open>
  \<open>Serve\<close> of \<open>grpc.Server\<close> returns nil when \<open>GracefulStop\<close> was called; whether it does so before
  the calls in progress are over is left open.
\<close>

definition grpc_serving :: "bool \<Rightarrow> serve_env" where
  "grpc_serving waits =
     \<lparr>sn_stopped = None, sn_waits = waits, sn_limit = False, sn_result = grpc_Run\<rparr>"

section \<open>Steps\<close>

text \<open>Steps of the two goroutines of \<open>Run\<close>.\<close>

inductive serve_own :: "serve_env \<Rightarrow> 'r serving \<Rightarrow> 'r serving \<Rightarrow> bool" for V where
  stop:
    "sg_stopper s = Waiting \<Longrightarrow> sg_done s \<Longrightarrow> serve_own V s (s\<lparr>sg_stopper := Stopping\<rparr>)"
| stop_returns:
    "sg_stopper s = Stopping \<Longrightarrow> sg_requests s = [] \<or> sn_limit V \<Longrightarrow>
     serve_own V s (s\<lparr>sg_stopper := Stopped\<rparr>)"
| serve_stops:
    "sg_serve s = None \<Longrightarrow> sg_stopper s \<noteq> Waiting \<Longrightarrow> (sn_waits V \<Longrightarrow> sg_requests s = []) \<Longrightarrow>
     serve_own V s (s\<lparr>sg_serve := Some (sn_stopped V)\<rparr>)"
| run_returns:
    "sg_serve s = Some err \<Longrightarrow> sg_returned s = None \<Longrightarrow>
     serve_own V s (s\<lparr>sg_returned := Some (sn_result V err)\<rparr>)"

text \<open>Steps of the rest of the world: the context, the listener, the clients and their requests.\<close>

inductive serve_outside :: "'r serving \<Rightarrow> 'r serving \<Rightarrow> bool" where
  cancel: "serve_outside s (s\<lparr>sg_done := True\<rparr>)"
| serve_fails:
    "sg_serve s = None \<Longrightarrow> sg_stopper s = Waiting \<Longrightarrow> \<not> errors_is e ServerClosed \<Longrightarrow>
     serve_outside s (s\<lparr>sg_serve := Some (Some e)\<rparr>)"
| request: "serve_outside s (s\<lparr>sg_requests := sg_requests s @ [r]\<rparr>)"
| request_ends:
    "sg_requests s = rs @ r # rs' \<Longrightarrow> serve_outside s (s\<lparr>sg_requests := rs @ rs'\<rparr>)"

definition serve_step :: "serve_env \<Rightarrow> 'r serving \<Rightarrow> 'r serving \<Rightarrow> bool" where
  "serve_step V s t \<longleftrightarrow> serve_own V s t \<or> serve_outside s t"

definition serve_reaches :: "serve_env \<Rightarrow> 'r serving \<Rightarrow> bool" where
  "serve_reaches V s \<longleftrightarrow> (serve_step V)\<^sup>*\<^sup>* serving_start s"

section \<open>What holds in every run\<close>

definition serve_inv :: "serve_env \<Rightarrow> 'r serving \<Rightarrow> bool" where
  "serve_inv V s \<longleftrightarrow>
     (sg_stopper s \<noteq> Waiting \<longrightarrow> sg_done s) \<and>
     (\<forall>err. sg_serve s = Some err \<longrightarrow>
        (err = sn_stopped V \<and> sg_stopper s \<noteq> Waiting) \<or> (\<exists>e. err = Some e \<and> \<not> errors_is e ServerClosed)) \<and>
     (\<forall>r. sg_returned s = Some r \<longrightarrow> (\<exists>err. sg_serve s = Some err \<and> r = sn_result V err))"

lemma serve_step_inv:
  assumes "serve_step V s t" "serve_inv V s"
  shows "serve_inv V t"
  using assms(1) unfolding serve_step_def
proof
  assume "serve_own V s t"
  then show ?thesis
    by (cases rule: serve_own.cases) (use assms(2) in \<open>auto simp: serve_inv_def\<close>)
next
  assume "serve_outside s t"
  then show ?thesis
    by (cases rule: serve_outside.cases) (use assms(2) in \<open>auto simp: serve_inv_def\<close>)
qed

lemma serve_reaches_inv:
  assumes "serve_reaches V s"
  shows "serve_inv V s"
  using assms unfolding serve_reaches_def
proof (induction rule: rtranclp_induct)
  case base
  then show ?case by (simp add: serve_inv_def serving_start_def)
qed (rule serve_step_inv)

lemma serve_reaches_own: "serve_reaches V s \<Longrightarrow> serve_own V s t \<Longrightarrow> serve_reaches V t"
  by (auto simp: serve_reaches_def serve_step_def intro: rtranclp.rtrancl_into_rtrancl)

lemma serve_reaches_outside: "serve_reaches V s \<Longrightarrow> serve_outside s t \<Longrightarrow> serve_reaches V t"
  by (auto simp: serve_reaches_def serve_step_def intro: rtranclp.rtrancl_into_rtrancl)

lemma serve_reaches_start: "serve_reaches V serving_start"
  by (simp add: serve_reaches_def)

lemma serving_results:
  assumes "V \<in> {http1_serving, ws_serving, grpc_serving waits}"
  shows "sn_result V (sn_stopped V) = None"
    and "\<not> errors_is e ServerClosed \<Longrightarrow> sn_result V (Some e) = Some e"
  using assms
  by (auto simp: http1_serving_def ws_serving_def grpc_serving_def http1_Run_def ws_Run_def grpc_Run_def)

section \<open>Properties\<close>

text \<open>In every interleaving, what \<open>Run\<close> of the HTTP, the websocket and the gRPC server returns
  is nil when the context was cancelled and the server stopped for that, and otherwise the error
  of \<open>Serve\<close> as it is; then the goroutine that waits for the context is still there.\<close>

lemma serve_run_result:
  assumes "V \<in> {http1_serving, ws_serving, grpc_serving waits}" "serve_reaches V s" "sg_returned s = Some r"
  shows "(r = None \<and> sg_done s \<and> sg_stopper s \<noteq> Waiting) \<or>
    (\<exists>e. r = Some e \<and> sg_serve s = Some (Some e) \<and> \<not> errors_is e ServerClosed \<and>
       (\<not> sg_done s \<longrightarrow> sg_stopper s = Waiting))"
proof -
  have vi: "serve_inv V s" using assms(2) by (rule serve_reaches_inv)
  then obtain err where err: "sg_serve s = Some err" "r = sn_result V err"
    using assms(3) by (auto simp: serve_inv_def)
  then consider "err = sn_stopped V" "sg_stopper s \<noteq> Waiting" | e where "err = Some e" "\<not> errors_is e ServerClosed"
    using vi by (auto simp: serve_inv_def)
  then show ?thesis
  proof cases
    case 1
    with err vi serving_results(1) [OF assms(1)] show ?thesis by (simp add: serve_inv_def)
  next
    case 2
    with err vi serving_results(2) [OF assms(1)] show ?thesis by (auto simp: serve_inv_def)
  qed
qed


lemma serving_busy:
  "serve_reaches V ((serving_start :: nat serving)\<lparr>sg_requests := [5], sg_done := True\<rparr>)"
proof -
  have "serve_outside (serving_start :: nat serving) (serving_start\<lparr>sg_requests := [5]\<rparr>)"
    using serve_outside.request [of serving_start 5] by (simp add: serving_start_def)
  then have "serve_reaches V ((serving_start :: nat serving)\<lparr>sg_requests := [5]\<rparr>)"
    using serve_reaches_outside [OF serve_reaches_start] by blast
  from serve_reaches_outside [OF this serve_outside.cancel] show ?thesis by simp
qed


lemma serve_run_result_witness:
  "\<exists>s :: nat serving. serve_reaches ws_serving s \<and> sg_returned s = Some (Some (NetError 1)) \<and>
    sg_stopper s = Waiting \<and> sg_serve s = Some (Some (NetError 1))"
proof -
  let ?s = "(serving_start :: nat serving)\<lparr>sg_serve := Some (Some (NetError 1))\<rparr>"
  let ?t = "?s\<lparr>sg_returned := Some (ws_Run (Some (NetError 1)))\<rparr>"
  have "serve_reaches ws_serving ?s"
    by (rule serve_reaches_outside [OF serve_reaches_start serve_outside.serve_fails]) (simp_all add: serving_start_def)
  moreover have "serve_own ws_serving ?s ?t"
    using serve_own.run_returns [of ?s "Some (NetError 1)" ws_serving] by (simp add: serving_start_def ws_serving_def)
  ultimately have reach: "serve_reaches ws_serving ?t" by (rule serve_reaches_own)
  have "sg_returned ?t = Some (Some (NetError 1))" "\<not> sg_done ?t"
    by (simp_all add: serving_start_def ws_Run_def)
  with serve_run_result [OF _ reach, of False "Some (NetError 1)"] reach show ?thesis
    by (intro exI [of _ ?t]) simp
qed

end
