(* ===== verification/Parallel.thy ===== *)
theory Parallel
  imports Harness "HOL-Library.Multiset"
begin

text \<open>
  \<open>runParallelBench\<close> of \<open>rpcbench/bench_runner.go\<close> as a step relation: the goroutines that
  \<open>b.RunParallel\<close> starts share the iterations of the run, take their clients from one
  channel and send their totals on another, in any interleaving. The function \<open>parallel_run\<close>
  of \<open>Harness\<close> is shown to describe every run.
\<close>

section \<open>The goroutines\<close>

text \<open>
  A worker before \<open>c := <-clients\<close>; at \<open>p.Next()\<close> and in \<open>makeCall\<close> with its client, \<open>N\<close> and
  \<open>totalBytes\<close>; after its send on \<open>totalsChan\<close>; and after \<open>b.Fatal\<close>, which ends the goroutine.
\<close>

datatype 'b worker =
    Starting
  | Looping 'b int64 int64
  | Calling 'b int64 int64
  | Sent int64 int64
  | Fatal go_error

text \<open>
  The goroutine of the benchmark: inside \<open>b.RunParallel\<close>, which waits for the workers; in
  the loop over \<open>range nbClients\<close> with the receives that are left and its two sums; returned
  with the value of \<open>totalBytes / N\<close>.
\<close>

datatype main = Waiting | Collecting nat int64 int64 | Returned "int64 result"

text \<open>\<open>pr_left\<close> are the iterations \<open>p.Next()\<close> has not yet given to a worker.\<close>

record 'b bench =
  pr_left :: nat
  pr_clients :: "'b list"
  pr_workers :: "'b worker list"
  pr_totals :: "(int64 \<times> int64) list"
  pr_main :: main

definition bench_start :: "'b list \<Rightarrow> nat \<Rightarrow> 'b bench" where
  "bench_start clients iters =
     \<lparr>pr_left = iters, pr_clients = clients,
      pr_workers = replicate (length clients) Starting, pr_totals = [], pr_main = Waiting\<rparr>"

fun worker_done :: "'b worker \<Rightarrow> bool" where
  "worker_done (Sent n t) = True"
| "worker_done (Fatal e) = True"
| "worker_done _ = False"

fun worker_failed :: "'b worker \<Rightarrow> bool" where
  "worker_failed (Fatal e) = True"
| "worker_failed _ = False"

text \<open>
  The sends on \<open>totalsChan\<close> do not block, for its capacity is the number of workers. A call
  that panics, which would end the program, is not told apart from one that fails.
\<close>

inductive bench_step ::
  "('b \<Rightarrow> int result \<times> 'b) \<Rightarrow> 'b bench \<Rightarrow> 'b bench \<Rightarrow> bool" for call
where
  take_client:
    "pr_workers s = us @ Starting # vs \<Longrightarrow> pr_clients s = c # cs \<Longrightarrow>
     bench_step call s (s\<lparr>pr_workers := us @ Looping c 0 0 # vs, pr_clients := cs\<rparr>)"
| next_iteration:
    "pr_workers s = us @ Looping c n t # vs \<Longrightarrow> pr_left s = Suc k \<Longrightarrow>
     bench_step call s (s\<lparr>pr_workers := us @ Calling c n t # vs, pr_left := k\<rparr>)"
| call_returns:
    "pr_workers s = us @ Calling c n t # vs \<Longrightarrow> call c = (Inr x, c') \<Longrightarrow>
     bench_step call s (s\<lparr>pr_workers := us @ Looping c' (n + 1) (t + word_of_int x) # vs\<rparr>)"
| call_fails:
    "pr_workers s = us @ Calling c n t # vs \<Longrightarrow> call c = (Inl e, c') \<Longrightarrow>
     bench_step call s (s\<lparr>pr_workers := us @ Fatal e # vs\<rparr>)"
| send_totals:
    "pr_workers s = us @ Looping c n t # vs \<Longrightarrow> pr_left s = 0 \<Longrightarrow>
     bench_step call s
       (s\<lparr>pr_workers := us @ Sent n t # vs, pr_totals := pr_totals s @ [(n, t)]\<rparr>)"
| workers_done:
    "pr_main s = Waiting \<Longrightarrow> \<forall>w \<in> set (pr_workers s). worker_done w \<Longrightarrow>
     bench_step call s (s\<lparr>pr_main := Collecting (length (pr_workers s)) 0 0\<rparr>)"
| receive:
    "pr_main s = Collecting (Suc m) n t \<Longrightarrow> pr_totals s = (n', t') # chan \<Longrightarrow>
     bench_step call s (s\<lparr>pr_main := Collecting m (n + n') (t + t'), pr_totals := chan\<rparr>)"
| set_bytes:
    "pr_main s = Collecting 0 n t \<Longrightarrow>
     bench_step call s (s\<lparr>pr_main := Returned (go_div t n)\<rparr>)"

definition bench_reaches ::
  "('b \<Rightarrow> int result \<times> 'b) \<Rightarrow> 'b list \<Rightarrow> nat \<Rightarrow> 'b bench \<Rightarrow> bool" where
  "bench_reaches call clients iters s \<longleftrightarrow> (bench_step call)\<^sup>*\<^sup>* (bench_start clients iters) s"

section \<open>What the workers have done\<close>

text \<open>
  The part of a worker in the run: nothing before it has a client, then the number of
  iterations it was given and the client it started with.
\<close>

fun worker_did :: "('b \<Rightarrow> int result \<times> 'b) \<Rightarrow> 'b worker \<Rightarrow> (nat \<times> 'b) list \<Rightarrow> bool" where
  "worker_did call Starting p \<longleftrightarrow> p = []"
| "worker_did call (Looping c n t) p \<longleftrightarrow>
     (\<exists>k b. p = [(k, b)] \<and> call_loop call k 0 0 b = (Inr (n, t), c))"
| "worker_did call (Calling c n t) p \<longleftrightarrow>
     (\<exists>k b. p = [(Suc k, b)] \<and> call_loop call k 0 0 b = (Inr (n, t), c))"
| "worker_did call (Sent n t) p \<longleftrightarrow>
     (\<exists>k b. p = [(k, b)] \<and> parallel_worker call k b = Some (n, t))"
| "worker_did call (Fatal e) p \<longleftrightarrow>
     (\<exists>k b. p = [(k, b)] \<and> parallel_worker call k b = None)"

fun sent_totals :: "'b worker \<Rightarrow> (int64 \<times> int64) list" where
  "sent_totals (Sent n t) = [(n, t)]"
| "sent_totals _ = []"

definition sum_fst :: "(int64 \<times> int64) list \<Rightarrow> int64" where "sum_fst ps = sum_list (map fst ps)"
definition sum_snd :: "(int64 \<times> int64) list \<Rightarrow> int64" where "sum_snd ps = sum_list (map snd ps)"

lemma sums_simps [simp]:
  "sum_fst [] = 0" "sum_fst (p # ps) = fst p + sum_fst ps" "sum_fst (ps @ qs) = sum_fst ps + sum_fst qs"
  "sum_snd [] = 0" "sum_snd (p # ps) = snd p + sum_snd ps" "sum_snd (ps @ qs) = sum_snd ps + sum_snd qs"
  by (simp_all add: sum_fst_def sum_snd_def)

abbreviation all_sent :: "'b bench \<Rightarrow> (int64 \<times> int64) list" where
  "all_sent s \<equiv> concat (map sent_totals (pr_workers s))"

abbreviation failures :: "'b bench \<Rightarrow> nat" where
  "failures s \<equiv> length (filter worker_failed (pr_workers s))"

definition work_inv ::
  "('b \<Rightarrow> int result \<times> 'b) \<Rightarrow> 'b list \<Rightarrow> nat \<Rightarrow> 'b bench \<Rightarrow> bool" where
  "work_inv call clients iters s \<longleftrightarrow>
     (\<exists>ps. list_all2 (worker_did call) (pr_workers s) ps \<and>
        mset clients = mset (map snd (concat ps)) + mset (pr_clients s) \<and>
        iters = sum_list (map fst (concat ps)) + pr_left s) \<and>
     length (pr_workers s) = length clients"

text \<open>What the channel and the two sums hold together is what was sent.\<close>

fun main_inv :: "'b bench \<Rightarrow> main \<Rightarrow> bool" where
  "main_inv s Waiting \<longleftrightarrow>
     sum_fst (pr_totals s) = sum_fst (all_sent s) \<and> sum_snd (pr_totals s) = sum_snd (all_sent s) \<and>
     length (pr_totals s) = length (all_sent s)"
| "main_inv s (Collecting m n t) \<longleftrightarrow>
     (\<forall>w \<in> set (pr_workers s). worker_done w) \<and>
     n + sum_fst (pr_totals s) = sum_fst (all_sent s) \<and> t + sum_snd (pr_totals s) = sum_snd (all_sent s) \<and>
     m = length (pr_totals s) + failures s"
| "main_inv s (Returned r) \<longleftrightarrow>
     (\<forall>w \<in> set (pr_workers s). worker_done w) \<and> failures s = 0 \<and>
     r = go_div (sum_snd (all_sent s)) (sum_fst (all_sent s))"

lemma call_loop_snoc:
  "call_loop call k n t b = (Inr (n', t'), b') \<Longrightarrow>
     call_loop call (Suc k) n t b =
       (case call b' of
          (Inl e, b'') \<Rightarrow> (Inl e, b'')
        | (Inr x, b'') \<Rightarrow> (Inr (n' + 1, t' + word_of_int x), b''))"
proof (induction k arbitrary: n t b)
  case 0
  then show ?case by (simp split: prod.splits sum.splits)
next
  case (Suc k)
  then obtain x b1 where b1: "call b = (Inr x, b1)"
      "call_loop call k (n + 1) (t + word_of_int x) b1 = (Inr (n', t'), b')"
    by (auto split: prod.splits sum.splits)
  with Suc.IH [OF b1(2)] show ?case by (subst call_loop.simps) simp
qed

lemma work_inv_start: "work_inv call clients iters (bench_start clients iters)"
proof -
  have "list_all2 (worker_did call) (replicate n Starting) (replicate n [])" for n
    by (induction n) simp_all
  then show ?thesis
    by (auto simp: work_inv_def bench_start_def concat_replicate_trivial
        intro!: exI [of _ "replicate (length clients) []"])
qed

text \<open>A step of one worker changes the worker's own part only.\<close>

lemma work_inv_worker:
  assumes "work_inv call clients iters s" "pr_workers s = us @ w # vs"
    and "pr_workers s' = us @ w' # vs"
    and "\<And>p. worker_did call w p \<Longrightarrow>
      worker_did call w' (f p) \<and>
      mset (map snd (f p)) + mset (pr_clients s') = mset (map snd p) + mset (pr_clients s) \<and>
      sum_list (map fst (f p)) + pr_left s' = sum_list (map fst p) + pr_left s"
  shows "work_inv call clients iters s'"
proof -
  obtain ps p qs where ps: "list_all2 (worker_did call) us ps" "worker_did call w p"
      "list_all2 (worker_did call) vs qs"
      "mset clients = mset (map snd (concat (ps @ p # qs))) + mset (pr_clients s)"
      "iters = sum_list (map fst (concat (ps @ p # qs))) + pr_left s"
    using assms(1,2) by (auto simp: work_inv_def list_all2_append1 list_all2_Cons1)
  note p' = assms(4) [OF ps(2)]
  have "list_all2 (worker_did call) (pr_workers s') (ps @ f p # qs)"
    using ps p' assms(3) by (simp add: list_all2_appendI)
  moreover have "mset clients = mset (map snd (concat (ps @ f p # qs))) + mset (pr_clients s')"
    using ps(4) p' by (simp add: ac_simps)
  moreover have "iters = sum_list (map fst (concat (ps @ f p # qs))) + pr_left s'"
    using ps(5) p' by simp
  ultimately show ?thesis
    using assms(1-3) unfolding work_inv_def by auto
qed

lemma bench_step_work_inv:
  assumes "bench_step call s s'" "work_inv call clients iters s"
  shows "work_inv call clients iters s'"
  using assms
proof (cases rule: bench_step.cases)
  case (take_client us vs c cs)
  then show ?thesis
    by (intro work_inv_worker [where f = "\<lambda>_. [(0, c)]", OF assms(2) take_client(2)]) auto
next
  case (next_iteration us c n t vs k)
  then show ?thesis
    by (intro work_inv_worker [where f = "map (apfst Suc)", OF assms(2) next_iteration(2)]) auto
next
  case (call_returns us c n t vs x c')
  then show ?thesis
    by (intro work_inv_worker [where f = id, OF assms(2) call_returns(2)]) (auto simp del: call_loop.simps simp: call_loop_snoc)
next
  case (call_fails us c n t vs e c')
  then show ?thesis
    by (intro work_inv_worker [where f = id, OF assms(2) call_fails(2)])
      (auto simp del: call_loop.simps simp: call_loop_snoc parallel_worker_def)
next
  case (send_totals us c n t vs)
  then show ?thesis
    by (intro work_inv_worker [where f = id, OF assms(2) send_totals(2)]) (auto simp: parallel_worker_def)
qed (simp_all add: work_inv_def)

section \<open>What the channel holds\<close>

lemma main_inv_start: "main_inv (bench_start clients iters) (pr_main (bench_start clients iters))"
  by (simp add: bench_start_def concat_replicate_trivial map_replicate_const)

text \<open>Before all workers are done, the benchmark's goroutine is inside \<open>b.RunParallel\<close>.\<close>

lemma main_inv_busy:
  assumes "main_inv s (pr_main s)" "w \<in> set (pr_workers s)" "\<not> worker_done w"
  shows "pr_main s = Waiting"
  using assms by (cases "pr_main s") auto

lemma main_inv_worker:
  assumes "main_inv s (pr_main s)" "pr_workers s = us @ w # vs" "\<not> worker_done w"
    and "pr_totals s' = pr_totals s @ sent_totals w'" "pr_main s' = pr_main s"
    and "pr_workers s' = us @ w' # vs"
  shows "main_inv s' (pr_main s')"
proof -
  have "pr_main s = Waiting" using assms(2,3) by (intro main_inv_busy [OF assms(1)]) auto
  moreover have "sent_totals w = []" using assms(3) by (cases w) simp_all
  ultimately show ?thesis using assms(1,2,4-6) by (simp add: ac_simps)
qed

lemma bench_step_main_inv:
  assumes "bench_step call s s'" "main_inv s (pr_main s)"
  shows "main_inv s' (pr_main s')"
  using assms(1)
proof (cases rule: bench_step.cases)
  case (take_client us vs c cs)
  then show ?thesis by (intro main_inv_worker [OF assms(2) take_client(2)]) simp_all
next
  case (next_iteration us c n t vs k)
  then show ?thesis by (intro main_inv_worker [OF assms(2) next_iteration(2)]) simp_all
next
  case (call_returns us c n t vs x c')
  then show ?thesis by (intro main_inv_worker [OF assms(2) call_returns(2)]) simp_all
next
  case (call_fails us c n t vs e c')
  then show ?thesis by (intro main_inv_worker [OF assms(2) call_fails(2)]) simp_all
next
  case (send_totals us c n t vs)
  then show ?thesis by (intro main_inv_worker [OF assms(2) send_totals(2)]) simp_all
next
  case workers_done
  have "length ws = length (concat (map sent_totals ws)) + length (filter worker_failed ws)"
    if "\<forall>w \<in> set ws. worker_done w" for ws :: "'a worker list"
    using that
  proof (induction ws)
    case (Cons w ws)
    then show ?case by (cases w) simp_all
  qed simp
  from this [OF workers_done(3)] workers_done assms(2) show ?thesis by simp
next
  case (receive m n t n' t' chan)
  with assms(2) show ?thesis by (simp add: ac_simps)
next
  case (set_bytes n t)
  with assms(2) show ?thesis by auto
qed

text \<open>A worker only stops when no iteration is left.\<close>

lemma bench_step_left:
  assumes "bench_step call s s'" "all_sent s \<noteq> [] \<longrightarrow> pr_left s = 0"
  shows "all_sent s' \<noteq> [] \<longrightarrow> pr_left s' = 0"
  using assms by (cases rule: bench_step.cases) auto

lemma bench_reaches_inv:
  assumes "bench_reaches call clients iters s"
  shows "work_inv call clients iters s" "main_inv s (pr_main s)"
    and "all_sent s \<noteq> [] \<Longrightarrow> pr_left s = 0"
proof -
  from assms have "(bench_step call)\<^sup>*\<^sup>* (bench_start clients iters) s"
    by (simp add: bench_reaches_def)
  then have "work_inv call clients iters s \<and> main_inv s (pr_main s) \<and> (all_sent s \<noteq> [] \<longrightarrow> pr_left s = 0)"
  proof induction
    case base
    show ?case
      using work_inv_start main_inv_start
      by (auto simp: bench_start_def concat_replicate_trivial map_replicate_const)
  next
    case (step s s')
    then show ?case
      using bench_step_work_inv bench_step_main_inv bench_step_left by blast
  qed
  then show "work_inv call clients iters s" "main_inv s (pr_main s)" "all_sent s \<noteq> [] \<Longrightarrow> pr_left s = 0"
    by simp_all
qed

section \<open>Every run is one of the function\<close>

text \<open>Workers that have all sent their totals did what \<open>parallel_worker\<close> computes.\<close>

lemma all_workers_sent:
  assumes "list_all2 (worker_did call) ws ps" "\<forall>w \<in> set ws. worker_done w"
    and "filter worker_failed ws = []"
  shows "List.map_filter (\<lambda>(k, b). parallel_worker call k b) (concat ps) = concat (map sent_totals ws)
    \<and> length (concat ps) = length ws \<and> length (concat (map sent_totals ws)) = length ws"
  using assms
proof (induction rule: list_all2_induct)
  case Nil
  then show ?case by (simp add: map_filter_simps)
next
  case (Cons w ws p ps)
  then show ?case by (cases w) (auto simp: map_filter_simps)
qed

lemma bench_returned:
  assumes "bench_reaches call clients iters s" "pr_main s = Returned r" "clients \<noteq> []"
  obtains runs where "mset (map snd runs) = mset clients" "sum_list (map fst runs) = iters"
    "parallel_run call runs = Some r"
proof -
  note inv = bench_reaches_inv [OF assms(1)]
  obtain ps where ps: "list_all2 (worker_did call) (pr_workers s) ps"
      "mset clients = mset (map snd (concat ps)) + mset (pr_clients s)"
      "iters = sum_list (map fst (concat ps)) + pr_left s"
    and len: "length (pr_workers s) = length clients"
    using inv(1) by (auto simp: work_inv_def)
  have main: "\<forall>w \<in> set (pr_workers s). worker_done w" "filter worker_failed (pr_workers s) = []"
      "r = go_div (sum_snd (all_sent s)) (sum_fst (all_sent s))"
    using inv(2) assms(2) by simp_all
  note sent = all_workers_sent [OF ps(1) main(1,2)]
  have "size (mset clients) = size (mset (map snd (concat ps))) + size (mset (pr_clients s))"
    unfolding ps(2) by simp
  then have "pr_clients s = []" using sent len by simp
  moreover have "pr_left s = 0" using inv(3) sent len assms(3) by fastforce
  moreover have "parallel_run call (concat ps) = Some r"
    using sent main(3) by (simp add: parallel_run_def collect_totals_enough sum_fst_def sum_snd_def)
  ultimately show ?thesis using ps(2,3) by (intro that [of "concat ps"]) simp_all
qed

section \<open>Progress\<close>

text \<open>A bound on the steps that are left.\<close>

fun worker_rank :: "'b worker \<Rightarrow> nat" where
  "worker_rank Starting = 3"
| "worker_rank (Looping c n t) = 2"
| "worker_rank (Calling c n t) = 4"
| "worker_rank (Sent n t) = 0"
| "worker_rank (Fatal e) = 0"

fun main_rank :: "nat \<Rightarrow> main \<Rightarrow> nat" where
  "main_rank nb Waiting = nb + 2"
| "main_rank nb (Collecting m n t) = m + 1"
| "main_rank nb (Returned r) = 0"

definition bench_rank :: "'b bench \<Rightarrow> nat" where
  "bench_rank s =
     3 * pr_left s + sum_list (map worker_rank (pr_workers s)) +
     main_rank (length (pr_workers s)) (pr_main s)"

lemma bench_step_rank: "bench_step call s s' \<Longrightarrow> bench_rank s' < bench_rank s"
  by (cases rule: bench_step.cases) (auto simp: bench_rank_def)

text \<open>A worker that is not done can always take a step.\<close>

lemma worker_can_step:
  assumes "work_inv call clients iters s" "w \<in> set (pr_workers s)" "\<not> worker_done w"
  shows "\<exists>s'. bench_step call s s'"
proof -
  obtain us vs where w: "pr_workers s = us @ w # vs"
    using assms(2) by (meson split_list)
  show ?thesis
  proof (cases w)
    case Starting
    have "length (concat ps) + length (filter (\<lambda>w. w = Starting) ws) = length ws"
      if "list_all2 (worker_did call) ws ps" for ws :: "'a worker list" and ps
      using that
    proof (induction rule: list_all2_induct)
      case (Cons w ws p ps)
      then show ?case by (cases w) auto
    qed simp
    moreover obtain ps where ps: "list_all2 (worker_did call) (pr_workers s) ps"
        "mset clients = mset (map snd (concat ps)) + mset (pr_clients s)"
        "length (pr_workers s) = length clients"
      using assms(1) by (auto simp: work_inv_def)
    ultimately have "length (concat ps) < length clients"
      using w Starting by fastforce
    moreover have "size (mset clients) = size (mset (map snd (concat ps))) + size (mset (pr_clients s))"
      unfolding ps(2) by simp
    ultimately have "pr_clients s \<noteq> []" by auto
    then show ?thesis
      using bench_step.take_client [of s us vs] w Starting by (cases "pr_clients s") auto
  next
    case (Looping c n t)
    then show ?thesis
      using bench_step.next_iteration [of s us c n t vs] bench_step.send_totals [of s us c n t vs] w
      by (cases "pr_left s") auto
  next
    case (Calling c n t)
    then show ?thesis
      using bench_step.call_returns [of s us c n t vs call] bench_step.call_fails [of s us c n t vs call] w
      by (cases "call c"; cases "fst (call c)") auto
  qed (use assms(3) in simp_all)
qed

text \<open>The benchmark's goroutine is stuck when it waits for a total nobody will send.\<close>

definition starved :: "'b bench \<Rightarrow> bool" where
  "starved s \<longleftrightarrow>
     (case pr_main s of Collecting m n t \<Rightarrow> 0 < m \<and> pr_totals s = [] | _ \<Rightarrow> False)"

lemma bench_stuck:
  assumes "work_inv call clients iters s" "\<nexists>s'. bench_step call s s'"
  shows "(\<exists>r. pr_main s = Returned r) \<or> starved s"
proof -
  have all_done: "\<forall>w \<in> set (pr_workers s). worker_done w"
    using worker_can_step [OF assms(1)] assms(2) by blast
  show ?thesis
  proof (cases "pr_main s")
    case Waiting
    then show ?thesis using all_done assms(2) bench_step.workers_done by blast
  next
    case (Collecting m n t)
    then have "0 < m" "pr_totals s = []"
      using assms(2) bench_step.set_bytes [of s n t call]
        bench_step.receive [of s "m - 1" n t _ _ _ call]
      by (cases m; cases "pr_totals s"; auto)+
    with Collecting show ?thesis by (simp add: starved_def)
  qed simp
qed

lemma finished_no_step:
  assumes "main_inv s (pr_main s)" "(\<exists>r. pr_main s = Returned r) \<or> starved s"
  shows "\<not> bench_step call s s'"
proof
  assume "bench_step call s s'"
  moreover have "\<forall>w \<in> set (pr_workers s). worker_done w"
    using assms by (auto simp: starved_def split: main.splits)
  ultimately show False
    using assms(2) by (cases rule: bench_step.cases) (auto simp: starved_def)
qed

lemma starved_failed:
  assumes "main_inv s (pr_main s)"
  shows "starved s \<Longrightarrow> 0 < failures s" and "pr_main s = Returned r \<Longrightarrow> failures s = 0"
  using assms by (auto simp: starved_def split: main.splits)

lemma bench_step_failures: "bench_step call s s' \<Longrightarrow> failures s \<le> failures s'"
  by (cases rule: bench_step.cases) auto

lemma bench_steps_failures: "(bench_step call)\<^sup>*\<^sup>* s s' \<Longrightarrow> failures s \<le> failures s'"
  by (induction rule: rtranclp_induct) (use bench_step_failures le_trans in blast)+

text \<open>Every run can be completed, whatever it did so far.\<close>

lemma bench_completes: "\<exists>s'. (bench_step call)\<^sup>*\<^sup>* s s' \<and> (\<nexists>s''. bench_step call s' s'')"
proof (induction "bench_rank s" arbitrary: s rule: less_induct)
  case less
  show ?case
  proof (cases "\<exists>t. bench_step call s t")
    case True
    then obtain t where t: "bench_step call s t" by blast
    with less [of t] bench_step_rank obtain s' where
      "(bench_step call)\<^sup>*\<^sup>* t s'" "\<nexists>s''. bench_step call s' s''" by blast
    with t show ?thesis by (meson converse_rtranclp_into_rtranclp)
  qed blast
qed

lemma no_failures:
  assumes "work_inv call clients iters s"
    and "\<And>b k. b \<in> set clients \<Longrightarrow> parallel_worker call k b \<noteq> None"
  shows "failures s = 0"
proof -
  obtain ps where ps: "list_all2 (worker_did call) (pr_workers s) ps"
      "mset clients = mset (map snd (concat ps)) + mset (pr_clients s)"
    using assms(1) by (auto simp: work_inv_def)
  have "set (map snd (concat ps)) \<subseteq> set clients"
    using ps(2) by (metis set_mset_mset mset_subset_eq_add_left set_mset_mono)
  then have "\<forall>p \<in> set ps. \<forall>(k, b) \<in> set p. parallel_worker call k b \<noteq> None"
    using assms(2) by fastforce
  with ps(1) have "\<forall>w \<in> set (pr_workers s). \<not> worker_failed w"
  proof (induction rule: list_all2_induct)
    case (Cons w ws p ps)
    then show ?case by (cases w) auto
  qed simp
  then show ?thesis by (simp add: filter_False)
qed

lemma bench_always_returns:
  assumes "bench_reaches call clients iters s" "\<nexists>s'. bench_step call s s'"
    and "\<And>b k. b \<in> set clients \<Longrightarrow> parallel_worker call k b \<noteq> None"
  obtains r where "pr_main s = Returned r"
proof -
  note inv = bench_reaches_inv [OF assms(1)]
  have "failures s = 0" using inv(1) assms(3) by (rule no_failures)
  then have "\<not> starved s" using starved_failed(1) [OF inv(2)] by auto
  with bench_stuck [OF inv(1) assms(2)] that show ?thesis by blast
qed

context rpc_system
begin

lemma parallel_any_schedule:
  assumes "\<forall>b \<in> set clients. bench_ok inv max_tree max_levels max_hex b" "clients \<noteq> []"
    and "call \<in> set ClientCallMatrix" "0 < iters" "iters < 2 ^ 63"
    and "bench_reaches (makeCall cl aops rops call) clients iters s"
  shows "failures s = 0"
    and "(\<nexists>s'. bench_step (makeCall cl aops rops call) s s') \<Longrightarrow>
      \<exists>per_op. pr_main s = Returned (Inr per_op)"
proof -
  let ?call = "makeCall cl aops rops call"
  have ok: "parallel_worker ?call k b \<noteq> None" if "b \<in> set clients" for k b
    using call_loop_clean [OF _ assms(3), of b k] assms(1) that by (fastforce simp: parallel_worker_def)
  show "failures s = 0"
    using bench_reaches_inv(1) [OF assms(6)] ok by (rule no_failures)
  assume "\<nexists>s'. bench_step ?call s s'"
  then obtain r where r: "pr_main s = Returned r"
    using bench_always_returns [OF assms(6) _ ok] by blast
  obtain runs where runs: "mset (map snd runs) = mset clients" "sum_list (map fst runs) = iters"
      "parallel_run ?call runs = Some r"
    using assms(6) r assms(2) by (rule bench_returned)
  have "snd ` set runs = set clients" using runs(1) by (metis set_map set_mset_mset)
  then have "\<forall>(k, b) \<in> set runs. bench_ok inv max_tree max_levels max_hex b"
    using assms(1) by force
  from parallel_run_ok [OF this assms(3)] runs(2,3) assms(4,5) r
  show "\<exists>per_op. pr_main s = Returned (Inr per_op)" by auto
qed

end

section \<open>Properties\<close>

text \<open>C11: Whatever the interleaving of the workers of a parallel run, the value it reports is the
  one \<open>parallel_run\<close> computes for some distribution of its iterations over its clients.\<close>

theorem parallel_bench_refines:
  assumes "bench_reaches call clients iters s" "pr_main s = Returned r" "clients \<noteq> []"
  shows "\<exists>runs. mset (map snd runs) = mset clients \<and> sum_list (map fst runs) = iters \<and>
    parallel_run call runs = Some r"
  using bench_returned [OF assms] by blast

lemma parallel_bench_refines_witness:
  "\<exists>s r runs. bench_reaches (makeCall ideal_ops tn_ops tn_ops ClientCallNop) [small_client, small_client] 3 s \<and>
    pr_main s = Returned r \<and> mset (map snd runs) = {#small_client, small_client#} \<and>
    sum_list (map fst runs) = 3 \<and>
    parallel_run (makeCall ideal_ops tn_ops tn_ops ClientCallNop) runs = Some r"
proof -
  let ?call = "makeCall ideal_ops tn_ops tn_ops ClientCallNop"
  obtain s where s: "bench_reaches ?call [small_client, small_client] 3 s" "\<nexists>s'. bench_step ?call s s'"
    using bench_completes [of ?call "bench_start [small_client, small_client] 3"]
    by (auto simp: bench_reaches_def)
  have "?call b = (Inr 0, b)" for b
    by (simp add: call_nop_def ideal_ops_def)
  then have "\<exists>res. call_loop ?call k n t b = (Inr res, b)" for k n t b
    by (induction k arbitrary: n t) (simp_all del: makeCall.simps)
  then have "parallel_worker ?call k b \<noteq> None" for k and b :: "unit benchClient"
    unfolding parallel_worker_def by (metis fst_conv option.distinct(1) sum.simps(6))
  with s obtain r where "pr_main s = Returned r" by (meson bench_always_returns)
  with parallel_bench_refines [OF s(1) this] s(1) show ?thesis by auto
qed

text \<open>C12: A parallel run cannot go on for ever, and where no goroutine can take a step it has
  returned, if no worker failed; it is blocked on \<open>totalsChan\<close>, if one did.\<close>

theorem parallel_bench_progress:
  assumes "bench_reaches call clients iters s"
  shows "(\<forall>s'. bench_step call s s' \<longrightarrow> bench_rank s' < bench_rank s) \<and>
    ((\<nexists>s'. bench_step call s s') \<longleftrightarrow> (\<exists>r. pr_main s = Returned r) \<or> starved s) \<and>
    (starved s \<longrightarrow> 0 < failures s) \<and>
    (0 < failures s \<longrightarrow> (\<forall>s' r. (bench_step call)\<^sup>*\<^sup>* s s' \<longrightarrow> pr_main s' \<noteq> Returned r))"
proof (intro conjI allI impI)
  note inv = bench_reaches_inv [OF assms]
  show "bench_rank s' < bench_rank s" if "bench_step call s s'" for s'
    using that by (rule bench_step_rank)
  show "(\<nexists>s'. bench_step call s s') \<longleftrightarrow> (\<exists>r. pr_main s = Returned r) \<or> starved s"
    using bench_stuck [OF inv(1)] finished_no_step [OF inv(2)] by blast
  show "0 < failures s" if "starved s"
    using that by (rule starved_failed(1) [OF inv(2)])
  fix s' r
  assume failed: "0 < failures s" and steps: "(bench_step call)\<^sup>*\<^sup>* s s'"
  have "bench_reaches call clients iters s'"
    using assms steps unfolding bench_reaches_def by (rule rtranclp_trans)
  note inv' = bench_reaches_inv(2) [OF this]
  show "pr_main s' \<noteq> Returned r"
    using starved_failed(2) [OF inv'] bench_steps_failures [OF steps] failed by fastforce
qed

lemma parallel_bench_progress_witness:
  "(\<exists>s. bench_reaches (makeCall ideal_ops tn_ops tn_ops (ClientCallOther 7)) [small_client] 1 s \<and>
    starved s \<and> 0 < failures s \<and> (\<nexists>s'. bench_step (makeCall ideal_ops tn_ops tn_ops (ClientCallOther 7)) s s'))"
proof -
  let ?call = "makeCall ideal_ops tn_ops tn_ops (ClientCallOther 7)"
  let ?e = "Errorf ''unknown call in makeCall(): %d'' [7]"
  let ?s = "\<lparr>pr_left = 0, pr_clients = [], pr_workers = [Fatal ?e], pr_totals = [],
    pr_main = Collecting 1 0 0\<rparr> :: unit benchClient bench"
  have "(bench_step ?call)\<^sup>*\<^sup>* (bench_start [small_client] 1) ?s"
    apply (simp add: bench_start_def)
    apply (rule converse_rtranclp_into_rtranclp, rule bench_step.take_client [where us = "[]"], simp, simp)
    apply (rule converse_rtranclp_into_rtranclp, rule bench_step.next_iteration [where us = "[]"], simp, simp)
    apply (rule converse_rtranclp_into_rtranclp, rule bench_step.call_fails [where us = "[]"], simp, simp)
    apply (rule converse_rtranclp_into_rtranclp, rule bench_step.workers_done, simp, simp)
    by simp
  then have reach: "bench_reaches ?call [small_client] 1 ?s" by (simp add: bench_reaches_def)
  have "starved ?s" by (simp add: starved_def)
  with parallel_bench_progress [OF reach] reach show ?thesis by blast
qed

end
