(* ===== verification/Http1.thy ===== *)
theory Http1
  imports Benches
begin

text \<open>
  \<open>internal/rpc/http1\<close>: every call is one HTTP request with a binary body. This theory has
  the handlers and the mux of \<open>http1_server.go\<close> and the client of \<open>http1_client.go\<close>, and
  shows that they meet the contract of the harness. What the handlers use of \<open>net/http\<close>
  is the request, the response writer and the dispatch on the path.
\<close>

section \<open>Requests and responses\<close>

datatype http_method = GET | POST

record http_request =
  rq_method :: http_method
  rq_path :: string
  rq_ctype :: string
  rq_body :: source

text \<open>
  A \<open>ResponseWriter\<close>: \<open>rw_status\<close> is the first status a handler sets (the handlers set one
  only before they write, and \<open>net/http\<close> sends 200 when there is none), \<open>rw_dst\<close> the
  body, \<open>rw_duplex\<close> what \<open>EnableFullDuplex\<close> returns.
\<close>

record response_writer =
  rw_status :: "nat option"
  rw_dst :: sink
  rw_duplex :: "go_error option"

definition WriteHeader :: "nat \<Rightarrow> response_writer \<Rightarrow> response_writer" where
  "WriteHeader code w =
     (case rw_status w of None \<Rightarrow> w\<lparr>rw_status := Some code\<rparr> | Some _ \<Rightarrow> w)"

definition rw_write :: "response_writer \<Rightarrow> byte list \<Rightarrow> go_error option \<times> response_writer" where
  "rw_write w p = (case dst_write (rw_dst w) p of (err, d) \<Rightarrow> (err, w\<lparr>rw_dst := d\<rparr>))"

definition final_status :: "response_writer \<Rightarrow> nat" where
  "final_status w = (case rw_status w of None \<Rightarrow> 200 | Some c \<Rightarrow> c)"

text \<open>\<open>bufio.NewReader\<close> and \<open>bufio.NewWriter\<close> with their default size.\<close>

definition new_reader :: "source \<Rightarrow> breader" where
  "new_reader s = \<lparr>br_buf = [], br_size = 4096, br_src = s\<rparr>"

definition new_writer :: "sink \<Rightarrow> bwriter" where
  "new_writer d = \<lparr>bw_buf = [], bw_size = 4096, bw_err = None, bw_dst = d\<rparr>"

section \<open>The handlers\<close>

definition handleNop :: "response_writer \<Rightarrow> http_request \<Rightarrow> response_writer" where
  "handleNop w r = WriteHeader 200 w"

definition handleAdd :: "response_writer \<Rightarrow> http_request \<Rightarrow> response_writer" where
  "handleAdd w r =
     (if rq_ctype r = ''application/json'' then WriteHeader 400 w
      else (case ReadInt64 br_read (new_reader (rq_body r)) of
              (Inl e, r1) \<Rightarrow> WriteHeader 400 w
            | (Inr a, r1) \<Rightarrow>
                (case ReadInt64 br_read r1 of
                   (Inl e, r2) \<Rightarrow> WriteHeader 400 w
                 | (Inr b, r2) \<Rightarrow> snd (WriteInt64 rw_write w (a + b)))))"

definition handleMultTree :: "response_writer \<Rightarrow> http_request \<Rightarrow> response_writer" where
  "handleMultTree w r =
     (if rq_ctype r = ''application/json'' then WriteHeader 400 w
      else (case rw_duplex w of
              Some e \<Rightarrow> WriteHeader 500 w
            | None \<Rightarrow>
                (case DoMultTreeRequest br_read bw_write (new_reader (rq_body r))
                        (new_writer (rw_dst w)) of
                   (Some e, _, wr) \<Rightarrow> w\<lparr>rw_dst := bw_dst wr\<rparr>
                 | (None, _, wr) \<Rightarrow> w\<lparr>rw_dst := bw_dst (snd (bw_flush wr))\<rparr>)))"

definition handleToHex :: "response_writer \<Rightarrow> http_request \<Rightarrow> response_writer" where
  "handleToHex w r =
     (if rq_ctype r = ''application/json'' then WriteHeader 400 w
      else (case rw_duplex w of
              Some e \<Rightarrow> WriteHeader 500 w
            | None \<Rightarrow>
                (case io_copy (hex_encoder_write rw_write) w (rq_body r) of
                   (err, w', _) \<Rightarrow> w')))"

text \<open>
  The mux of \<open>newHttp1Server\<close>: a pattern without a method or a trailing slash matches its
  path only, for every method.
\<close>

definition http1_mux ::
  "(string \<times> (response_writer \<Rightarrow> http_request \<Rightarrow> response_writer)) list" where
  "http1_mux =
     [(''/nop'', handleNop), (''/add'', handleAdd),
      (''/multTree'', handleMultTree), (''/toHex'', handleToHex)]"

definition serve_http :: "response_writer \<Rightarrow> http_request \<Rightarrow> response_writer" where
  "serve_http w r =
     (case map_of http1_mux (rq_path r) of
        Some h \<Rightarrow> h w r
      | None \<Rightarrow> WriteHeader 404 w)"

section \<open>The client\<close>

text \<open>
  The buffers \<open>bodyWriter\<close> and \<open>bodyReader\<close> are emptied before each use and consumed by
  the request; the URLs are \<open>addr\<close> and a path.
\<close>

record http1Client =
  hc_isJson :: bool
  hc_tree :: TreeNodeImpl
  hc_nopURL :: string
  hc_addURL :: string
  hc_treeURL :: string
  hc_hexURL :: string

text \<open>
  \<open>(*http.Client).Get\<close> and \<open>Post\<close>: an error, or the status and the body of the response.
\<close>

type_synonym 'n transport =
  "'n \<Rightarrow> http_method \<Rightarrow> string \<Rightarrow> string \<Rightarrow> byte list \<Rightarrow> (nat \<times> source) result \<times> 'n"

definition newHttp1Client :: "string \<Rightarrow> http1Client" where
  "newHttp1Client addr =
     \<lparr>hc_isJson = False, hc_tree = tn_zero,
      hc_nopURL = ''http://'' @ addr @ ''/nop'',
      hc_addURL = ''http://'' @ addr @ ''/add'',
      hc_treeURL = ''http://'' @ addr @ ''/multTree'',
      hc_hexURL = ''http://'' @ addr @ ''/toHex''\<rparr>"

definition http1_Nop ::
  "'n transport \<Rightarrow> http1Client \<times> 'n \<Rightarrow> go_error option \<times> http1Client \<times> 'n" where
  "http1_Nop hc st =
     (case st of (c, n) \<Rightarrow>
       (case hc n GET (hc_nopURL c) '''' [] of
          (Inl e, n') \<Rightarrow> (Some e, c, n')
        | (Inr _, n') \<Rightarrow> (None, c, n')))"

definition http1_Add ::
  "'n transport \<Rightarrow> http1Client \<times> 'n \<Rightarrow> int64 \<Rightarrow> int64 \<Rightarrow> int64 result \<times> http1Client \<times> 'n"
where
  "http1_Add hc st a b =
     (case st of (c, n) \<Rightarrow>
       (if hc_isJson c then (Inl (Panic ''todo''), c, n)
        else
       (case WriteInt64 buffer_write [] a of
          (Some e, _) \<Rightarrow> (Inl e, c, n)
        | (None, body1) \<Rightarrow>
       (case WriteInt64 buffer_write body1 b of
          (Some e, _) \<Rightarrow> (Inl e, c, n)
        | (None, body) \<Rightarrow>
       (case hc n POST (hc_addURL c) ''application/octet-stream'' body of
          (Inl e, n') \<Rightarrow> (Inl e, c, n')
        | (Inr (status, r), n') \<Rightarrow> (fst (ReadInt64 src_read r), c, n'))))))"

definition http1_MultTreeValues ::
  "'n transport \<Rightarrow> http1Client \<times> 'n \<Rightarrow> int64 \<Rightarrow> (TreeNodeImpl \<Rightarrow> TreeNodeImpl result) \<Rightarrow>
     TreeNodeImpl result \<times> http1Client \<times> 'n"
where
  "http1_MultTreeValues hc st mult fillArgs =
     (case st of (c, n) \<Rightarrow>
       (case fillArgs (tn_Reset (hc_tree c)) of
          Inl e \<Rightarrow> (Inl e, c\<lparr>hc_tree := tn_Reset (hc_tree c)\<rparr>, n)
        | Inr tree \<Rightarrow>
       (let c = c\<lparr>hc_tree := tree\<rparr> in
       (if hc_isJson c then (Inl (Panic ''todo''), c, n)
        else
       (case WriteMultTreeRequest buffer_write mult tree [] of
          (Some e, _) \<Rightarrow> (Inl e, c, n)
        | (None, body) \<Rightarrow>
       (case hc n POST (hc_treeURL c) ''application/octet-stream'' body of
          (Inl e, n') \<Rightarrow> (Inl e, c, n')
        | (Inr (status, r), n') \<Rightarrow>
            (case ReadMultTreeReponse br_read tree (new_reader r) of
               (Some e, tree', _) \<Rightarrow>
                 (Inl (wrap_v ''error reading reply from server'' [] e), c\<lparr>hc_tree := tree'\<rparr>, n')
             | (None, tree', _) \<Rightarrow> (Inr tree', c\<lparr>hc_tree := tree'\<rparr>, n'))))))))"

definition http1_ToHex ::
  "'n transport \<Rightarrow> http1Client \<times> 'n \<Rightarrow> byte list \<Rightarrow> byte list \<Rightarrow>
     go_error option \<times> byte list \<times> http1Client \<times> 'n"
where
  "http1_ToHex hc st inp outp =
     (case st of (c, n) \<Rightarrow>
       (if hc_isJson c then (Some (Panic ''todo''), outp, c, n)
        else
       (case hc n POST (hc_hexURL c) ''application/octet-stream'' inp of
          (Inl e, n') \<Rightarrow> (Some e, outp, c, n')
        | (Inr (status, r), n') \<Rightarrow>
            (case read_full src_read (length outp) [] r of
               (Inl e, _) \<Rightarrow> (Some e, outp, c, n')
             | (Inr bs, _) \<Rightarrow> (None, bs, c, n')))))"

definition http1_client_ops ::
  "'n transport \<Rightarrow> (http1Client \<times> 'n, TreeNodeImpl, TreeNodeImpl) client_ops"
where
  "http1_client_ops hc =
     \<lparr>cl_Nop = http1_Nop hc,
      cl_Add = http1_Add hc,
      cl_MultTreeValues = http1_MultTreeValues hc,
      cl_ToHex = http1_ToHex hc\<rparr>"

section \<open>Client and server connected\<close>

interpretation rw: byte_writer rw_write "\<lambda>w. sk_out (rw_dst w)" "\<lambda>w. sk_room (rw_dst w) = None"
proof unfold_locales
  fix w p
  show "\<exists>k. sk_out (rw_dst (snd (rw_write w p))) = sk_out (rw_dst w) @ take k p"
    using dst.wr_prefix [of "rw_dst w" p] by (auto simp: rw_write_def split: prod.splits)
  show "fst (rw_write w p) = None \<Longrightarrow> sk_out (rw_dst (snd (rw_write w p))) = sk_out (rw_dst w) @ p"
    using dst.wr_None [of "rw_dst w" p] by (auto simp: rw_write_def split: prod.splits)
  show "sk_room (rw_dst w) = None \<Longrightarrow>
      fst (rw_write w p) = None \<and> sk_room (rw_dst (snd (rw_write w p))) = None"
    using dst.wr_reliable [of "rw_dst w" p] by (auto simp: rw_write_def split: prod.splits)
qed

text \<open>
  The transport when the other end is the server of this package: the path of the URL
  selects the handler, bodies arrive in pieces whose sizes are the state, and both end with
  \<open>EOF\<close>. The connection accepts everything and full duplex is available, as it is for
  HTTP/1 in \<open>net/http\<close>.
\<close>

definition url_path :: "string \<Rightarrow> string \<Rightarrow> string" where
  "url_path addr url = drop (length (''http://'' @ addr)) url"

definition fresh_response :: response_writer where
  "fresh_response =
     \<lparr>rw_status = None, rw_dst = \<lparr>sk_out = [], sk_room = None, sk_err = EOF\<rparr>, rw_duplex = None\<rparr>"

definition http1_peer :: "string \<Rightarrow> nat list transport" where
  "http1_peer addr cuts meth url ctype body =
     (case cut_bytes cuts body of (chunks, cuts1) \<Rightarrow>
        let w = serve_http fresh_response
                  \<lparr>rq_method = meth, rq_path = url_path addr url, rq_ctype = ctype,
                   rq_body = Source chunks EOF\<rparr>
        in (case cut_bytes cuts1 (sk_out (rw_dst w)) of (arrived, cuts2) \<Rightarrow>
              (Inr (final_status w, Source arrived EOF), cuts2)))"

definition http1_ready :: "string \<Rightarrow> http1Client \<times> nat list \<Rightarrow> bool" where
  "http1_ready addr st \<longleftrightarrow>
     (\<exists>t. fst st = (newHttp1Client addr)\<lparr>hc_tree := t\<rparr> \<and> tn_wf t)"

text \<open>A handler that writes \<open>out\<close> for the request \<open>body\<close>, whatever pieces it arrives in.\<close>

lemma http1_peer_handler:
  assumes h: "map_of http1_mux path = Some h"
    and ok: "\<And>r. rq_ctype r = ctype \<Longrightarrow> src_content (rq_body r) = body \<Longrightarrow> src_end (rq_body r) = EOF \<Longrightarrow>
      sk_out (rw_dst (h fresh_response r)) = outp"
  obtains status r cuts' where
    "http1_peer addr cuts meth (''http://'' @ addr @ path) ctype body = (Inr (status, r), cuts')"
    "src_content r = outp" "src_end r = EOF"
proof -
  obtain chunks cuts1 where c: "cut_bytes cuts body = (chunks, cuts1)" by fastforce
  let ?r = "\<lparr>rq_method = meth, rq_path = url_path addr (''http://'' @ addr @ path), rq_ctype = ctype,
      rq_body = Source chunks EOF\<rparr>"
  have path: "url_path addr (''http://'' @ addr @ path) = path" by (simp add: url_path_def)
  have "sk_out (rw_dst (h fresh_response ?r)) = outp"
    using c by (intro ok) (simp_all add: src_content_def)
  then have w: "sk_out (rw_dst (serve_http fresh_response ?r)) = outp"
    using h path by (simp add: serve_http_def)
  obtain arrived cuts2 where a: "cut_bytes cuts1 outp = (arrived, cuts2)" by fastforce
  show ?thesis
    using c w a path
    by (intro that [of "final_status (serve_http fresh_response ?r)" "Source arrived EOF" cuts2])
      (simp_all add: http1_peer_def Let_def src_content_def)
qed

lemma new_reader_content [simp]:
  "br_content (new_reader s) = src_content s" "br_end (new_reader s) = src_end s"
  by (simp_all add: new_reader_def br_content_def br_end_def)

lemma new_writer_out [simp]:
  "bw_out (new_writer d) = sk_out d" "bw_reliable (new_writer d) = (sk_room d = None)"
  by (simp_all add: new_writer_def bw_out_def bw_reliable_def)

lemma fresh_response_simps [simp]:
  "sk_out (rw_dst fresh_response) = []" "sk_room (rw_dst fresh_response) = None"
  "rw_duplex fresh_response = None" "rw_status fresh_response = None"
  by (simp_all add: fresh_response_def)

lemma handleAdd_ok:
  assumes "rq_ctype r \<noteq> ''application/json''" "src_content (rq_body r) = put_uint64 a @ put_uint64 b"
  shows "sk_out (rw_dst (handleAdd fresh_response r)) = put_uint64 (a + b)"
proof -
  have cont: "br_content (new_reader (rq_body r)) = put_uint64 a @ put_uint64 b @ []"
    using assms(2) by simp
  obtain r1 where r1: "ReadInt64 br_read (new_reader (rq_body r)) = (Inr a, r1)"
      "br_content r1 = put_uint64 b @ []"
    using cont by (rule br.ReadInt64_value)
  obtain r2 where r2: "ReadInt64 br_read r1 = (Inr b, r2)"
    using r1(2) by (rule br.ReadInt64_value)
  obtain w where "WriteInt64 rw_write fresh_response (a + b) = (None, w)"
      "sk_out (rw_dst w) = sk_out (rw_dst fresh_response) @ put_uint64 (a + b)"
    by (rule rw.WriteInt64_reliable [of fresh_response "a + b"]) simp_all
  with assms(1) r1 r2 show ?thesis by (simp add: handleAdd_def)
qed

lemma handleMultTree_ok:
  assumes "rq_ctype r \<noteq> ''application/json''" "src_content (rq_body r) = mult_tree_request m vt"
    and "vnodes vt < 2 ^ 63"
  shows "sk_out (rw_dst (handleMultTree fresh_response r)) = int64s (vvalues (vmult m vt))"
proof -
  have cont: "br_content (new_reader (rq_body r)) = mult_tree_request m vt @ []"
    using assms(2) by simp
  have rel: "bw_reliable (new_writer (rw_dst fresh_response))" by simp
  obtain r' w where w: "DoMultTreeRequest br_read bw_write (new_reader (rq_body r))
        (new_writer (rw_dst fresh_response)) = (None, r', w)"
      "bw_out w = bw_out (new_writer (rw_dst fresh_response)) @ int64s (vvalues (vmult m vt))"
      "bw_reliable w"
    using rel cont assms(3) by (rule br_bw.DoMultTreeRequest_ok)
  obtain w' where "bw_flush w = (None, w')" "sk_out (bw_dst w') = bw_out w"
    using w(3) by (rule bw_flush_reliable)
  with assms(1) w show ?thesis by (simp add: handleMultTree_def)
qed

lemma handleToHex_ok:
  assumes "rq_ctype r \<noteq> ''application/json''" "src_end (rq_body r) = EOF"
  shows "sk_out (rw_dst (handleToHex fresh_response r)) = hex_encode (src_content (rq_body r))"
proof -
  obtain w s where "io_copy (hex_encoder_write rw_write) fresh_response (rq_body r) = (None, w, s)"
      "sk_out (rw_dst w) = sk_out (rw_dst fresh_response) @ hex_encode (src_content (rq_body r))"
    using io_copy_transform [where ok = "\<lambda>w. sk_room (rw_dst w) = None" and f = hex_encode
        and out = "\<lambda>w. sk_out (rw_dst w)" and wr = "hex_encoder_write rw_write",
        OF rw.hex_encoder_write_reliable, of fresh_response "rq_body r"] assms(2) by auto
  with assms(1) show ?thesis by (simp add: handleToHex_def)
qed

lemma mux_simps [simp]:
  "map_of http1_mux ''/nop'' = Some handleNop" "map_of http1_mux ''/add'' = Some handleAdd"
  "map_of http1_mux ''/multTree'' = Some handleMultTree" "map_of http1_mux ''/toHex'' = Some handleToHex"
  by (simp_all add: http1_mux_def)

lemma newHttp1Client_simps [simp]:
  "hc_isJson (newHttp1Client addr) = False" "hc_tree (newHttp1Client addr) = tn_zero"
  "hc_nopURL (newHttp1Client addr) = ''http://'' @ addr @ ''/nop''"
  "hc_addURL (newHttp1Client addr) = ''http://'' @ addr @ ''/add''"
  "hc_treeURL (newHttp1Client addr) = ''http://'' @ addr @ ''/multTree''"
  "hc_hexURL (newHttp1Client addr) = ''http://'' @ addr @ ''/toHex''"
  by (simp_all add: newHttp1Client_def)

lemma http1_readyE:
  assumes "http1_ready addr st"
  obtains t n where "st = ((newHttp1Client addr)\<lparr>hc_tree := t\<rparr>, n)" "tn_wf t"
  using assms by (cases st) (auto simp: http1_ready_def)

lemma http1_ready_intro [intro]: "tn_wf t \<Longrightarrow> http1_ready addr ((newHttp1Client addr)\<lparr>hc_tree := t\<rparr>, n)"
  by (auto simp: http1_ready_def)

lemma http1_Nop_ok:
  assumes "http1_ready addr st"
  shows "\<exists>st'. http1_Nop (http1_peer addr) st = (None, st') \<and> http1_ready addr st'"
proof -
  obtain t n where st: "st = ((newHttp1Client addr)\<lparr>hc_tree := t\<rparr>, n)" "tn_wf t"
    using assms by (rule http1_readyE)
  obtain status r n' where
    "http1_peer addr n GET (''http://'' @ addr @ ''/nop'') '''' [] = (Inr (status, r), n')"
    by (rule http1_peer_handler [where path = "''/nop''" and h = handleNop and ctype = "''''"
          and body = "[]" and outp = "[]" and addr = addr and cuts = n and meth = GET])
      (auto simp: handleNop_def WriteHeader_def)
  with st show ?thesis by (auto simp: http1_Nop_def)
qed

lemma http1_Add_ok:
  assumes "http1_ready addr st"
  shows "\<exists>st'. http1_Add (http1_peer addr) st a b = (Inr (a + b), st') \<and> http1_ready addr st'"
proof -
  obtain t n where st: "st = ((newHttp1Client addr)\<lparr>hc_tree := t\<rparr>, n)" "tn_wf t"
    using assms by (rule http1_readyE)
  obtain status r n' where p:
    "http1_peer addr n POST (''http://'' @ addr @ ''/add'') ''application/octet-stream''
       (put_uint64 a @ put_uint64 b) = (Inr (status, r), n')"
    "src_content r = put_uint64 (a + b)"
    by (rule http1_peer_handler [where path = "''/add''" and h = handleAdd and addr = addr
          and ctype = "''application/octet-stream''" and body = "put_uint64 a @ put_uint64 b"
          and outp = "put_uint64 (a + b)" and cuts = n and meth = POST])
      (auto intro!: handleAdd_ok)
  from p(2) have "src_content r = put_uint64 (a + b) @ []" by simp
  then obtain r' where "ReadInt64 src_read r = (Inr (a + b), r')"
    by (rule src.ReadInt64_value)
  with st p show ?thesis by (auto simp: http1_Add_def WriteInt64_def buffer_write_def)
qed

lemma http1_MultTreeValues_ok:
  assumes "http1_ready addr st"
    and fill: "\<And>t. tn_wf t \<Longrightarrow> \<exists>t'. fill t = Inr t' \<and> tn_wf t' \<and> tn_view t' = vt"
    and "vnodes vt < 2 ^ 63"
  shows "\<exists>res st'. http1_MultTreeValues (http1_peer addr) st m fill = (Inr res, st') \<and> tn_wf res \<and>
           tn_view res = vmult m vt \<and> http1_ready addr st'"
proof -
  obtain t n where st: "st = ((newHttp1Client addr)\<lparr>hc_tree := t\<rparr>, n)" "tn_wf t"
    using assms(1) by (rule http1_readyE)
  obtain tree where tree: "fill (tn_Reset t) = Inr tree" "tn_wf tree" "tn_view tree = vt"
    using fill tn_wf_Reset st(2) by blast
  obtain body where body: "WriteMultTreeRequest buffer_write m tree [] = (None, body)"
      "body = mult_tree_request m vt"
    using buf.WriteMultTreeRequest_reliable [where w = "[]" and mult = m and tree = tree] tree by auto
  obtain status r n' where p:
    "http1_peer addr n POST (''http://'' @ addr @ ''/multTree'') ''application/octet-stream'' body =
       (Inr (status, r), n')"
    "src_content r = int64s (vvalues (vmult m vt))"
    by (rule http1_peer_handler [where path = "''/multTree''" and h = handleMultTree and addr = addr
          and ctype = "''application/octet-stream''" and body = body
          and outp = "int64s (vvalues (vmult m vt))" and cuts = n and meth = POST])
      (use body assms(3) in \<open>auto simp del: vvalues_vmult intro!: handleMultTree_ok\<close>)
  have lay: "vlayout (vmult m vt) = vlayout (tn_view tree)"
    and cont: "br_content (new_reader r) = int64s (vvalues (vmult m vt)) @ []"
    using tree p(2) by simp_all
  obtain tree' rd where "ReadTree br_read tree (new_reader r) = (None, tree', rd)"
      "tn_view tree' = vmult m vt" "tn_wf tree'"
    using br.ReadTree_value [OF lay cont] tree(2) by blast
  with st tree body p show ?thesis
    by (auto simp: http1_MultTreeValues_def ReadMultTreeReponse_def Let_def)
qed

lemma http1_ToHex_ok:
  assumes "http1_ready addr st" "length q = 2 * length p"
  shows "\<exists>st'. http1_ToHex (http1_peer addr) st p q = (None, hex_encode p, st') \<and> http1_ready addr st'"
proof -
  obtain t n where st: "st = ((newHttp1Client addr)\<lparr>hc_tree := t\<rparr>, n)" "tn_wf t"
    using assms(1) by (rule http1_readyE)
  obtain status r n' where p:
    "http1_peer addr n POST (''http://'' @ addr @ ''/toHex'') ''application/octet-stream'' p =
       (Inr (status, r), n')"
    "src_content r = hex_encode p"
    by (rule http1_peer_handler [where path = "''/toHex''" and h = handleToHex and addr = addr
          and ctype = "''application/octet-stream''" and body = p
          and outp = "hex_encode p" and cuts = n and meth = POST])
      (auto simp: handleToHex_ok)
  have "length q \<le> length (src_content r)" using p(2) assms(2) by simp
  then obtain r' where "read_full src_read (length q) [] r = (Inr (hex_encode p), r')"
    using src.read_full_enough [of "length q" r "[]"] p(2) assms(2)
    by (cases "read_full src_read (length q) [] r") auto
  with st p show ?thesis by (auto simp: http1_ToHex_def)
qed

interpretation http: rpc_system "http1_client_ops (http1_peer addr)" "http1_ready addr"
  tn_ops tn_wf "\<lambda>t t' vt. tn_wf t' \<and> tn_view t' = vt" tn_ops tn_view tn_wf
  "2 ^ 63 - 1" l "2 ^ 63 - 1"
  for addr l
proof unfold_locales
  fix c m vt and fill :: "TreeNodeImpl \<Rightarrow> TreeNodeImpl result"
  assume "http1_ready addr c" "vwithin (2 ^ 63 - 1) l vt"
    "\<And>t. tn_wf t \<Longrightarrow> \<exists>t'. fill t = Inr t' \<and> tn_wf t' \<and> tn_view t' = vt"
  then show "\<exists>res c'. cl_MultTreeValues (http1_client_ops (http1_peer addr)) c m fill = (Inr res, c') \<and>
      tn_wf res \<and> tn_view res = vmult m vt \<and> http1_ready addr c'"
    using http1_MultTreeValues_ok by (simp add: http1_client_ops_def vwithin_def)
next
  fix c and p q :: "byte list"
  assume "http1_ready addr c" "length q = 2 * length p"
  then show "\<exists>c'. cl_ToHex (http1_client_ops (http1_peer addr)) c p q = (None, hex_encode p, c') \<and>
      http1_ready addr c'"
    using http1_ToHex_ok by (simp add: http1_client_ops_def)
qed (simp_all add: http1_client_ops_def http1_Nop_ok http1_Add_ok del: split_paired_Ex)

section \<open>Malformed requests\<close>

text \<open>C33: A body that announces more values than it carries: the handler gives up without
  setting a status, so the client sees success, and the response is a prefix of the products.\<close>

theorem handleMultTree_short:
  assumes "rq_ctype r \<noteq> ''application/json''" "rw_duplex w = None" "sk_room (rw_dst w) = None"
    and "src_content (rq_body r) = put_uint64 m @ put_uint64 n @ int64s vs @ part"
    and "length part < 8" "length vs < nat (sint n)"
  shows "rw_status (handleMultTree w r) = rw_status w \<and>
    prefix (sk_out (rw_dst (handleMultTree w r))) (sk_out (rw_dst w) @ int64s (map (\<lambda>v. v * m) vs))"
proof -
  let ?r = "new_reader (rq_body r)"
  have cont: "br_content ?r = put_uint64 m @ put_uint64 n @ int64s vs @ part"
    using assms(4) by simp
  obtain r1 where r1: "ReadInt64 br_read ?r = (Inr m, r1)"
      "br_content r1 = put_uint64 n @ int64s vs @ part"
    using cont by (rule br.ReadInt64_value)
  obtain r2 where r2: "ReadInt64 br_read r1 = (Inr n, r2)" "br_content r2 = int64s vs @ part"
    using r1(2) by (rule br.ReadInt64_value)
  have "bw_reliable (new_writer (rw_dst w))" using assms(3) by simp
  from br_bw.mult_values_short [OF this r2(2) assms(5,6), of m n 0]
  obtain e r3 wr where "mult_values br_read bw_write m n 0 (nat (sint n)) r2 (new_writer (rw_dst w)) =
      (Some e, r3, wr)" "bw_out wr = sk_out (rw_dst w) @ int64s (map (\<lambda>v. v * m) vs)"
    by auto
  with r1 r2 assms(1,2) show ?thesis
    by (auto simp: handleMultTree_def DoMultTreeRequest_def bw_out_def prefix_def dest: sym)
qed

lemma handleMultTree_short_witness:
  "final_status (handleMultTree fresh_response
      \<lparr>rq_method = POST, rq_path = ''/multTree'', rq_ctype = '''',
       rq_body = Source [put_uint64 3 @ put_uint64 2, put_uint64 5] EOF\<rparr>) = 200"
proof -
  let ?r = "\<lparr>rq_method = POST, rq_path = ''/multTree'', rq_ctype = '''',
      rq_body = Source [put_uint64 3 @ put_uint64 2, put_uint64 5] EOF\<rparr>"
  have "src_content (rq_body ?r) = put_uint64 3 @ put_uint64 2 @ int64s [5] @ []"
    by (simp add: src_content_def)
  from handleMultTree_short [OF _ _ _ this, of fresh_response] show ?thesis
    by (simp add: final_status_def)
qed

text \<open>An \<open>Add\<close> request with fewer than 16 bytes is answered with status 400 and no body,
  and JSON is refused with status 400 by every handler that takes a body.\<close>

lemma http1_bad_requests:
  "(length (src_content (rq_body r)) < 16 \<longrightarrow> handleAdd w r = WriteHeader 400 w) \<and>
   (rq_ctype r = ''application/json'' \<longrightarrow> rq_path r \<in> {''/add'', ''/multTree'', ''/toHex''} \<longrightarrow>
      serve_http w r = WriteHeader 400 w)"
proof (intro conjI impI)
  assume short: "length (src_content (rq_body r)) < 16"
  let ?r = "new_reader (rq_body r)"
  show "handleAdd w r = WriteHeader 400 w"
  proof (cases "length (br_content ?r) < 8")
    case True
    then obtain r1 where "ReadInt64 br_read ?r =
        (Inl (if br_content ?r \<noteq> [] \<and> br_end ?r = EOF then UnexpectedEOF else br_end ?r), r1)"
      by (rule br.ReadInt64_short)
    then show ?thesis by (simp add: handleAdd_def)
  next
    case False
    then obtain a where a: "put_uint64 a = take 8 (br_content ?r)"
      using get_uint64_Inr [of "take 8 (br_content ?r)"] by auto
    then have "br_content ?r = put_uint64 a @ drop 8 (br_content ?r)" by simp
    then obtain r1 where r1: "ReadInt64 br_read ?r = (Inr a, r1)"
        "br_content r1 = drop 8 (br_content ?r)"
      by (rule br.ReadInt64_value)
    have "length (br_content r1) < 8" using r1(2) short by simp
    then obtain r2 where "ReadInt64 br_read r1 =
        (Inl (if br_content r1 \<noteq> [] \<and> br_end r1 = EOF then UnexpectedEOF else br_end r1), r2)"
      by (rule br.ReadInt64_short)
    with r1(1) show ?thesis by (simp add: handleAdd_def)
  qed
next
  assume "rq_ctype r = ''application/json''" "rq_path r \<in> {''/add'', ''/multTree'', ''/toHex''}"
  then show "serve_http w r = WriteHeader 400 w"
    by (auto simp: serve_http_def handleAdd_def handleMultTree_def handleToHex_def)
qed

lemma http1_bad_requests_witness:
  "final_status (serve_http fresh_response
     \<lparr>rq_method = POST, rq_path = ''/toHex'', rq_ctype = ''application/json'', rq_body = Source [] EOF\<rparr>) = 400"
  using http1_bad_requests [of "\<lparr>rq_method = POST, rq_path = ''/toHex'', rq_ctype = ''application/json'',
      rq_body = Source [] EOF\<rparr>" fresh_response]
  by (simp add: final_status_def WriteHeader_def)

end
