(* ===== verification/JsonUtils.thy ===== *)
theory JsonUtils
  imports TreeNode
begin

text \<open>
  \<open>internal/jsonutils/jsonutils.go\<close>: the messages of the JSON websocket system, and how
  \<open>encoding/json\<close> writes and reads them. JSON is modelled as values, not as text. Decoding
  is into an existing Go value, whose fields stay as they were where the message has none.
\<close>

section \<open>JSON values\<close>

text \<open>
  \<open>JBytes\<close> is a string holding the base64 form of bytes, the form of a Go \<open>[]byte\<close>;
  \<open>JStr\<close> is any other string. Numbers are integers; there are no others in the messages.
\<close>

datatype json =
    JNull
  | JBool bool
  | JNum int
  | JStr string
  | JBytes "byte list"
  | JArr "json list"
  | JObj "(string \<times> json) list"

definition json_type_error :: go_error where
  "json_type_error = ErrorNew ''json: cannot unmarshal value''"

text \<open>An \<open>int64\<close> (or an \<open>int\<close>); \<open>null\<close> leaves it unchanged.\<close>

fun unmarshal_int64 :: "json \<Rightarrow> int64 \<Rightarrow> int64 result" where
  "unmarshal_int64 (JNum i) old =
     (if - (2 ^ 63) \<le> i \<and> i < 2 ^ 63 then Inr (word_of_int i) else Inl json_type_error)"
| "unmarshal_int64 JNull old = Inr old"
| "unmarshal_int64 _ old = Inl json_type_error"

text \<open>A \<open>[]byte\<close>: \<open>null\<close> makes it nil.\<close>

fun unmarshal_bytes :: "json \<Rightarrow> byte list result" where
  "unmarshal_bytes (JBytes bs) = Inr bs"
| "unmarshal_bytes JNull = Inr []"
| "unmarshal_bytes _ = Inl json_type_error"

text \<open>
  A struct: the fields are decoded in the order of the message by \<open>field\<close>, which leaves
  the value unchanged for a key it does not know; \<open>null\<close> leaves all of it unchanged. Keys
  are compared exactly.
\<close>

fun unmarshal_struct :: "(string \<Rightarrow> json \<Rightarrow> 's \<Rightarrow> 's result) \<Rightarrow> json \<Rightarrow> 's \<Rightarrow> 's result" where
  "unmarshal_struct field (JObj kvs) s = fold_result (\<lambda>(k, j). field k j) kvs s"
| "unmarshal_struct field JNull s = Inr s"
| "unmarshal_struct field _ s = Inl json_type_error"

section \<open>Messages\<close>

definition CmdNop :: int where "CmdNop = 0"
definition CmdAdd :: int where "CmdAdd = 1"
definition CmdMultTree :: int where "CmdMultTree = 2"
definition CmdToHex :: int where "CmdToHex = 3"

lemmas Cmd_defs = CmdNop_def CmdAdd_def CmdMultTree_def CmdToHex_def

text \<open>\<open>Message\<close>: a \<open>json.RawMessage\<close> is any JSON value, or empty.\<close>

record Message =
  msg_Command :: int64
  msg_Payload :: "json option"

definition marshal_Message :: "Message \<Rightarrow> json" where
  "marshal_Message m =
     JObj ((''command'', JNum (sint (msg_Command m))) #
           (case msg_Payload m of None \<Rightarrow> [] | Some p \<Rightarrow> [(''payload'', p)]))"

definition unmarshal_Message :: "json \<Rightarrow> Message \<Rightarrow> Message result" where
  "unmarshal_Message =
     unmarshal_struct (\<lambda>k j m.
       if k = ''command'' then
         bind_result (unmarshal_int64 j (msg_Command m)) (\<lambda>c. Inr (m\<lparr>msg_Command := c\<rparr>))
       else if k = ''payload'' then Inr (m\<lparr>msg_Payload := Some j\<rparr>)
       else Inr m)"

text \<open>\<open>OutMessage\<close>: its payload is already given as the JSON of the value it holds.\<close>

record OutMessage =
  out_Command :: int
  out_Payload :: "json option"

definition marshal_OutMessage :: "OutMessage \<Rightarrow> json" where
  "marshal_OutMessage m =
     JObj ((''command'', JNum (out_Command m)) #
           (case out_Payload m of None \<Rightarrow> [] | Some p \<Rightarrow> [(''payload'', p)]))"

record AddRequest =
  add_A :: int64
  add_B :: int64

definition marshal_AddRequest :: "AddRequest \<Rightarrow> json" where
  "marshal_AddRequest r = JObj [(''a'', JNum (sint (add_A r))), (''b'', JNum (sint (add_B r)))]"

definition unmarshal_AddRequest :: "json \<Rightarrow> AddRequest \<Rightarrow> AddRequest result" where
  "unmarshal_AddRequest =
     unmarshal_struct (\<lambda>k j r.
       if k = ''a'' then bind_result (unmarshal_int64 j (add_A r)) (\<lambda>v. Inr (r\<lparr>add_A := v\<rparr>))
       else if k = ''b'' then bind_result (unmarshal_int64 j (add_B r)) (\<lambda>v. Inr (r\<lparr>add_B := v\<rparr>))
       else Inr r)"

record AddResponse =
  add_Res :: int64

definition marshal_AddResponse :: "AddResponse \<Rightarrow> json" where
  "marshal_AddResponse r = JObj [(''res'', JNum (sint (add_Res r)))]"

definition unmarshal_AddResponse :: "json \<Rightarrow> AddResponse \<Rightarrow> AddResponse result" where
  "unmarshal_AddResponse =
     unmarshal_struct (\<lambda>k j r.
       if k = ''res'' then bind_result (unmarshal_int64 j (add_Res r)) (\<lambda>v. Inr (r\<lparr>add_Res := v\<rparr>))
       else Inr r)"

section \<open>Trees\<close>

text \<open>
  \<open>TreeNodeImpl\<close> has no tags, its keys are the names of its fields. A slice without
  storage is written \<open>null\<close>; the model does not tell it from an empty one that is not nil,
  which would be written \<open>[]\<close>.
\<close>

fun marshal_tree :: "TreeNodeImpl \<Rightarrow> json" where
  "marshal_tree (TreeNodeImpl v n cs) =
     JObj [(''Value'', JNum (sint v)),
           (''Children'', if cs = [] then JNull else JArr (map marshal_tree (take n cs)))]"

text \<open>
  A slice is decoded over the nodes it already has storage for, which are not cleared
  first, and over new zero nodes when it must grow. An empty array and \<open>null\<close> drop the
  storage.
\<close>

fun slice_bases :: "'j list \<Rightarrow> TreeNodeImpl list \<Rightarrow> ('j \<times> TreeNodeImpl) list" where
  "slice_bases [] cs = []"
| "slice_bases (j # js) [] = (j, tn_zero) # slice_bases js []"
| "slice_bases (j # js) (c # cs) = (j, c) # slice_bases js cs"

lemma slice_bases_elem: "(j, c) \<in> set (slice_bases js cs) \<Longrightarrow> j \<in> set js"
  by (induction js cs rule: slice_bases.induct) auto

lemma size_json_elem [termination_simp]:
  assumes "(k, JArr js) \<in> set kvs" "(j, c) \<in> set (slice_bases js cs)"
  shows "size j < Suc (size_list (\<lambda>x. Suc (size (snd x))) kvs)"
proof -
  have "size j \<le> size_list size js"
    using slice_bases_elem [OF assms(2)] by (rule size_list_estimation') simp
  moreover have "Suc (size (JArr js)) \<le> size_list (\<lambda>x. Suc (size (snd x))) kvs"
    using assms(1) by (rule size_list_estimation') simp
  ultimately show ?thesis by simp
qed

fun unmarshal_tree :: "json \<Rightarrow> TreeNodeImpl \<Rightarrow> TreeNodeImpl result" where
  "unmarshal_tree (JObj kvs) t =
     fold_result (\<lambda>(k, j) t.
       if k = ''Value'' then
         bind_result (unmarshal_int64 j (tn_value t)) (\<lambda>v. Inr (TreeNodeImpl v (tn_len t) (tn_store t)))
       else if k = ''Children'' then
         (case j of
            JNull \<Rightarrow> Inr (TreeNodeImpl (tn_value t) 0 [])
          | JArr js \<Rightarrow>
              (if js = [] then Inr (TreeNodeImpl (tn_value t) 0 [])
               else bind_result (map_result (\<lambda>(j, c). unmarshal_tree j c) (slice_bases js (tn_store t)))
                      (\<lambda>cs. Inr (TreeNodeImpl (tn_value t) (length cs)
                                   (cs @ drop (length cs) (tn_store t)))))
          | _ \<Rightarrow> Inl json_type_error)
       else Inr t) kvs t"
| "unmarshal_tree JNull t = Inr t"
| "unmarshal_tree _ t = Inl json_type_error"

text \<open>\<open>MultTreeRequest\<close>: a nil tree is allocated when the message has one, \<open>null\<close> makes it nil.\<close>

record MultTreeRequest =
  mtr_Mult :: int64
  mtr_Tree :: "TreeNodeImpl option"

definition marshal_MultTreeRequest :: "MultTreeRequest \<Rightarrow> json" where
  "marshal_MultTreeRequest r =
     JObj [(''mult'', JNum (sint (mtr_Mult r))),
           (''tree'', case mtr_Tree r of None \<Rightarrow> JNull | Some t \<Rightarrow> marshal_tree t)]"

definition unmarshal_MultTreeRequest :: "json \<Rightarrow> MultTreeRequest \<Rightarrow> MultTreeRequest result" where
  "unmarshal_MultTreeRequest =
     unmarshal_struct (\<lambda>k j r.
       if k = ''mult'' then
         bind_result (unmarshal_int64 j (mtr_Mult r)) (\<lambda>v. Inr (r\<lparr>mtr_Mult := v\<rparr>))
       else if k = ''tree'' then
         (if j = JNull then Inr (r\<lparr>mtr_Tree := None\<rparr>)
          else bind_result (unmarshal_tree j (case mtr_Tree r of None \<Rightarrow> tn_zero | Some t \<Rightarrow> t))
                 (\<lambda>t. Inr (r\<lparr>mtr_Tree := Some t\<rparr>)))
       else Inr r)"

section \<open>Round trips\<close>

lemma sint64_range [simp]:
  "- (2 ^ 63) \<le> sint (v :: int64)" "sint (v :: int64) < 2 ^ 63"
  using sint_range_size [of v] by (simp_all add: word_size)

lemma unmarshal_int64_sint [simp]: "unmarshal_int64 (JNum (sint v)) old = Inr v"
  using sint64_range [of v] by simp

declare unmarshal_int64.simps(1) [simp del]

lemma unmarshal_marshal_add [simp]:
  "unmarshal_AddRequest (marshal_AddRequest r) old = Inr r"
  "unmarshal_AddResponse (marshal_AddResponse s) old' = Inr s"
  by (cases old; cases r; simp add: unmarshal_AddRequest_def marshal_AddRequest_def)
    (cases old'; cases s; simp add: unmarshal_AddResponse_def marshal_AddResponse_def)

lemma unmarshal_marshal_Message:
  "unmarshal_Message (marshal_Message m) old =
     Inr (m\<lparr>msg_Payload := (case msg_Payload m of None \<Rightarrow> msg_Payload old | Some p \<Rightarrow> Some p)\<rparr>)"
  by (cases old; cases m) (simp add: unmarshal_Message_def marshal_Message_def split: option.splits)

text \<open>Whatever is in the tree decoded into, the result is the tree that was written.\<close>

lemma map_result_slice_bases:
  assumes "\<And>s c. s \<in> set ss \<Longrightarrow>
      \<exists>z. f (g s) c = Inr z \<and> tn_view z = tn_view s \<and> (tn_wf c \<longrightarrow> tn_wf z)"
  shows "\<exists>zs. map_result (\<lambda>(j, c). f j c) (slice_bases (map g ss) cs) = Inr zs \<and>
    map tn_view zs = map tn_view ss \<and> ((\<forall>c \<in> set cs. tn_wf c) \<longrightarrow> (\<forall>z \<in> set zs. tn_wf z))"
  using assms
proof (induction ss arbitrary: cs)
  case (Cons s ss)
  define c where "c = (case cs of [] \<Rightarrow> tn_zero | c # _ \<Rightarrow> c)"
  have bases: "slice_bases (map g (s # ss)) cs = (g s, c) # slice_bases (map g ss) (tl cs)"
    by (cases cs) (simp_all add: c_def)
  obtain z where z: "f (g s) c = Inr z" "tn_view z = tn_view s" "tn_wf c \<longrightarrow> tn_wf z"
    using Cons.prems by force
  obtain zs where zs: "map_result (\<lambda>(j, c). f j c) (slice_bases (map g ss) (tl cs)) = Inr zs"
    "map tn_view zs = map tn_view ss" "(\<forall>c \<in> set (tl cs). tn_wf c) \<longrightarrow> (\<forall>z \<in> set zs. tn_wf z)"
    using Cons.IH [of "tl cs"] Cons.prems by auto
  have "(\<forall>c \<in> set cs. tn_wf c) \<Longrightarrow> tn_wf c"
    by (cases cs) (simp_all add: c_def tn_zero_def)
  with bases z zs show ?case by (cases cs) (auto simp del: slice_bases.simps)
qed simp

lemma unmarshal_marshal_tree:
  "\<exists>t'. unmarshal_tree (marshal_tree s) t = Inr t' \<and> tn_view t' = tn_view s \<and>
     (tn_wf t \<longrightarrow> tn_wf t')"
proof (induction s arbitrary: t)
  case (TreeNodeImpl v n cs)
  have "\<exists>z. unmarshal_tree (marshal_tree s) c = Inr z \<and> tn_view z = tn_view s \<and> (tn_wf c \<longrightarrow> tn_wf z)"
    if "s \<in> set (take n cs)" for s c
    using TreeNodeImpl.IH [of s c] that by (auto dest: in_set_takeD)
  from map_result_slice_bases [of "take n cs" unmarshal_tree marshal_tree, OF this, of "tn_store t"]
  obtain zs where zs: "map_result (\<lambda>(j, c). unmarshal_tree j c)
        (slice_bases (map marshal_tree (take n cs)) (tn_store t)) = Inr zs"
      "map tn_view zs = map tn_view (take n cs)"
      "(\<forall>c \<in> set (tn_store t). tn_wf c) \<longrightarrow> (\<forall>z \<in> set zs. tn_wf z)"
    by blast
  have "tn_wf t \<longrightarrow> (\<forall>c \<in> set (tn_store t). tn_wf c)"
    by (cases t) simp
  note wf = this
  show ?case
  proof (cases "take n cs = []")
    case True
    then show ?thesis by (auto simp: unmarshal_tree.simps(1))
  next
    case False
    then have "cs \<noteq> []" "map marshal_tree (take n cs) \<noteq> []" by auto
    with zs(1) have "unmarshal_tree (marshal_tree (TreeNodeImpl v n cs)) t =
        Inr (TreeNodeImpl v (length zs) (zs @ drop (length zs) (tn_store t)))"
      by simp
    moreover have "tn_view (TreeNodeImpl v (length zs) (zs @ drop (length zs) (tn_store t))) =
        tn_view (TreeNodeImpl v n cs)"
      using zs(2) by simp
    moreover have "tn_wf t \<longrightarrow> tn_wf (TreeNodeImpl v (length zs) (zs @ drop (length zs) (tn_store t)))"
    proof
      assume "tn_wf t"
      with zs(3) wf have "\<forall>c \<in> set (tn_store t). tn_wf c" "\<forall>z \<in> set zs. tn_wf z" by blast+
      then show "tn_wf (TreeNodeImpl v (length zs) (zs @ drop (length zs) (tn_store t)))"
        by (simp add: ball_Un) (metis in_set_dropD)
    qed
    ultimately show ?thesis by blast
  qed
qed

lemma unmarshal_marshal_MultTreeRequest:
  "\<exists>t'. unmarshal_MultTreeRequest (marshal_MultTreeRequest \<lparr>mtr_Mult = m, mtr_Tree = Some t\<rparr>) old =
     Inr \<lparr>mtr_Mult = m, mtr_Tree = Some t'\<rparr> \<and> tn_view t' = tn_view t"
proof -
  obtain t' where "unmarshal_tree (marshal_tree t)
      (case mtr_Tree old of None \<Rightarrow> tn_zero | Some t \<Rightarrow> t) = Inr t'" "tn_view t' = tn_view t"
    using unmarshal_marshal_tree by blast
  moreover have "marshal_tree t \<noteq> JNull" by (cases t) simp
  ultimately show ?thesis
    by (cases old) (simp add: unmarshal_MultTreeRequest_def marshal_MultTreeRequest_def)
qed

section \<open>Properties\<close>

text \<open>What the model of \<open>encoding/json\<close> writes for a tree it reads back, whatever tree it decodes into: no
  value or child of the old tree shows through, although its nodes are reused.\<close>

lemma json_tree_round_trip:
  assumes "tn_wf t"
  shows "\<exists>t'. unmarshal_tree (marshal_tree s) t = Inr t' \<and> tn_view t' = tn_view s \<and> tn_wf t'"
  using unmarshal_marshal_tree [of s t] assms by blast

lemma json_tree_round_trip_witness:
  "\<exists>t'. unmarshal_tree (marshal_tree (TreeNodeImpl 5 1 [TreeNodeImpl 7 0 []]))
      (TreeNodeImpl 1 2 [TreeNodeImpl 2 1 [tn_zero], tn_zero]) = Inr t' \<and> tn_view t' = VT 5 [VT 7 []]"
  using json_tree_round_trip [of "TreeNodeImpl 1 2 [TreeNodeImpl 2 1 [tn_zero], tn_zero]"
      "TreeNodeImpl 5 1 [TreeNodeImpl 7 0 []]"]
  by (auto simp: tn_zero_def simp del: unmarshal_tree.simps marshal_tree.simps)

text \<open>A field that the message leaves out keeps the value of the message decoded before it
  into the same variable, here the second argument of an addition.\<close>

lemma json_add_stale_field:
  "unmarshal_AddRequest (JObj [(''a'', JNum (sint a))]) old = Inr \<lparr>add_A = a, add_B = add_B old\<rparr>"
  by (cases old) (simp add: unmarshal_AddRequest_def)

end
