(* ===== verification/Websocket.thy ===== *)
theory Websocket
  imports Benches JsonUtils
begin

text \<open>
  \<open>internal/rpc/websocket\<close>: calls as websocket messages, in the binary form of the TCP
  system or as JSON. This theory has the two connection loops of \<open>ws_server.go\<close> and the
  client of \<open>ws_client.go\<close>. The package \<open>gorilla/websocket\<close> is not part of the repository:
  its connection is the argument \<open>conn\<close> of the definitions, and what the code relies on is
  stated by the predicates \<open>ws_conn_laws\<close> and \<open>ws_json_laws\<close>.
\<close>

section \<open>Connections\<close>

text \<open>
  The methods of a \<open>*websocket.Conn\<close> over its state \<open>'n\<close>. \<open>NextReader\<close> gives the next
  message as a source, \<open>NextWriter\<close> a destination for a new one, whose \<open>Close\<close> sends it.
  \<open>ReadJSON\<close> is the parsed value of the next message, which the caller decodes.
\<close>

record 'n ws_conn =
  wc_NextReader :: "'n \<Rightarrow> source result \<times> 'n"
  wc_NextWriter :: "'n \<Rightarrow> sink result \<times> 'n"
  wc_Close :: "'n \<Rightarrow> sink \<Rightarrow> go_error option \<times> 'n"
  wc_ReadJSON :: "'n \<Rightarrow> json result \<times> 'n"
  wc_WriteJSON :: "'n \<Rightarrow> json \<Rightarrow> go_error option \<times> 'n"

definition ws_cmdNop :: byte where "ws_cmdNop = 1"
definition ws_cmdAdd :: byte where "ws_cmdAdd = 2"
definition ws_cmdMultTree :: byte where "ws_cmdMultTree = 3"
definition ws_cmdToHex :: byte where "ws_cmdToHex = 4"

lemmas ws_cmd_defs = ws_cmdNop_def ws_cmdAdd_def ws_cmdMultTree_def ws_cmdToHex_def

section \<open>The server's binary loop\<close>

text \<open>Encoding into \<open>writeHexBuf\<close> and writing it out; the error of the write is dropped.\<close>

definition ws_hex_write :: "sink \<Rightarrow> byte list \<Rightarrow> go_error option \<times> sink" where
  "ws_hex_write w buf = (None, snd (dst_write w (hex_encode buf)))"

definition ws_hex_loop ::
  "int64 \<Rightarrow> breader \<Rightarrow> sink \<Rightarrow> (go_error option \<times> breader \<times> sink) option" where
  "ws_hex_loop = hex_loop ws_hex_write"

text \<open>
  The \<open>switch\<close> of \<open>runBinaryConn\<close>: the error a case returns, or \<open>None\<close> where control reaches
  \<open>writer.Close\<close>. The error of the write in the \<open>cmdNop\<close> case is never looked at.
\<close>

definition ws_switch ::
  "byte \<Rightarrow> breader \<Rightarrow> sink \<Rightarrow> (go_error option \<times> breader \<times> sink) option"
where
  "ws_switch cmd r w =
     (if cmd = ws_cmdNop then Some (None, r, snd (dst_write w [ws_cmdNop]))
      else if cmd = ws_cmdAdd then
        (case ReadInt64 br_read r of
           (Inl e, r1) \<Rightarrow> Some (Some e, r1, w)
         | (Inr a, r1) \<Rightarrow>
             (case ReadInt64 br_read r1 of
                (Inl e, r2) \<Rightarrow> Some (Some e, r2, w)
              | (Inr b, r2) \<Rightarrow>
                  (case WriteInt64 dst_write w (a + b) of (err, w') \<Rightarrow> Some (err, r2, w'))))
      else if cmd = ws_cmdMultTree then Some (DoMultTreeRequest br_read dst_write r w)
      else if cmd = ws_cmdToHex then
        (case ReadInt64 br_read r of
           (Inl e, r') \<Rightarrow> Some (Some e, r', w)
         | (Inr sz, r') \<Rightarrow> ws_hex_loop sz r' w)
      else Some (None, r, w))"

text \<open>\<open>runBinaryConn\<close>; it only returns with an error.\<close>

partial_function (option) ws_runBinaryConn ::
  "'n ws_conn \<Rightarrow> breader \<Rightarrow> 'n \<Rightarrow> (go_error \<times> 'n) option"
where
  "ws_runBinaryConn conn r n =
     (case wc_NextReader conn n of
        (Inl e, n1) \<Rightarrow> Some (wrap_w ''error obtaining reader'' e, n1)
      | (Inr rawReader, n1) \<Rightarrow>
          (case br_read_byte (br_reset r rawReader) of
             (Inl e, r1) \<Rightarrow> Some (wrap_w ''error reading cmd'' e, n1)
           | (Inr cmd, r1) \<Rightarrow>
               (case wc_NextWriter conn n1 of
                  (Inl e, n2) \<Rightarrow> Some (wrap_w ''error obtaining writer'' e, n2)
                | (Inr w, n2) \<Rightarrow>
                    Option.bind (ws_switch cmd r1 w) (\<lambda>(err, r2, w2).
                      case err of
                        Some e \<Rightarrow> Some (e, n2)
                      | None \<Rightarrow>
                          (case wc_Close conn n2 w2 of
                             (Some e, n3) \<Rightarrow> Some (wrap_w ''error closing writer'' e, n3)
                           | (None, n3) \<Rightarrow> ws_runBinaryConn conn r2 n3)))))"

text \<open>The zero \<open>bufio.Reader\<close>, to which the first \<open>Reset\<close> gives a buffer of the default size.\<close>

definition zero_reader :: breader where
  "zero_reader = \<lparr>br_buf = [], br_size = 4096, br_src = Source [] EOF\<rparr>"

section \<open>The server's JSON loop\<close>

text \<open>The variables \<open>runJsonConn\<close> declares before its loop and decodes every message into.\<close>

record json_vars =
  jv_msg :: Message
  jv_addReq :: AddRequest
  jv_multReq :: MultTreeRequest
  jv_toHexInBuf :: "byte list"

definition json_vars_init :: json_vars where
  "json_vars_init =
     \<lparr>jv_msg = \<lparr>msg_Command = 0, msg_Payload = None\<rparr>,
      jv_addReq = \<lparr>add_A = 0, add_B = 0\<rparr>,
      jv_multReq = \<lparr>mtr_Mult = 0, mtr_Tree = None\<rparr>,
      jv_toHexInBuf = replicate MaxHexEncodeSize 0\<rparr>"

text \<open>\<open>json.Unmarshal(msg.Payload, ...)\<close> of a payload that was never set is an error.\<close>

definition payload_json :: "Message \<Rightarrow> json result" where
  "payload_json msg =
     (case msg_Payload msg of
        None \<Rightarrow> Inl (ErrorNew ''unexpected end of JSON input'')
      | Some j \<Rightarrow> Inr j)"

text \<open>
  One \<open>switch\<close> of the loop on the message already decoded: the reply it writes, none for an
  unknown command, and the variables. A nil tree and a \<open>toHexOutBuf\<close> that is too small panic.
\<close>

definition json_switch :: "json_vars \<Rightarrow> (json option \<times> json_vars) result" where
  "json_switch v =
     (let msg = jv_msg v; cmd = sint (msg_Command msg) in
      if cmd = CmdNop then Inr (Some (marshal_Message msg), v)
      else if cmd = CmdAdd then
        bind_result (payload_json msg) (\<lambda>p.
        bind_result (unmarshal_AddRequest p (jv_addReq v)) (\<lambda>req.
          Inr (Some (marshal_AddResponse \<lparr>add_Res = add_A req + add_B req\<rparr>), v\<lparr>jv_addReq := req\<rparr>)))
      else if cmd = CmdMultTree then
        bind_result (payload_json msg) (\<lambda>p.
        bind_result (unmarshal_MultTreeRequest p (jv_multReq v)) (\<lambda>req.
          case mtr_Tree req of
            None \<Rightarrow> Inl (Panic ''nil pointer dereference'')
          | Some t \<Rightarrow>
              (let t' = tn_Mult (mtr_Mult req) t
               in Inr (Some (marshal_tree t'), v\<lparr>jv_multReq := req\<lparr>mtr_Tree := Some t'\<rparr>\<rparr>))))
      else if cmd = CmdToHex then
        bind_result (payload_json msg) (\<lambda>p.
        bind_result (unmarshal_bytes p) (\<lambda>bs.
          if MaxHexEncodeSize < length bs then Inl (Panic ''index out of range'')
          else Inr (Some (JBytes (hex_encode bs)), v\<lparr>jv_toHexInBuf := bs\<rparr>)))
      else Inr (None, v))"

partial_function (option) ws_runJsonConn ::
  "'n ws_conn \<Rightarrow> json_vars \<Rightarrow> 'n \<Rightarrow> (go_error \<times> json_vars \<times> 'n) option"
where
  "ws_runJsonConn conn v n =
     (case wc_ReadJSON conn n of
        (Inl e, n1) \<Rightarrow> Some (e, v, n1)
      | (Inr j, n1) \<Rightarrow>
          (case unmarshal_Message j (jv_msg v) of
             Inl e \<Rightarrow> Some (e, v, n1)
           | Inr msg \<Rightarrow>
               (case json_switch (v\<lparr>jv_msg := msg\<rparr>) of
                  Inl e \<Rightarrow> Some (e, v\<lparr>jv_msg := msg\<rparr>, n1)
                | Inr (None, v') \<Rightarrow> ws_runJsonConn conn v' n1
                | Inr (Some reply, v') \<Rightarrow>
                    (case wc_WriteJSON conn n1 reply of
                       (Some e, n2) \<Rightarrow> Some (e, v', n2)
                     | (None, n2) \<Rightarrow> ws_runJsonConn conn v' n2))))"

text \<open>
  \<open>ServeHTTP\<close>: the result of the upgrade and the content type select the loop. The value is
  the error it logs, if it logs one; the connection is closed in every case.
\<close>

definition ws_ServeHTTP ::
  "'n ws_conn \<Rightarrow> bool \<Rightarrow> string \<Rightarrow> 'n result \<Rightarrow> go_error option option"
where
  "ws_ServeHTTP conn skipLog ctype upgraded =
     (case upgraded of
        Inl e \<Rightarrow> Some (if skipLog then None else Some e)
      | Inr n \<Rightarrow>
          map_option (\<lambda>err. if \<not> skipLog \<and> \<not> errors_is err EOF then Some err else None)
            (if ctype = ''text/json'' then map_option fst (ws_runJsonConn conn json_vars_init n)
             else map_option fst (ws_runBinaryConn conn zero_reader n)))"

section \<open>The client\<close>

text \<open>
  \<open>outMsg\<close> is set completely before each use and is a local of the operations here.
\<close>

record wsClient =
  ws_tree :: TreeNodeImpl
  ws_reader :: breader
  ws_writer :: bwriter
  ws_isJson :: bool
  ws_msg :: Message

definition newWSClient :: "bool \<Rightarrow> wsClient" where
  "newWSClient isJson =
     \<lparr>ws_tree = tn_zero,
      ws_reader = \<lparr>br_buf = [], br_size = MaxHexEncodeSize * 2, br_src = Source [] EOF\<rparr>,
      ws_writer = \<lparr>bw_buf = [], bw_size = MaxHexEncodeSize * 2, bw_err = None,
                   bw_dst = \<lparr>sk_out = [], sk_room = None, sk_err = EOF\<rparr>\<rparr>,
      ws_isJson = isJson,
      ws_msg = \<lparr>msg_Command = 0, msg_Payload = None\<rparr>\<rparr>"

text \<open>
  What the four operations repeat around the body \<open>body\<close> of their request: obtain a writer
  and reset \<open>c.writer\<close> to it, write, flush, close, obtain a reader and reset \<open>c.reader\<close> to it.
\<close>

definition ws_exchange ::
  "'n ws_conn \<Rightarrow> (bwriter \<Rightarrow> go_error option \<times> bwriter) \<Rightarrow> wsClient \<times> 'n \<Rightarrow>
     go_error option \<times> wsClient \<times> 'n"
where
  "ws_exchange conn body st =
     (case st of (c, n) \<Rightarrow>
       (case wc_NextWriter conn n of
          (Inl e, n1) \<Rightarrow> (Some e, c, n1)
        | (Inr rawWriter, n1) \<Rightarrow>
       (case body (bw_reset (ws_writer c) rawWriter) of
          (Some e, w) \<Rightarrow> (Some e, c\<lparr>ws_writer := w\<rparr>, n1)
        | (None, w) \<Rightarrow>
       (case bw_flush w of
          (Some e, w) \<Rightarrow> (Some e, c\<lparr>ws_writer := w\<rparr>, n1)
        | (None, w) \<Rightarrow>
       (case wc_Close conn n1 (bw_dst w) of
          (Some e, n2) \<Rightarrow> (Some e, c\<lparr>ws_writer := w\<rparr>, n2)
        | (None, n2) \<Rightarrow>
       (case wc_NextReader conn n2 of
          (Inl e, n3) \<Rightarrow> (Some e, c\<lparr>ws_writer := w\<rparr>, n3)
        | (Inr rawReader, n3) \<Rightarrow>
            (None, c\<lparr>ws_writer := w, ws_reader := br_reset (ws_reader c) rawReader\<rparr>, n3)))))))"

definition write_then ::
  "('w \<Rightarrow> go_error option \<times> 'w) \<Rightarrow> ('w \<Rightarrow> go_error option \<times> 'w) \<Rightarrow> 'w \<Rightarrow> go_error option \<times> 'w"
where
  "write_then f g w = (case f w of (Some e, w') \<Rightarrow> (Some e, w') | (None, w') \<Rightarrow> g w')"

text \<open>The JSON form of a call: write the message, read the parsed reply.\<close>

definition ws_json_exchange ::
  "'n ws_conn \<Rightarrow> string \<Rightarrow> string \<Rightarrow> OutMessage \<Rightarrow> 'n \<Rightarrow> json result \<times> 'n"
where
  "ws_json_exchange conn werr rerr outMsg n =
     (case wc_WriteJSON conn n (marshal_OutMessage outMsg) of
        (Some e, n1) \<Rightarrow> (Inl (wrap_v werr [] e), n1)
      | (None, n1) \<Rightarrow>
          (case wc_ReadJSON conn n1 of
             (Inl e, n2) \<Rightarrow> (Inl (wrap_v rerr [] e), n2)
           | (Inr j, n2) \<Rightarrow> (Inr j, n2)))"

definition ws_Nop :: "'n ws_conn \<Rightarrow> wsClient \<times> 'n \<Rightarrow> go_error option \<times> wsClient \<times> 'n" where
  "ws_Nop conn st =
     (case st of (c, n) \<Rightarrow>
       if ws_isJson c then
         (case ws_json_exchange conn ''unable to write JSON nop'' ''unable to read JSON nop''
                 \<lparr>out_Command = CmdNop, out_Payload = None\<rparr> n of
            (Inl e, n') \<Rightarrow> (Some e, c, n')
          | (Inr j, n') \<Rightarrow>
              (case unmarshal_Message j (ws_msg c) of
                 Inl e \<Rightarrow> (Some (wrap_v ''unable to read JSON nop'' [] e), c, n')
               | Inr msg \<Rightarrow> (None, c\<lparr>ws_msg := msg\<rparr>, n')))
       else
         (case ws_exchange conn (\<lambda>w. bw_write_byte w ws_cmdNop) (c, n) of
            (Some e, st') \<Rightarrow> (Some e, st')
          | (None, c', n') \<Rightarrow>
              (case br_read_byte (ws_reader c') of
                 (Inl e, r) \<Rightarrow> (Some e, c'\<lparr>ws_reader := r\<rparr>, n')
               | (Inr _, r) \<Rightarrow> (None, c'\<lparr>ws_reader := r\<rparr>, n'))))"

definition ws_Add ::
  "'n ws_conn \<Rightarrow> wsClient \<times> 'n \<Rightarrow> int64 \<Rightarrow> int64 \<Rightarrow> int64 result \<times> wsClient \<times> 'n"
where
  "ws_Add conn st a b =
     (case st of (c, n) \<Rightarrow>
       if ws_isJson c then
         (case ws_json_exchange conn ''unable to write JSON add'' ''unable to read JSON add''
                 \<lparr>out_Command = CmdAdd,
                  out_Payload = Some (marshal_AddRequest \<lparr>add_A = a, add_B = b\<rparr>)\<rparr> n of
            (Inl e, n') \<Rightarrow> (Inl e, c, n')
          | (Inr j, n') \<Rightarrow>
              (case unmarshal_AddResponse j \<lparr>add_Res = 0\<rparr> of
                 Inl e \<Rightarrow> (Inl (wrap_v ''unable to read JSON add'' [] e), c, n')
               | Inr res \<Rightarrow> (Inr (add_Res res), c, n')))
       else
         (case ws_exchange conn (write_then (\<lambda>w. bw_write_byte w ws_cmdAdd)
                 (write_then (\<lambda>w. WriteInt64 bw_write w a) (\<lambda>w. WriteInt64 bw_write w b))) (c, n) of
            (Some e, st') \<Rightarrow> (Inl e, st')
          | (None, c', n') \<Rightarrow>
              (case ReadInt64 br_read (ws_reader c') of
                 (res, r) \<Rightarrow> (res, c'\<lparr>ws_reader := r\<rparr>, n'))))"

definition ws_MultTreeValues ::
  "'n ws_conn \<Rightarrow> wsClient \<times> 'n \<Rightarrow> int64 \<Rightarrow> (TreeNodeImpl \<Rightarrow> TreeNodeImpl result) \<Rightarrow>
     TreeNodeImpl result \<times> wsClient \<times> 'n"
where
  "ws_MultTreeValues conn st mult fillArgs =
     (case st of (c, n) \<Rightarrow>
       (case fillArgs (tn_Reset (ws_tree c)) of
          Inl e \<Rightarrow> (Inl e, c\<lparr>ws_tree := tn_Reset (ws_tree c)\<rparr>, n)
        | Inr tree \<Rightarrow>
       if ws_isJson c then
         (case ws_json_exchange conn ''unable to write JSON tree'' ''unable to read JSON tree''
                 \<lparr>out_Command = CmdMultTree,
                  out_Payload = Some (marshal_MultTreeRequest \<lparr>mtr_Mult = mult, mtr_Tree = Some tree\<rparr>)\<rparr> n of
            (Inl e, n') \<Rightarrow> (Inl e, c\<lparr>ws_tree := tree\<rparr>, n')
          | (Inr j, n') \<Rightarrow>
              (case unmarshal_tree j (tn_Reset tree) of
                 Inl e \<Rightarrow> (Inl (wrap_v ''unable to read JSON tree'' [] e), c\<lparr>ws_tree := tn_Reset tree\<rparr>, n')
               | Inr tree' \<Rightarrow> (Inr tree', c\<lparr>ws_tree := tree'\<rparr>, n')))
       else
         (case ws_exchange conn (write_then (\<lambda>w. bw_write_byte w ws_cmdMultTree)
                 (WriteMultTreeRequest bw_write mult tree)) (c\<lparr>ws_tree := tree\<rparr>, n) of
            (Some e, st') \<Rightarrow> (Inl e, st')
          | (None, c', n') \<Rightarrow>
              (case ReadMultTreeReponse br_read tree (ws_reader c') of
                 (Some e, tree', r) \<Rightarrow> (Inl e, c'\<lparr>ws_tree := tree', ws_reader := r\<rparr>, n')
               | (None, tree', r) \<Rightarrow> (Inr tree', c'\<lparr>ws_tree := tree', ws_reader := r\<rparr>, n')))))"

text \<open>In the JSON form \<open>copy(out, hexOut)\<close> stores what fits and reports nothing.\<close>

definition ws_ToHex ::
  "'n ws_conn \<Rightarrow> wsClient \<times> 'n \<Rightarrow> byte list \<Rightarrow> byte list \<Rightarrow>
     go_error option \<times> byte list \<times> wsClient \<times> 'n"
where
  "ws_ToHex conn st inp outp =
     (case st of (c, n) \<Rightarrow>
       if ws_isJson c then
         (case ws_json_exchange conn ''unable to write JSON hex'' ''unable to read JSON hex''
                 \<lparr>out_Command = CmdToHex, out_Payload = Some (JBytes inp)\<rparr> n of
            (Inl e, n') \<Rightarrow> (Some e, outp, c, n')
          | (Inr j, n') \<Rightarrow>
              (case unmarshal_bytes j of
                 Inl e \<Rightarrow> (Some (wrap_v ''unable to read JSON hex'' [] e), outp, c, n')
               | Inr hexOut \<Rightarrow>
                   (None, take (length outp) hexOut @ drop (length hexOut) outp, c, n')))
       else
         (case ws_exchange conn (write_then (\<lambda>w. bw_write_byte w ws_cmdToHex)
                 (write_then (\<lambda>w. WriteInt64 bw_write w (word_of_nat (length inp)))
                    (\<lambda>w. bw_write w inp))) (c, n) of
            (Some e, st') \<Rightarrow> (Some e, outp, st')
          | (None, c', n') \<Rightarrow>
              (case read_full br_read (length outp) [] (ws_reader c') of
                 (Inl e, r) \<Rightarrow> (Some e, outp, c'\<lparr>ws_reader := r\<rparr>, n')
               | (Inr bs, r) \<Rightarrow> (None, bs, c'\<lparr>ws_reader := r\<rparr>, n'))))"

definition ws_client_ops ::
  "'n ws_conn \<Rightarrow> (wsClient \<times> 'n, TreeNodeImpl, TreeNodeImpl) client_ops"
where
  "ws_client_ops conn =
     \<lparr>cl_Nop = ws_Nop conn,
      cl_Add = ws_Add conn,
      cl_MultTreeValues = ws_MultTreeValues conn,
      cl_ToHex = ws_ToHex conn\<rparr>"

section \<open>What the loops rely on\<close>

text \<open>
  A connection on which nothing fails: messages are read whole and in order (in any pieces),
  a reader blocks when there is none, and what is written to a message is sent when the
  message is closed.
\<close>

definition ws_conn_laws ::
  "'n ws_conn \<Rightarrow> ('n \<Rightarrow> byte list list) \<Rightarrow> ('n \<Rightarrow> byte list list) \<Rightarrow> ('n \<Rightarrow> bool) \<Rightarrow> bool"
where
  "ws_conn_laws conn inbox outbox ok \<longleftrightarrow>
     (\<forall>n m ms. ok n \<longrightarrow> inbox n = m # ms \<longrightarrow>
        (\<exists>s n'. wc_NextReader conn n = (Inr s, n') \<and> src_content s = m \<and> src_end s = EOF \<and>
           ok n' \<and> inbox n' = ms \<and> outbox n' = outbox n)) \<and>
     (\<forall>n. ok n \<longrightarrow> inbox n = [] \<longrightarrow>
        (\<exists>n'. wc_NextReader conn n = (Inl Blocked, n') \<and> ok n' \<and> inbox n' = [] \<and>
           outbox n' = outbox n)) \<and>
     (\<forall>n. ok n \<longrightarrow>
        (\<exists>d n'. wc_NextWriter conn n = (Inr d, n') \<and> sk_out d = [] \<and> sk_room d = None \<and>
           ok n' \<and> inbox n' = inbox n \<and> outbox n' = outbox n)) \<and>
     (\<forall>n d. ok n \<longrightarrow> sk_room d = None \<longrightarrow>
        (\<exists>n'. wc_Close conn n d = (None, n') \<and> ok n' \<and> inbox n' = inbox n \<and>
           outbox n' = outbox n @ [sk_out d]))"

text \<open>The same for the JSON methods, whose messages are parsed values.\<close>

definition ws_json_laws ::
  "'n ws_conn \<Rightarrow> ('n \<Rightarrow> json list) \<Rightarrow> ('n \<Rightarrow> json list) \<Rightarrow> ('n \<Rightarrow> bool) \<Rightarrow> bool"
where
  "ws_json_laws conn inbox outbox ok \<longleftrightarrow>
     (\<forall>n j js. ok n \<longrightarrow> inbox n = j # js \<longrightarrow>
        (\<exists>n'. wc_ReadJSON conn n = (Inr j, n') \<and> ok n' \<and> inbox n' = js \<and> outbox n' = outbox n)) \<and>
     (\<forall>n. ok n \<longrightarrow> inbox n = [] \<longrightarrow>
        (\<exists>n'. wc_ReadJSON conn n = (Inl Blocked, n') \<and> ok n' \<and> inbox n' = [] \<and>
           outbox n' = outbox n)) \<and>
     (\<forall>n j. ok n \<longrightarrow>
        (\<exists>n'. wc_WriteJSON conn n j = (None, n') \<and> ok n' \<and> inbox n' = inbox n \<and>
           outbox n' = outbox n @ [j]))"

lemma ws_conn_lawsD:
  assumes "ws_conn_laws conn inbox outbox ok" "ok n"
  shows "inbox n = m # ms \<Longrightarrow> \<exists>s n'. wc_NextReader conn n = (Inr s, n') \<and> src_content s = m \<and>
      src_end s = EOF \<and> ok n' \<and> inbox n' = ms \<and> outbox n' = outbox n"
    and "inbox n = [] \<Longrightarrow> \<exists>n'. wc_NextReader conn n = (Inl Blocked, n') \<and> ok n' \<and> inbox n' = [] \<and>
      outbox n' = outbox n"
    and "\<exists>d n'. wc_NextWriter conn n = (Inr d, n') \<and> sk_out d = [] \<and> sk_room d = None \<and>
      ok n' \<and> inbox n' = inbox n \<and> outbox n' = outbox n"
    and "sk_room d = None \<Longrightarrow> \<exists>n'. wc_Close conn n d = (None, n') \<and> ok n' \<and> inbox n' = inbox n \<and>
      outbox n' = outbox n @ [sk_out d]"
  using assms unfolding ws_conn_laws_def by blast+

lemma ws_json_lawsD:
  assumes "ws_json_laws conn inbox outbox ok" "ok n"
  shows "inbox n = j # js \<Longrightarrow> \<exists>n'. wc_ReadJSON conn n = (Inr j, n') \<and> ok n' \<and> inbox n' = js \<and>
      outbox n' = outbox n"
    and "inbox n = [] \<Longrightarrow> \<exists>n'. wc_ReadJSON conn n = (Inl Blocked, n') \<and> ok n' \<and> inbox n' = [] \<and>
      outbox n' = outbox n"
    and "\<exists>n'. wc_WriteJSON conn n j = (None, n') \<and> ok n' \<and> inbox n' = inbox n \<and>
      outbox n' = outbox n @ [j]"
  using assms unfolding ws_json_laws_def by blast+

section \<open>The binary loop answers every message\<close>

lemma ws_hex_write_reliable:
  "sk_room w = None \<Longrightarrow> \<exists>w'. ws_hex_write w p = (None, w') \<and> sk_out w' = sk_out w @ hex_encode p \<and>
     sk_room w' = None"
  by (simp add: ws_hex_write_def dst_write_def sink_write_def)

lemma ws_switch_call:
  assumes "bin_valid c" "bin_request c = cmd # args" "br_content r = args" "sk_room w = None"
  shows "\<exists>r' w'. ws_switch cmd r w = Some (None, r', w') \<and> sk_room w' = None \<and>
           sk_out w' = sk_out w @ bin_reply c"
proof (cases c)
  case CNop
  obtain w' where "dst_write w [ws_cmdNop] = (None, w')" "sk_out w' = sk_out w @ [ws_cmdNop]"
      "sk_room w' = None"
    using assms(4) by (rule dst.wr_reliable_eq)
  with CNop assms show ?thesis by (auto simp: ws_switch_def ws_cmdNop_def)
next
  case (CAdd a b)
  with assms have cont: "br_content r = put_uint64 a @ put_uint64 b @ []" by auto
  obtain r1 where r1: "ReadInt64 br_read r = (Inr a, r1)" "br_content r1 = put_uint64 b @ []"
    using cont by (rule br.ReadInt64_value)
  obtain r2 where r2: "ReadInt64 br_read r1 = (Inr b, r2)"
    using r1(2) by (rule br.ReadInt64_value)
  obtain w' where "WriteInt64 dst_write w (a + b) = (None, w')"
      "sk_out w' = sk_out w @ put_uint64 (a + b)" "sk_room w' = None"
    using assms(4) by (rule dst.WriteInt64_reliable)
  with CAdd assms r1 r2 show ?thesis by (auto simp: ws_switch_def ws_cmd_defs)
next
  case (CMult m t)
  with assms have cont: "br_content r = mult_tree_request m t @ []" and n: "vnodes t < 2 ^ 63"
    by auto
  obtain r' w' where "DoMultTreeRequest br_read dst_write r w = (None, r', w')"
      "sk_out w' = sk_out w @ int64s (vvalues (vmult m t))" "sk_room w' = None"
    using assms(4) cont n by (rule br_dst.DoMultTreeRequest_ok)
  with CMult assms show ?thesis by (auto simp: ws_switch_def ws_cmd_defs)
next
  case (CHex p)
  with assms have cont: "br_content r = put_uint64 (word_of_nat (length p)) @ p"
    and len: "length p < MaxHexEncodeSize" by auto
  obtain r1 where r1: "ReadInt64 br_read r = (Inr (word_of_nat (length p)), r1)" "br_content r1 = p"
    using cont by (rule br.ReadInt64_value)
  from hex_loop_exact [where ok = "\<lambda>w. sk_room w = None" and out = sk_out and wr = ws_hex_write,
      OF ws_hex_write_reliable r1(2) len assms(4)] r1 CHex assms
  show ?thesis by (auto simp: ws_switch_def ws_cmd_defs ws_hex_loop_def)
qed

lemma br_reset_content [simp]:
  "br_content (br_reset r s) = src_content s" "br_end (br_reset r s) = src_end s"
  by (simp_all add: br_reset_def br_content_def br_end_def)

lemma ws_runBinaryConn_messages:
  assumes laws: "ws_conn_laws conn inbox outbox ok"
    and "ok n" "inbox n = map bin_request cs" "\<forall>c \<in> set cs. bin_valid c"
  shows "\<exists>n'. ws_runBinaryConn conn r n = Some (Blocked, n') \<and> ok n' \<and> inbox n' = [] \<and>
           outbox n' = outbox n @ map bin_reply cs"
  using assms(2-)
proof (induction cs arbitrary: r n)
  case Nil
  then obtain n' where "wc_NextReader conn n = (Inl Blocked, n')" "ok n'" "inbox n' = []"
      "outbox n' = outbox n"
    using ws_conn_lawsD(2) [OF laws, of n] by auto
  then show ?case by (simp add: ws_runBinaryConn.simps [of conn r n])
next
  case (Cons c cs)
  obtain cmd args where req: "bin_request c = cmd # args"
    by (cases c) auto
  obtain s n1 where n1: "wc_NextReader conn n = (Inr s, n1)" "src_content s = bin_request c"
      "ok n1" "inbox n1 = map bin_request cs" "outbox n1 = outbox n"
    using ws_conn_lawsD(1) [OF laws Cons.prems(1), of "bin_request c" "map bin_request cs"]
      Cons.prems(2) by auto
  obtain d n2 where n2: "wc_NextWriter conn n1 = (Inr d, n2)" "sk_out d = []" "sk_room d = None"
      "ok n2" "inbox n2 = inbox n1" "outbox n2 = outbox n1"
    using ws_conn_lawsD(3) [OF laws n1(3)] by blast
  have "br_content (br_reset r s) = cmd # args" using n1(2) req by simp
  then obtain r1 where r1: "br_read_byte (br_reset r s) = (Inr cmd, r1)" "br_content r1 = args"
    by (rule br_read_byte_content)
  obtain r2 w2 where w2: "ws_switch cmd r1 d = Some (None, r2, w2)" "sk_room w2 = None"
      "sk_out w2 = bin_reply c"
    using ws_switch_call [OF _ req r1(2) n2(3)] Cons.prems(3) n2(2) by auto
  obtain n3 where n3: "wc_Close conn n2 w2 = (None, n3)" "ok n3" "inbox n3 = inbox n2"
      "outbox n3 = outbox n2 @ [sk_out w2]"
    using ws_conn_lawsD(4) [OF laws n2(4) w2(2)] by blast
  have step: "ws_runBinaryConn conn r n = ws_runBinaryConn conn r2 n3"
    using n1(1) r1(1) n2(1) w2(1) n3(1) by (subst ws_runBinaryConn.simps) simp
  have "inbox n3 = map bin_request cs" "\<forall>c \<in> set cs. bin_valid c"
    using n3 n2 n1 Cons.prems(3) by simp_all
  with Cons.IH [OF n3(2) this, of r2] step n3 n2 n1 w2 show ?case by simp
qed

section \<open>The JSON loop answers every message\<close>

text \<open>
  \<open>json_request c j\<close>: \<open>j\<close> is the message the client sends for the call \<open>c\<close>;
  \<open>json_reply c j\<close>: \<open>j\<close> answers it. The reply to \<open>Nop\<close> may carry any payload.
\<close>

fun json_request :: "bin_call \<Rightarrow> json \<Rightarrow> bool" where
  "json_request CNop j \<longleftrightarrow>
     j = marshal_OutMessage \<lparr>out_Command = CmdNop, out_Payload = None\<rparr>"
| "json_request (CAdd a b) j \<longleftrightarrow>
     j = marshal_OutMessage \<lparr>out_Command = CmdAdd,
           out_Payload = Some (marshal_AddRequest \<lparr>add_A = a, add_B = b\<rparr>)\<rparr>"
| "json_request (CMult m vt) j \<longleftrightarrow>
     (\<exists>t. tn_view t = vt \<and>
        j = marshal_OutMessage \<lparr>out_Command = CmdMultTree,
              out_Payload = Some (marshal_MultTreeRequest \<lparr>mtr_Mult = m, mtr_Tree = Some t\<rparr>)\<rparr>)"
| "json_request (CHex p) j \<longleftrightarrow>
     j = marshal_OutMessage \<lparr>out_Command = CmdToHex, out_Payload = Some (JBytes p)\<rparr>"

fun json_reply :: "bin_call \<Rightarrow> json \<Rightarrow> bool" where
  "json_reply CNop j \<longleftrightarrow> (\<exists>p. j = marshal_Message \<lparr>msg_Command = 0, msg_Payload = p\<rparr>)"
| "json_reply (CAdd a b) j \<longleftrightarrow> j = marshal_AddResponse \<lparr>add_Res = a + b\<rparr>"
| "json_reply (CMult m vt) j \<longleftrightarrow> (\<exists>t. tn_view t = vmult m vt \<and> j = marshal_tree t)"
| "json_reply (CHex p) j \<longleftrightarrow> j = JBytes (hex_encode p)"

fun json_valid :: "bin_call \<Rightarrow> bool" where
  "json_valid (CHex p) \<longleftrightarrow> length p \<le> MaxHexEncodeSize"
| "json_valid _ \<longleftrightarrow> True"

lemma unmarshal_OutMessage:
  assumes "- (2 ^ 63) \<le> cmd" "cmd < 2 ^ 63"
  shows "unmarshal_Message (marshal_OutMessage \<lparr>out_Command = cmd, out_Payload = p\<rparr>) old =
    Inr \<lparr>msg_Command = word_of_int cmd,
         msg_Payload = (case p of None \<Rightarrow> msg_Payload old | Some j \<Rightarrow> Some j)\<rparr>"
  using assms
  by (cases old) (simp add: unmarshal_Message_def marshal_OutMessage_def unmarshal_int64.simps(1)
      split: option.splits)

lemma sint_cmd [simp]:
  "sint (word_of_int 0 :: int64) = 0" "sint (word_of_int 1 :: int64) = 1"
  "sint (word_of_int 2 :: int64) = 2" "sint (word_of_int 3 :: int64) = 3"
  by simp_all

text \<open>
  The payload the message variable holds after the messages \<open>js\<close>: a message without one leaves
  the variable as it was.
\<close>

fun json_payload :: "json \<Rightarrow> json option" where
  "json_payload (JObj kvs) = map_of kvs ''payload''"
| "json_payload _ = None"

definition last_payload :: "json option \<Rightarrow> json list \<Rightarrow> json option" where
  "last_payload p js = fold (\<lambda>j p. case json_payload j of None \<Rightarrow> p | Some q \<Rightarrow> Some q) js p"

lemma last_payload_simps [simp]:
  "last_payload p [] = p"
  "last_payload p (j # js) = last_payload (case json_payload j of None \<Rightarrow> p | Some q \<Rightarrow> Some q) js"
  by (simp_all add: last_payload_def)

lemma json_payload_OutMessage [simp]: "json_payload (marshal_OutMessage m) = out_Payload m"
  by (simp add: marshal_OutMessage_def split: option.splits)

definition nop_echo :: "json option \<Rightarrow> json" where
  "nop_echo p = JObj ((''command'', JNum 0) # (case p of None \<Rightarrow> [] | Some q \<Rightarrow> [(''payload'', q)]))"

lemma nop_echo_eq: "nop_echo p = marshal_Message \<lparr>msg_Command = 0, msg_Payload = p\<rparr>"
  by (simp add: nop_echo_def marshal_Message_def)

lemma json_step:
  assumes "json_request c j" "json_valid c"
  shows "\<exists>msg reply v'. unmarshal_Message j (jv_msg v) = Inr msg \<and>
           json_switch (v\<lparr>jv_msg := msg\<rparr>) = Inr (Some reply, v') \<and> json_reply c reply \<and>
           msg_Payload (jv_msg v') = last_payload (msg_Payload (jv_msg v)) [j] \<and>
           (c = CNop \<longrightarrow> reply = nop_echo (msg_Payload (jv_msg v)))"
proof (cases c)
  case CNop
  with assms show ?thesis
    by (auto simp: Cmd_defs unmarshal_OutMessage json_switch_def nop_echo_eq Let_def)
next
  case (CAdd a b)
  with assms show ?thesis
    by (simp add: Cmd_defs unmarshal_OutMessage json_switch_def payload_json_def Let_def)
next
  case (CMult m vt)
  with assms obtain t where t: "tn_view t = vt"
      "j = marshal_OutMessage \<lparr>out_Command = CmdMultTree,
         out_Payload = Some (marshal_MultTreeRequest \<lparr>mtr_Mult = m, mtr_Tree = Some t\<rparr>)\<rparr>"
    by auto
  obtain t' where t': "unmarshal_MultTreeRequest
        (marshal_MultTreeRequest \<lparr>mtr_Mult = m, mtr_Tree = Some t\<rparr>) (jv_multReq v) =
      Inr \<lparr>mtr_Mult = m, mtr_Tree = Some t'\<rparr>" "tn_view t' = tn_view t"
    using unmarshal_marshal_MultTreeRequest [of m t "jv_multReq v"] by blast
  have "tn_view (tn_Mult m t') = vmult m vt"
    using t t' by (simp add: tn_view_Mult)
  then show ?thesis
    using CMult t t' by (auto simp: Cmd_defs unmarshal_OutMessage json_switch_def payload_json_def Let_def)
next
  case (CHex p)
  with assms show ?thesis
    by (simp add: Cmd_defs unmarshal_OutMessage json_switch_def payload_json_def Let_def)
qed

text \<open>
  Each reply answers its request, and a \<open>Nop\<close> is answered with what the message variable holds.
\<close>

lemma ws_runJsonConn_echoes:
  assumes laws: "ws_json_laws conn inbox outbox ok"
    and "ok n" "list_all2 json_request cs (inbox n)" "\<forall>c \<in> set cs. json_valid c"
  shows "\<exists>v' n' replies. ws_runJsonConn conn v n = Some (Blocked, v', n') \<and> ok n' \<and> inbox n' = [] \<and>
           outbox n' = outbox n @ replies \<and> list_all2 json_reply cs replies \<and>
           (\<forall>i < length cs. cs ! i = CNop \<longrightarrow>
              replies ! i = nop_echo (last_payload (msg_Payload (jv_msg v)) (take i (inbox n))))"
  using assms(2-)
proof (induction cs arbitrary: v n)
  case Nil
  then obtain n' where "wc_ReadJSON conn n = (Inl Blocked, n')" "ok n'" "inbox n' = []"
      "outbox n' = outbox n"
    using ws_json_lawsD(2) [OF laws, of n] by auto
  then show ?case by (simp add: ws_runJsonConn.simps [of conn v n])
next
  case (Cons c cs)
  then obtain j js where js: "inbox n = j # js" "json_request c j" "list_all2 json_request cs js"
    by (auto simp: list_all2_Cons1)
  obtain n1 where n1: "wc_ReadJSON conn n = (Inr j, n1)" "ok n1" "inbox n1 = js"
      "outbox n1 = outbox n"
    using ws_json_lawsD(1) [OF laws Cons.prems(1) js(1)] by blast
  obtain msg reply v' where step: "unmarshal_Message j (jv_msg v) = Inr msg"
      "json_switch (v\<lparr>jv_msg := msg\<rparr>) = Inr (Some reply, v')" "json_reply c reply"
      "msg_Payload (jv_msg v') = last_payload (msg_Payload (jv_msg v)) [j]"
      "c = CNop \<longrightarrow> reply = nop_echo (msg_Payload (jv_msg v))"
    using json_step [OF js(2)] Cons.prems(3) by fastforce
  obtain n2 where n2: "wc_WriteJSON conn n1 reply = (None, n2)" "ok n2" "inbox n2 = inbox n1"
      "outbox n2 = outbox n1 @ [reply]"
    using ws_json_lawsD(3) [OF laws n1(2)] by blast
  have run: "ws_runJsonConn conn v n = ws_runJsonConn conn v' n2"
    using n1(1) step n2(1) by (subst ws_runJsonConn.simps) simp
  have "list_all2 json_request cs (inbox n2)" using js(3) n1(3) n2(3) by simp
  from Cons.IH [OF n2(2) this, of v'] Cons.prems(3) n1(3) n2(3)
  obtain v'' n' replies where rest: "ws_runJsonConn conn v' n2 = Some (Blocked, v'', n')" "ok n'"
      "inbox n' = []" "outbox n' = outbox n2 @ replies" "list_all2 json_reply cs replies"
      "\<forall>i < length cs. cs ! i = CNop \<longrightarrow>
        replies ! i = nop_echo (last_payload (msg_Payload (jv_msg v')) (take i js))"
    by auto
  have "\<forall>i < length (c # cs). (c # cs) ! i = CNop \<longrightarrow>
      (reply # replies) ! i = nop_echo (last_payload (msg_Payload (jv_msg v)) (take i (inbox n)))"
    using step(4,5) rest(6) js(1) by (auto simp: less_Suc_eq_0_disj)
  with run n1 n2 step(3) rest(1-5) show ?case
    by (intro exI [of _ v''] exI [of _ n'] exI [of _ "reply # replies"]) simp
qed

lemma ws_runJsonConn_messages:
  assumes "ws_json_laws conn inbox outbox ok"
    and "ok n" "list_all2 json_request cs (inbox n)" "\<forall>c \<in> set cs. json_valid c"
  shows "\<exists>v' n' replies. ws_runJsonConn conn v n = Some (Blocked, v', n') \<and> ok n' \<and> inbox n' = [] \<and>
           outbox n' = outbox n @ replies \<and> list_all2 json_reply cs replies"
  using ws_runJsonConn_echoes [OF assms, of v] by blast

section \<open>Client and server connected\<close>

definition empty_sink :: sink where
  "empty_sink = \<lparr>sk_out = [], sk_room = None, sk_err = EOF\<rparr>"

text \<open>
  What the client relies on of its connection \<open>conn\<close> to the server of this package, whose end is
  \<open>sconn\<close>. At rest, nothing is on its way and the server's loop waits for a message: the binary
  loop in \<open>rest False\<close>, the JSON loop in \<open>rest True\<close>, as \<open>ws_ServeHTTP\<close> chose it. A message
  the client sends arrives at that loop, alone, whatever the loop's variables hold; if the loop
  takes it, sends one message and waits again, that message is the next the client reads, in
  any pieces, and the connection is at rest again. Of a loop that fails, does not return or
  sends something else the laws promise nothing.
\<close>

locale ws_link =
  fixes conn :: "'n ws_conn" and sconn :: "'s ws_conn"
    and inbox outbox :: "'s \<Rightarrow> byte list list" and ok :: "'s \<Rightarrow> bool"
    and jinbox joutbox :: "'s \<Rightarrow> json list" and jok :: "'s \<Rightarrow> bool"
    and rest :: "bool \<Rightarrow> 'n \<Rightarrow> bool"
  assumes server: "ws_conn_laws sconn inbox outbox ok"
    and server_json: "ws_json_laws sconn jinbox joutbox jok"
    and next_writer: "rest False n \<Longrightarrow>
      \<exists>d n'. wc_NextWriter conn n = (Inr d, n') \<and> sk_out d = [] \<and> sk_room d = None \<and> rest False n'"
    and close_sends: "rest False n \<Longrightarrow> sk_room d = None \<Longrightarrow>
      \<exists>n1 s r. wc_Close conn n d = (None, n1) \<and> ok s \<and> inbox s = [sk_out d] \<and> outbox s = [] \<and>
        (\<forall>s' m. ws_runBinaryConn sconn r s = Some (Blocked, s') \<longrightarrow> ok s' \<longrightarrow> inbox s' = [] \<longrightarrow> outbox s' = [m] \<longrightarrow>
          (\<exists>src n2. wc_NextReader conn n1 = (Inr src, n2) \<and> src_content src = m \<and>
             src_end src = EOF \<and> rest False n2))"
    and write_sends: "rest True n \<Longrightarrow>
      \<exists>n1 s v. wc_WriteJSON conn n j = (None, n1) \<and> jok s \<and> jinbox s = [j] \<and> joutbox s = [] \<and>
        (\<forall>v' s' m. ws_runJsonConn sconn v s = Some (Blocked, v', s') \<longrightarrow> jok s' \<longrightarrow>
          jinbox s' = [] \<longrightarrow> joutbox s' = [m] \<longrightarrow>
          (\<exists>n2. wc_ReadJSON conn n1 = (Inr m, n2) \<and> rest True n2))"

definition ws_idle :: "(bool \<Rightarrow> 'n \<Rightarrow> bool) \<Rightarrow> bool \<Rightarrow> wsClient \<times> 'n \<Rightarrow> bool" where
  "ws_idle rest isJson st \<longleftrightarrow>
     (case st of (c, n) \<Rightarrow> ws_isJson c = isJson \<and> tn_wf (ws_tree c) \<and> rest isJson n)"

lemma ws_idle_new: "rest isJson n \<Longrightarrow> ws_idle rest isJson (newWSClient isJson, n)"
  by (simp add: ws_idle_def newWSClient_def tn_zero_def)

context ws_link
begin

text \<open>One round trip in the binary form: \<open>body\<close> writes the request of \<open>call\<close>.\<close>

lemma ws_exchange_call:
  assumes "ws_idle rest False (c, n)" "bin_valid call"
    and body: "\<And>w. bw_reliable w \<Longrightarrow> bw_out w = [] \<Longrightarrow>
      \<exists>w'. body w = (None, w') \<and> bw_reliable w' \<and> bw_out w' = bin_request call"
  obtains c' n' where "ws_exchange conn body (c, n) = (None, c', n')"
    "br_content (ws_reader c') = bin_reply call" "ws_tree c' = ws_tree c" "\<not> ws_isJson c'"
    "rest False n'"
proof -
  have idle: "\<not> ws_isJson c" "rest False n" using assms(1) by (simp_all add: ws_idle_def)
  obtain d n1 where n1: "wc_NextWriter conn n = (Inr d, n1)" "sk_out d = []" "sk_room d = None" "rest False n1"
    using next_writer [OF idle(2)] by blast
  let ?w = "bw_reset (ws_writer c) d"
  have "bw_reliable ?w" "bw_out ?w = []"
    using n1 by (simp_all add: bw_reset_def bw_reliable_def bw_out_def)
  then obtain w1 where w1: "body ?w = (None, w1)" "bw_reliable w1" "bw_out w1 = bin_request call"
    using body by blast
  obtain w2 where w2: "bw_flush w1 = (None, w2)" "sk_out (bw_dst w2) = bin_request call"
      "sk_room (bw_dst w2) = None"
    using w1(2,3) by (metis bw_flush_reliable bw_reliable_def)
  obtain n2 s r where n2: "wc_Close conn n1 (bw_dst w2) = (None, n2)" "ok s"
      "inbox s = [sk_out (bw_dst w2)]" "outbox s = []"
      "\<forall>s' m. ws_runBinaryConn sconn r s = Some (Blocked, s') \<longrightarrow> ok s' \<longrightarrow> inbox s' = [] \<longrightarrow> outbox s' = [m] \<longrightarrow>
        (\<exists>src n2'. wc_NextReader conn n2 = (Inr src, n2') \<and> src_content src = m \<and>
          src_end src = EOF \<and> rest False n2')"
    using close_sends [OF n1(4) w2(3)] by blast
  have "inbox s = map bin_request [call]" using n2(3) w2(2) by simp
  from ws_runBinaryConn_messages [OF server n2(2) this, of r] assms(2) n2(4)
  obtain s' where "ws_runBinaryConn sconn r s = Some (Blocked, s')" "ok s'" "inbox s' = []"
      "outbox s' = [bin_reply call]"
    by auto
  with n2(5) obtain src n3 where n3: "wc_NextReader conn n2 = (Inr src, n3)"
      "src_content src = bin_reply call" "rest False n3"
    by blast
  let ?c = "c\<lparr>ws_writer := w2, ws_reader := br_reset (ws_reader c) src\<rparr>"
  have "ws_exchange conn body (c, n) = (None, ?c, n3)"
    using n1 w1 w2 n2(1) n3 by (simp add: ws_exchange_def)
  then show ?thesis
    by (rule that) (use n3 idle(1) in simp_all)
qed

lemma ws_json_exchange_call:
  assumes "rest True n" "json_valid call" "json_request call (marshal_OutMessage out)"
  obtains j n' where "ws_json_exchange conn werr rerr out n = (Inr j, n')" "json_reply call j" "rest True n'"
proof -
  obtain n1 s v where n1: "wc_WriteJSON conn n (marshal_OutMessage out) = (None, n1)" "jok s"
      "jinbox s = [marshal_OutMessage out]" "joutbox s = []"
      "\<forall>v' s' m. ws_runJsonConn sconn v s = Some (Blocked, v', s') \<longrightarrow> jok s' \<longrightarrow> jinbox s' = [] \<longrightarrow>
        joutbox s' = [m] \<longrightarrow> (\<exists>n2. wc_ReadJSON conn n1 = (Inr m, n2) \<and> rest True n2)"
    using write_sends [OF assms(1), of "marshal_OutMessage out"] by blast
  have "list_all2 json_request [call] (jinbox s)" using n1(3) assms(3) by simp
  from ws_runJsonConn_messages [OF server_json n1(2) this, of v] assms(2) n1(4)
  obtain v' s' j where s': "ws_runJsonConn sconn v s = Some (Blocked, v', s')" "jok s'" "jinbox s' = []"
      "joutbox s' = [j]" "json_reply call j"
    by (auto simp: list_all2_Cons1)
  with n1(5) obtain n2 where n2: "wc_ReadJSON conn n1 = (Inr j, n2)" "rest True n2"
    by blast
  then have "ws_json_exchange conn werr rerr out n = (Inr j, n2)"
    using n1(1) by (simp add: ws_json_exchange_def)
  then show ?thesis using s'(5) n2(2) by (rule that)
qed

lemma ws_Nop_ok:
  assumes "ws_idle rest isJson st"
  shows "\<exists>st'. ws_Nop conn st = (None, st') \<and> ws_idle rest isJson st'"
proof (cases isJson)
  case True
  obtain c n where st: "st = (c, n)" by (cases st)
  let ?out = "\<lparr>out_Command = CmdNop, out_Payload = None\<rparr>"
  obtain j n' where ex: "ws_json_exchange conn ''unable to write JSON nop''
      ''unable to read JSON nop'' ?out n = (Inr j, n')" "json_reply CNop j" "rest True n'"
    by (rule ws_json_exchange_call [where call = CNop and n = n]) (use assms True st in \<open>auto simp: ws_idle_def\<close>)
  obtain msg where "unmarshal_Message j (ws_msg c) = Inr msg"
    using ex(2) unmarshal_marshal_Message by auto
  with ex assms True st show ?thesis by (auto simp: ws_Nop_def ws_idle_def)
next
  case False
  obtain c n where st: "st = (c, n)" by (cases st)
  obtain c' n' where ex: "ws_exchange conn (\<lambda>w. bw_write_byte w ws_cmdNop) (c, n) = (None, c', n')"
    "br_content (ws_reader c') = bin_reply CNop" "ws_tree c' = ws_tree c" "\<not> ws_isJson c'" "rest False n'"
  proof (rule ws_exchange_call [where call = CNop])
    fix w assume "bw_reliable w" "bw_out w = []"
    then show "\<exists>w'. bw_write_byte w ws_cmdNop = (None, w') \<and> bw_reliable w' \<and> bw_out w' = bin_request CNop"
      using bw_write_byte_reliable [of w ws_cmdNop] by (auto simp: ws_cmdNop_def)
  qed (use assms False st in auto)
  obtain r where "br_read_byte (ws_reader c') = (Inr 1, r)"
    using ex(2) by (auto intro: br_read_byte_content)
  with ex assms False st show ?thesis by (auto simp: ws_Nop_def ws_idle_def)
qed

lemma ws_Add_ok:
  assumes "ws_idle rest isJson st"
  shows "\<exists>st'. ws_Add conn st a b = (Inr (a + b), st') \<and> ws_idle rest isJson st'"
proof (cases isJson)
  case True
  obtain c n where st: "st = (c, n)" by (cases st)
  let ?out = "\<lparr>out_Command = CmdAdd, out_Payload = Some (marshal_AddRequest \<lparr>add_A = a, add_B = b\<rparr>)\<rparr>"
  obtain j n' where ex: "ws_json_exchange conn ''unable to write JSON add''
      ''unable to read JSON add'' ?out n = (Inr j, n')" "json_reply (CAdd a b) j" "rest True n'"
    by (rule ws_json_exchange_call [where call = "CAdd a b" and n = n]) (use assms True st in \<open>auto simp: ws_idle_def\<close>)
  with assms True st show ?thesis by (auto simp: ws_Add_def ws_idle_def)
next
  case False
  obtain c n where st: "st = (c, n)" by (cases st)
  let ?body = "write_then (\<lambda>w. bw_write_byte w ws_cmdAdd)
      (write_then (\<lambda>w. WriteInt64 bw_write w a) (\<lambda>w. WriteInt64 bw_write w b))"
  obtain c' n' where ex: "ws_exchange conn ?body (c, n) = (None, c', n')"
    "br_content (ws_reader c') = bin_reply (CAdd a b)" "ws_tree c' = ws_tree c" "\<not> ws_isJson c'" "rest False n'"
  proof (rule ws_exchange_call [where call = "CAdd a b"])
    fix w assume w: "bw_reliable w" "bw_out w = []"
    obtain w1 where w1: "bw_write_byte w ws_cmdAdd = (None, w1)" "bw_out w1 = bw_out w @ [ws_cmdAdd]"
        "bw_reliable w1"
      using w(1) by (rule bw_write_byte_reliable)
    obtain w2 where w2: "WriteInt64 bw_write w1 a = (None, w2)" "bw_out w2 = bw_out w1 @ put_uint64 a"
        "bw_reliable w2"
      using w1(3) by (rule bw.WriteInt64_reliable)
    obtain w3 where "WriteInt64 bw_write w2 b = (None, w3)" "bw_out w3 = bw_out w2 @ put_uint64 b"
        "bw_reliable w3"
      using w2(3) by (rule bw.WriteInt64_reliable)
    with w w1 w2 show "\<exists>w'. ?body w = (None, w') \<and> bw_reliable w' \<and> bw_out w' = bin_request (CAdd a b)"
      by (auto simp: write_then_def ws_cmdAdd_def)
  qed (use assms False st in auto)
  have "br_content (ws_reader c') = put_uint64 (a + b) @ []" using ex(2) by simp
  then obtain r where "ReadInt64 br_read (ws_reader c') = (Inr (a + b), r)"
    by (rule br.ReadInt64_value)
  with ex assms False st show ?thesis by (auto simp: ws_Add_def ws_idle_def)
qed

lemma ws_MultTreeValues_ok:
  assumes "ws_idle rest isJson st"
    and fill: "\<And>t. tn_wf t \<Longrightarrow> \<exists>t'. fill t = Inr t' \<and> tn_wf t' \<and> tn_view t' = vt"
    and "vnodes vt < 2 ^ 63"
  shows "\<exists>res st'. ws_MultTreeValues conn st m fill = (Inr res, st') \<and> tn_wf res \<and>
           tn_view res = vmult m vt \<and> ws_idle rest isJson st'"
proof -
  obtain c n where st: "st = (c, n)" by (cases st)
  obtain tree where tree: "fill (tn_Reset (ws_tree c)) = Inr tree" "tn_wf tree" "tn_view tree = vt"
    using fill tn_wf_Reset assms(1) st by (fastforce simp: ws_idle_def)
  show ?thesis
  proof (cases isJson)
    case True
    let ?out = "\<lparr>out_Command = CmdMultTree,
        out_Payload = Some (marshal_MultTreeRequest \<lparr>mtr_Mult = m, mtr_Tree = Some tree\<rparr>)\<rparr>"
    obtain j n' where ex: "ws_json_exchange conn ''unable to write JSON tree''
        ''unable to read JSON tree'' ?out n = (Inr j, n')" "json_reply (CMult m vt) j"
        "rest True n'"
      by (rule ws_json_exchange_call [where call = "CMult m vt" and n = n])
        (use assms(1) True st tree in \<open>auto simp: ws_idle_def\<close>)
    then obtain t where t: "tn_view t = vmult m vt" "j = marshal_tree t" by auto
    obtain res where "unmarshal_tree j (tn_Reset tree) = Inr res" "tn_view res = vmult m vt" "tn_wf res"
      using unmarshal_marshal_tree [of t "tn_Reset tree"] t tn_wf_Reset tree(2) by auto
    with ex assms(1) True st tree show ?thesis by (auto simp: ws_MultTreeValues_def ws_idle_def)
  next
    case False
    let ?body = "write_then (\<lambda>w. bw_write_byte w ws_cmdMultTree) (WriteMultTreeRequest bw_write m tree)"
    obtain c' n' where ex: "ws_exchange conn ?body (c\<lparr>ws_tree := tree\<rparr>, n) = (None, c', n')"
      "br_content (ws_reader c') = bin_reply (CMult m vt)" "\<not> ws_isJson c'" "rest False n'"
    proof (rule ws_exchange_call [where call = "CMult m vt" and c = "c\<lparr>ws_tree := tree\<rparr>" and n = n
          and body = ?body])
      fix w assume w: "bw_reliable w" "bw_out w = []"
      obtain w1 where w1: "bw_write_byte w ws_cmdMultTree = (None, w1)"
          "bw_out w1 = bw_out w @ [ws_cmdMultTree]" "bw_reliable w1"
        using w(1) by (rule bw_write_byte_reliable)
      obtain w2 where "WriteMultTreeRequest bw_write m tree w1 = (None, w2)"
          "bw_out w2 = bw_out w1 @ mult_tree_request m (tn_view tree)" "bw_reliable w2"
        using w1(3) by (rule bw.WriteMultTreeRequest_reliable)
      with w w1 tree show "\<exists>w'. ?body w = (None, w') \<and> bw_reliable w' \<and> bw_out w' = bin_request (CMult m vt)"
        by (auto simp: write_then_def ws_cmdMultTree_def)
    qed (use assms(1,3) False st tree in \<open>auto simp: ws_idle_def\<close>)
    have lay: "vlayout (vmult m vt) = vlayout (tn_view tree)"
      and cont: "br_content (ws_reader c') = int64s (vvalues (vmult m vt)) @ []"
      using tree ex(2) by simp_all
    obtain res r where "ReadTree br_read tree (ws_reader c') = (None, res, r)"
        "tn_view res = vmult m vt" "tn_wf res"
      using br.ReadTree_value [OF lay cont] tree(2) by blast
    with ex assms(1) False st tree show ?thesis
      by (auto simp: ws_MultTreeValues_def ReadMultTreeReponse_def ws_idle_def)
  qed
qed

lemma ws_ToHex_ok:
  assumes "ws_idle rest isJson st" "length p < MaxHexEncodeSize" "length q = 2 * length p"
  shows "\<exists>st'. ws_ToHex conn st p q = (None, hex_encode p, st') \<and> ws_idle rest isJson st'"
proof (cases isJson)
  case True
  obtain c n where st: "st = (c, n)" by (cases st)
  let ?out = "\<lparr>out_Command = CmdToHex, out_Payload = Some (JBytes p)\<rparr>"
  obtain j n' where ex: "ws_json_exchange conn ''unable to write JSON hex''
      ''unable to read JSON hex'' ?out n = (Inr j, n')" "json_reply (CHex p) j" "rest True n'"
    by (rule ws_json_exchange_call [where call = "CHex p" and n = n]) (use assms True st in \<open>auto simp: ws_idle_def\<close>)
  with assms True st show ?thesis by (auto simp: ws_ToHex_def ws_idle_def)
next
  case False
  obtain c n where st: "st = (c, n)" by (cases st)
  let ?body = "write_then (\<lambda>w. bw_write_byte w ws_cmdToHex)
      (write_then (\<lambda>w. WriteInt64 bw_write w (word_of_nat (length p))) (\<lambda>w. bw_write w p))"
  obtain c' n' where ex: "ws_exchange conn ?body (c, n) = (None, c', n')"
    "br_content (ws_reader c') = bin_reply (CHex p)" "ws_tree c' = ws_tree c" "\<not> ws_isJson c'" "rest False n'"
  proof (rule ws_exchange_call [where call = "CHex p"])
    fix w assume w: "bw_reliable w" "bw_out w = []"
    obtain w1 where w1: "bw_write_byte w ws_cmdToHex = (None, w1)" "bw_out w1 = bw_out w @ [ws_cmdToHex]"
        "bw_reliable w1"
      using w(1) by (rule bw_write_byte_reliable)
    obtain w2 where w2: "WriteInt64 bw_write w1 (word_of_nat (length p)) = (None, w2)"
        "bw_out w2 = bw_out w1 @ put_uint64 (word_of_nat (length p))" "bw_reliable w2"
      using w1(3) by (rule bw.WriteInt64_reliable)
    obtain w3 where "bw_write w2 p = (None, w3)" "bw_out w3 = bw_out w2 @ p" "bw_reliable w3"
      using w2(3) by (rule bw.wr_reliable_eq)
    with w w1 w2 show "\<exists>w'. ?body w = (None, w') \<and> bw_reliable w' \<and> bw_out w' = bin_request (CHex p)"
      by (auto simp: write_then_def ws_cmdToHex_def)
  qed (use assms False st in auto)
  have "length q \<le> length (br_content (ws_reader c'))" using ex(2) assms(3) by simp
  then obtain r where "read_full br_read (length q) [] (ws_reader c') = (Inr (hex_encode p), r)"
    using br.read_full_enough [of "length q" "ws_reader c'" "[]"] ex(2) assms(3)
    by (cases "read_full br_read (length q) [] (ws_reader c')") auto
  with ex assms False st show ?thesis by (auto simp: ws_ToHex_def ws_idle_def)
qed

lemma ws_rpc_system:
  "rpc_system (ws_client_ops conn) (ws_idle rest isJson) tn_ops tn_wf (\<lambda>t t' vt. tn_wf t' \<and> tn_view t' = vt)
     tn_ops tn_view tn_wf (2 ^ 63 - 1) l (MaxHexEncodeSize - 1)"
proof unfold_locales
  fix c m vt and fill :: "TreeNodeImpl \<Rightarrow> TreeNodeImpl result"
  assume "ws_idle rest isJson c" "vwithin (2 ^ 63 - 1) l vt"
    "\<And>t. tn_wf t \<Longrightarrow> \<exists>t'. fill t = Inr t' \<and> tn_wf t' \<and> tn_view t' = vt"
  then show "\<exists>res c'. cl_MultTreeValues (ws_client_ops conn) c m fill = (Inr res, c') \<and>
      tn_wf res \<and> tn_view res = vmult m vt \<and> ws_idle rest isJson c'"
    using ws_MultTreeValues_ok by (simp add: ws_client_ops_def vwithin_def)
next
  fix c and p q :: "byte list"
  assume "ws_idle rest isJson c" "length p \<le> MaxHexEncodeSize - 1" "length q = 2 * length p"
  then show "\<exists>c'. cl_ToHex (ws_client_ops conn) c p q = (None, hex_encode p, c') \<and> ws_idle rest isJson c'"
    using ws_ToHex_ok [of isJson c p q] by (simp add: ws_client_ops_def MaxHexEncodeSize_def)
qed (simp_all add: ws_client_ops_def ws_Nop_ok ws_Add_ok del: split_paired_Ex)

end

section \<open>Ends in memory\<close>

text \<open>
  A connection in memory: the messages that have arrived at this end and those it has sent,
  binary and JSON, and the sizes of the pieces messages are read in. It is the server's end
  of \<open>ws_pipe\<close> below.
\<close>

record mem_end =
  m_in :: "byte list list"
  m_out :: "byte list list"
  m_jin :: "json list"
  m_jout :: "json list"
  m_cuts :: "nat list"

definition mem_conn :: "mem_end ws_conn" where
  "mem_conn =
     \<lparr>wc_NextReader = (\<lambda>n.
        case m_in n of
          [] \<Rightarrow> (Inl Blocked, n)
        | m # ms \<Rightarrow> (case cut_bytes (m_cuts n) m of
                      (cs, cuts) \<Rightarrow> (Inr (Source cs EOF), n\<lparr>m_in := ms, m_cuts := cuts\<rparr>))),
      wc_NextWriter = (\<lambda>n. (Inr empty_sink, n)),
      wc_Close = (\<lambda>n d. (None, n\<lparr>m_out := m_out n @ [sk_out d]\<rparr>)),
      wc_ReadJSON = (\<lambda>n.
        case m_jin n of
          [] \<Rightarrow> (Inl Blocked, n)
        | j # js \<Rightarrow> (Inr j, n\<lparr>m_jin := js\<rparr>)),
      wc_WriteJSON = (\<lambda>n j. (None, n\<lparr>m_jout := m_jout n @ [j]\<rparr>))\<rparr>"

lemma mem_conn_laws:
  "ws_conn_laws mem_conn m_in m_out (\<lambda>n. m_jin n = [] \<and> m_jout n = [])"
  by (auto simp: ws_conn_laws_def mem_conn_def empty_sink_def src_content_def split: prod.splits)

lemma mem_json_laws:
  "ws_json_laws mem_conn m_jin m_jout (\<lambda>n. m_in n = [] \<and> m_out n = [])"
  by (auto simp: ws_json_laws_def mem_conn_def)

text \<open>
  An example of the client's end of a connection, on the server's end \<open>mem_conn\<close>: a message
  that is sent runs the server's loop until it waits for the next one, and what it has sent by
  then is there to be read. The state is the server's end and its JSON variables.
\<close>

definition ws_pipe :: "(mem_end \<times> json_vars) ws_conn" where
  "ws_pipe =
     \<lparr>wc_NextReader = (\<lambda>(n, v).
        case m_out n of
          [] \<Rightarrow> (Inl Blocked, (n, v))
        | m # ms \<Rightarrow> (case cut_bytes (m_cuts n) m of
                      (cs, cuts) \<Rightarrow> (Inr (Source cs EOF), (n\<lparr>m_out := ms, m_cuts := cuts\<rparr>, v)))),
      wc_NextWriter = (\<lambda>st. (Inr empty_sink, st)),
      wc_Close = (\<lambda>(n, v) d.
        let n1 = n\<lparr>m_in := m_in n @ [sk_out d]\<rparr>
        in (case ws_runBinaryConn mem_conn zero_reader n1 of
              None \<Rightarrow> (None, (n1, v))
            | Some (e, n2) \<Rightarrow> (None, (n2, v)))),
      wc_ReadJSON = (\<lambda>(n, v).
        case m_jout n of
          [] \<Rightarrow> (Inl Blocked, (n, v))
        | j # js \<Rightarrow> (Inr j, (n\<lparr>m_jout := js\<rparr>, v))),
      wc_WriteJSON = (\<lambda>(n, v) j.
        let n1 = n\<lparr>m_jin := m_jin n @ [j]\<rparr>
        in (case ws_runJsonConn mem_conn v n1 of
              None \<Rightarrow> (None, (n1, v))
            | Some (e, v', n2) \<Rightarrow> (None, (n2, v'))))\<rparr>"

definition mem_idle :: "mem_end \<Rightarrow> bool" where
  "mem_idle n \<longleftrightarrow> m_in n = [] \<and> m_out n = [] \<and> m_jin n = [] \<and> m_jout n = []"

interpretation mem: ws_link ws_pipe mem_conn m_in m_out "\<lambda>n. m_jin n = [] \<and> m_jout n = []"
  m_jin m_jout "\<lambda>n. m_in n = [] \<and> m_out n = []" "\<lambda>_ (n, v). mem_idle n"
proof
  show "ws_conn_laws mem_conn m_in m_out (\<lambda>n. m_jin n = [] \<and> m_jout n = [])" by (rule mem_conn_laws)
  show "ws_json_laws mem_conn m_jin m_jout (\<lambda>n. m_in n = [] \<and> m_out n = [])" by (rule mem_json_laws)
next
  fix st :: "mem_end \<times> json_vars" and d :: sink and j
  assume rest: "case st of (n, v) \<Rightarrow> mem_idle n"
  obtain n v where st: "st = (n, v)" "mem_idle n" using rest by (cases st) simp
  show "\<exists>d n'. wc_NextWriter ws_pipe st = (Inr d, n') \<and> sk_out d = [] \<and> sk_room d = None \<and>
      (case n' of (n, v) \<Rightarrow> mem_idle n)"
    using rest by (auto simp: ws_pipe_def empty_sink_def)
  let ?n1 = "n\<lparr>m_in := m_in n @ [sk_out d]\<rparr>"
  have sent: "m_jin ?n1 = [] \<and> m_jout ?n1 = []" "m_in ?n1 = [sk_out d]" "m_out ?n1 = []"
    using st(2) by (simp_all add: mem_idle_def)
  have read: "\<exists>src n2. wc_NextReader ws_pipe (snd (wc_Close ws_pipe st d)) = (Inr src, n2) \<and>
      src_content src = m \<and> src_end src = EOF \<and> (case n2 of (n, v) \<Rightarrow> mem_idle n)"
    if "ws_runBinaryConn mem_conn zero_reader ?n1 = Some (Blocked, s')" "m_jin s' = [] \<and> m_jout s' = []"
      "m_in s' = []" "m_out s' = [m]" for s' m
    using that st(1) by (auto simp: ws_pipe_def mem_idle_def src_content_def Let_def split: prod.splits)
  show "\<exists>n1 s r. wc_Close ws_pipe st d = (None, n1) \<and> (m_jin s = [] \<and> m_jout s = []) \<and>
      m_in s = [sk_out d] \<and> m_out s = [] \<and>
      (\<forall>s' m. ws_runBinaryConn mem_conn r s = Some (Blocked, s') \<longrightarrow> (m_jin s' = [] \<and> m_jout s' = []) \<longrightarrow>
        m_in s' = [] \<longrightarrow> m_out s' = [m] \<longrightarrow>
        (\<exists>src n2. wc_NextReader ws_pipe n1 = (Inr src, n2) \<and> src_content src = m \<and>
           src_end src = EOF \<and> (case n2 of (n, v) \<Rightarrow> mem_idle n)))"
    if "sk_room d = None"
    by (rule exI [of _ "snd (wc_Close ws_pipe st d)"], rule exI [of _ ?n1], rule exI [of _ zero_reader])
      (use sent read st(1) in \<open>auto simp: ws_pipe_def Let_def split: option.splits\<close>)
  let ?j1 = "n\<lparr>m_jin := m_jin n @ [j]\<rparr>"
  have jsent: "m_in ?j1 = [] \<and> m_out ?j1 = []" "m_jin ?j1 = [j]" "m_jout ?j1 = []"
    using st(2) by (simp_all add: mem_idle_def)
  have jread: "\<exists>n2. wc_ReadJSON ws_pipe (snd (wc_WriteJSON ws_pipe st j)) = (Inr m, n2) \<and>
      (case n2 of (n, v) \<Rightarrow> mem_idle n)"
    if "ws_runJsonConn mem_conn v ?j1 = Some (Blocked, v', s')" "m_in s' = [] \<and> m_out s' = []"
      "m_jin s' = []" "m_jout s' = [m]" for v' s' m
    using that st(1) by (auto simp: ws_pipe_def mem_idle_def Let_def)
  show "\<exists>n1 s v. wc_WriteJSON ws_pipe st j = (None, n1) \<and> (m_in s = [] \<and> m_out s = []) \<and>
      m_jin s = [j] \<and> m_jout s = [] \<and>
      (\<forall>v' s' m. ws_runJsonConn mem_conn v s = Some (Blocked, v', s') \<longrightarrow> (m_in s' = [] \<and> m_out s' = []) \<longrightarrow>
        m_jin s' = [] \<longrightarrow> m_jout s' = [m] \<longrightarrow>
        (\<exists>n2. wc_ReadJSON ws_pipe n1 = (Inr m, n2) \<and> (case n2 of (n, v) \<Rightarrow> mem_idle n)))"
    by (rule exI [of _ "snd (wc_WriteJSON ws_pipe st j)"], rule exI [of _ ?j1], rule exI [of _ v])
      (use jsent jread st(1) in \<open>auto simp: ws_pipe_def Let_def split: option.splits\<close>)
qed

section \<open>Properties\<close>

text \<open>C23: On a connection that keeps its promises the binary loop answers every valid message
  with one message, in order, and then waits; unlike on a raw connection a \<open>ToHex\<close> request may
  be followed by others.\<close>

theorem ws_binary_messages:
  assumes "ws_conn_laws conn inbox outbox ok" "ok n"
    and "inbox n = map bin_request cs" "\<forall>c \<in> set cs. bin_valid c"
  shows "\<exists>n'. ws_runBinaryConn conn zero_reader n = Some (Blocked, n') \<and> inbox n' = [] \<and>
    outbox n' = outbox n @ map bin_reply cs"
  using ws_runBinaryConn_messages [OF assms, of zero_reader] by blast

definition mem_with :: "byte list list \<Rightarrow> json list \<Rightarrow> mem_end" where
  "mem_with ms js = \<lparr>m_in = ms, m_out = [], m_jin = js, m_jout = [], m_cuts = [1, 2]\<rparr>"

lemma ws_binary_messages_witness:
  "\<exists>n'. ws_runBinaryConn mem_conn zero_reader (mem_with (map bin_request [CHex [171], CAdd 2 3]) []) =
      Some (Blocked, n') \<and> m_out n' = map bin_reply [CHex [171], CAdd 2 3]"
  using ws_binary_messages [OF mem_conn_laws, of "mem_with (map bin_request [CHex [171], CAdd 2 3]) []"
      "[CHex [171], CAdd 2 3]"]
  by (auto simp: mem_with_def MaxHexEncodeSize_def simp del: bin_request.simps bin_reply.simps)

text \<open>C24: The JSON loop answers every request with one reply to that request, in order, whatever
  its variables hold from the messages before. The data of a \<open>ToHex\<close> is at most
  \<open>MaxHexEncodeSize\<close> bytes, which is one more than the binary loop can answer.\<close>

theorem ws_json_messages:
  assumes "ws_json_laws conn inbox outbox ok" "ok n"
    and "list_all2 json_request cs (inbox n)" "\<forall>c \<in> set cs. json_valid c"
  shows "\<exists>v' n' replies. ws_runJsonConn conn v n = Some (Blocked, v', n') \<and> inbox n' = [] \<and>
    outbox n' = outbox n @ replies \<and> list_all2 json_reply cs replies"
  using ws_runJsonConn_messages [OF assms, of v] by blast

lemma ws_json_messages_witness:
  "\<exists>v' n' reply. ws_runJsonConn mem_conn json_vars_init
      (mem_with [] [marshal_OutMessage \<lparr>out_Command = CmdAdd,
         out_Payload = Some (marshal_AddRequest \<lparr>add_A = 2, add_B = 3\<rparr>)\<rparr>]) = Some (Blocked, v', n') \<and>
    m_jout n' = [reply] \<and> json_reply (CAdd 2 3) reply"
  using ws_json_messages [OF mem_json_laws, of "mem_with [] [marshal_OutMessage \<lparr>out_Command = CmdAdd,
         out_Payload = Some (marshal_AddRequest \<lparr>add_A = 2, add_B = 3\<rparr>)\<rparr>]" "[CAdd 2 3]" json_vars_init]
  by (auto simp: mem_with_def list_all2_Cons1)

text \<open>C25: Among any valid requests, the reply to a JSON \<open>Nop\<close> repeats the payload of the last
  request before it that had one: the loop decodes into one message variable, a \<open>Nop\<close> has no
  payload, and what is echoed is the variable. Before the first payload it is what the
  variable held when the loop began.\<close>

theorem ws_json_nop_echoes:
  assumes "ws_json_laws conn inbox outbox ok" "ok n"
    and "list_all2 json_request cs (inbox n)" "\<forall>c \<in> set cs. json_valid c"
  shows "\<exists>v' n' replies. ws_runJsonConn conn v n = Some (Blocked, v', n') \<and>
    outbox n' = outbox n @ replies \<and> length replies = length cs \<and>
    (\<forall>i < length cs. cs ! i = CNop \<longrightarrow>
       replies ! i = JObj ((''command'', JNum 0) #
         (case last_payload (msg_Payload (jv_msg v)) (take i (inbox n)) of
            None \<Rightarrow> [] | Some q \<Rightarrow> [(''payload'', q)])))"
  using ws_runJsonConn_echoes [OF assms, of v] unfolding nop_echo_def
  by (metis list_all2_lengthD)

lemma ws_json_nop_echoes_witness:
  "\<exists>v' n' r1 r2 r3. ws_runJsonConn mem_conn json_vars_init
      (mem_with [] [marshal_OutMessage \<lparr>out_Command = CmdNop, out_Payload = None\<rparr>,
                    marshal_OutMessage \<lparr>out_Command = CmdToHex, out_Payload = Some (JBytes [7])\<rparr>,
                    marshal_OutMessage \<lparr>out_Command = CmdNop, out_Payload = None\<rparr>]) = Some (Blocked, v', n') \<and>
    m_jout n' = [r1, r2, r3] \<and> r1 = JObj [(''command'', JNum 0)] \<and>
    r3 = JObj [(''command'', JNum 0), (''payload'', JBytes [7])]"
proof -
  let ?js = "[marshal_OutMessage \<lparr>out_Command = CmdNop, out_Payload = None\<rparr>,
    marshal_OutMessage \<lparr>out_Command = CmdToHex, out_Payload = Some (JBytes [7])\<rparr>,
    marshal_OutMessage \<lparr>out_Command = CmdNop, out_Payload = None\<rparr>]"
  have "list_all2 json_request [CNop, CHex [7], CNop] (m_jin (mem_with [] ?js))"
      "\<forall>c \<in> set [CNop, CHex [7], CNop]. json_valid c"
    by (simp_all add: mem_with_def MaxHexEncodeSize_def)
  from ws_json_nop_echoes [OF mem_json_laws _ this, of json_vars_init]
  obtain v' n' replies where run: "ws_runJsonConn mem_conn json_vars_init (mem_with [] ?js) = Some (Blocked, v', n')"
      "m_jout n' = replies" "length replies = 3"
      "\<forall>i < 3. [CNop, CHex [7], CNop] ! i = CNop \<longrightarrow>
         replies ! i = JObj ((''command'', JNum 0) #
           (case last_payload None (take i ?js) of None \<Rightarrow> [] | Some q \<Rightarrow> [(''payload'', q)]))"
    by (auto simp: mem_with_def json_vars_init_def numeral_3_eq_3)
  then obtain r1 r2 r3 where r: "replies = [r1, r2, r3]"
    by (auto simp: numeral_3_eq_3 length_Suc_conv)
  have "r1 = JObj [(''command'', JNum 0)]" using run(4) [rule_format, of 0] r by simp
  moreover have "r3 = JObj [(''command'', JNum 0), (''payload'', JBytes [7])]"
    using run(4) [rule_format, of 2] r by simp
  ultimately show ?thesis using run(1,2) r by blast
qed

end
