(* ===== verification/Grpc.thy ===== *)
theory Grpc
  imports Benches
begin

text \<open>
  \<open>internal/rpc/grpc\<close>: the gRPC system. This theory has the tree adapter of
  \<open>structdef_adapter.go\<close> over the generated \<open>TreeNode\<close> message, the conversions of
  \<open>grpc_utils.go\<close>, the handlers of \<open>grpc_server.go\<close> and the client of \<open>grpc_client.go\<close>.
  The gRPC library and the protobuf encoding are not part of the repository: the generated
  \<open>APIClient\<close> is the argument \<open>api\<close>, and \<open>grpc_api_laws\<close> says what a unary call does.
\<close>

section \<open>The generated messages\<close>

text \<open>
  A \<open>*TreeNode\<close>: nil, or a value, and a slice of pointers given as its length and its
  backing array. No node is reachable through two pointers.
\<close>

datatype TreeNodePb = PbNil | PbNode (pb_value: int64) (pb_len: nat) (pb_store: "TreeNodePb list")

definition pb_new :: TreeNodePb where
  "pb_new = PbNode 0 0 []"

record PbAddRequest =
  par_A :: int64
  par_B :: int64

record PbAddResult =
  pad_Res :: int64

record PbMultTreeRequest =
  pmr_Mult :: int64
  pmr_Tree :: TreeNodePb

record PbMultTreeResponse =
  pms_Tree :: TreeNodePb

record PbToHexRequest =
  phr_In :: "byte list"

record PbToHexResponse =
  phs_Out :: "byte list"

section \<open>The tree adapter\<close>

fun pb_wf :: "TreeNodePb \<Rightarrow> bool" where
  "pb_wf PbNil \<longleftrightarrow> True"
| "pb_wf (PbNode v n cs) \<longleftrightarrow> n \<le> length cs \<and> (\<forall>c \<in> set cs. pb_wf c) \<and> PbNil \<notin> set (take n cs)"

definition pb_ok :: "TreeNodePb \<Rightarrow> bool" where
  "pb_ok t \<longleftrightarrow> t \<noteq> PbNil \<and> pb_wf t"

lemma size_take_pb [termination_simp]:
  "c \<in> set (take n cs) \<Longrightarrow> size c < Suc (size_list size cs)"
  by (meson in_set_takeD less_Suc_eq_le order_refl size_list_estimation')

fun pb_view :: "TreeNodePb \<Rightarrow> vtree" where
  "pb_view PbNil = VT 0 []"
| "pb_view (PbNode v n cs) = VT v (map pb_view (take n cs))"

text \<open>The generated getter accepts a nil receiver; the methods of the adapter do not.\<close>

fun pb_GetValue :: "TreeNodePb \<Rightarrow> int64" where
  "pb_GetValue PbNil = 0"
| "pb_GetValue (PbNode v n cs) = v"

fun pb_SetValue :: "int64 \<Rightarrow> TreeNodePb \<Rightarrow> TreeNodePb result" where
  "pb_SetValue v PbNil = Inl nil_deref"
| "pb_SetValue v (PbNode _ n cs) = Inr (PbNode v n cs)"

fun pb_Child :: "TreeNodePb \<Rightarrow> nat \<Rightarrow> TreeNodePb result" where
  "pb_Child PbNil i = Inl nil_deref"
| "pb_Child (PbNode v n cs) i =
     (if i < length (take n cs) then Inr (take n cs ! i) else Inl (Panic ''index out of range''))"

fun pb_PutChild :: "TreeNodePb \<Rightarrow> nat \<Rightarrow> TreeNodePb \<Rightarrow> TreeNodePb" where
  "pb_PutChild PbNil i c = PbNil"
| "pb_PutChild (PbNode v n cs) i c = PbNode v n (cs[i := c])"

fun pb_ChildrenCount :: "TreeNodePb \<Rightarrow> nat result" where
  "pb_ChildrenCount PbNil = Inl nil_deref"
| "pb_ChildrenCount (PbNode v n cs) = Inr (length (take n cs))"

text \<open>
  \<open>slices.Grow(x.Children[:0], n)[:n]\<close> keeps the pointers the old array held and adds nil
  ones; the loop then allocates a node wherever a pointer is nil.
\<close>

fun pb_InitChildren :: "nat \<Rightarrow> TreeNodePb \<Rightarrow> TreeNodePb result" where
  "pb_InitChildren n PbNil = Inl nil_deref"
| "pb_InitChildren n (PbNode v _ cs) =
     (let cs1 = (if n \<le> length cs then cs else cs @ replicate (n - length cs) PbNil)
      in Inr (PbNode v n
           (map (\<lambda>c. if c = PbNil then pb_new else c) (take n cs1) @ drop n cs1)))"

fun pb_TotalNodes :: "TreeNodePb \<Rightarrow> int64 result" where
  "pb_TotalNodes PbNil = Inl nil_deref"
| "pb_TotalNodes (PbNode v n cs) =
     bind_result (map_result pb_TotalNodes (take n cs)) (\<lambda>ks. Inr (1 + sum_list ks))"

definition pb_ops :: "TreeNodePb tree_ops" where
  "pb_ops =
     \<lparr>op_SetValue = pb_SetValue,
      op_GetValue = pb_GetValue,
      op_InitChildren = pb_InitChildren,
      op_ChildrenCount = pb_ChildrenCount,
      op_Child = pb_Child,
      op_PutChild = pb_PutChild,
      op_TotalNodes = (\<lambda>t. Some (pb_TotalNodes t))\<rparr>"

section \<open>Conversions\<close>

fun treeToGrpc :: "TreeNodeImpl \<Rightarrow> TreeNodePb" where
  "treeToGrpc (TreeNodeImpl v n cs) =
     PbNode v (length (take n cs)) (map treeToGrpc (take n cs))"

lemma size_zip_take_pb [termination_simp]:
  "(c, x) \<in> set (zip (take n cs) xs) \<Longrightarrow> size c < Suc (size_list size cs)"
  by (meson set_zip_leftD size_take_pb)

text \<open>\<open>grpcToTree\<close> fills a tree that already has the layout of the message.\<close>

fun grpcToTree :: "TreeNodePb \<Rightarrow> TreeNodeImpl \<Rightarrow> TreeNodeImpl result" where
  "grpcToTree PbNil t = Inl nil_deref"
| "grpcToTree (PbNode v n cs) t =
     (if length (take n cs) \<noteq> length (tn_children t) then Inl (ErrorNew ''wrong number of children'')
      else bind_result (map_result (\<lambda>(g, c). grpcToTree g c) (zip (take n cs) (tn_children t)))
             (\<lambda>cs'. Inr (TreeNodeImpl v (tn_len t) (cs' @ drop (tn_len t) (tn_store t)))))"

section \<open>The server\<close>

definition grpc_srv_Nop :: "unit result" where
  "grpc_srv_Nop = Inr ()"

definition grpc_srv_Add :: "PbAddRequest \<Rightarrow> PbAddResult result" where
  "grpc_srv_Add req = Inr \<lparr>pad_Res = par_A req + par_B req\<rparr>"

fun multTree :: "int64 \<Rightarrow> TreeNodePb \<Rightarrow> TreeNodePb result" where
  "multTree mul PbNil = Inl nil_deref"
| "multTree mul (PbNode v n cs) =
     bind_result (map_result (multTree mul) (take n cs))
       (\<lambda>cs'. Inr (PbNode (v * mul) n (cs' @ drop n cs)))"

definition grpc_srv_MultTree :: "PbMultTreeRequest \<Rightarrow> PbMultTreeResponse result" where
  "grpc_srv_MultTree req =
     bind_result (multTree (pmr_Mult req) (pmr_Tree req)) (\<lambda>resTree. Inr \<lparr>pms_Tree = resTree\<rparr>)"

definition grpc_srv_ToHex :: "PbToHexRequest \<Rightarrow> PbToHexResponse result" where
  "grpc_srv_ToHex req = Inr \<lparr>phs_Out = hex_encode (phr_In req)\<rparr>"

section \<open>The client\<close>

text \<open>The methods of the generated \<open>APIClient\<close> over the state of the connection.\<close>

record 'n grpc_api =
  ga_Nop :: "'n \<Rightarrow> unit result \<times> 'n"
  ga_Add :: "'n \<Rightarrow> PbAddRequest \<Rightarrow> PbAddResult result \<times> 'n"
  ga_MultTree :: "'n \<Rightarrow> PbMultTreeRequest \<Rightarrow> PbMultTreeResponse result \<times> 'n"
  ga_ToHex :: "'n \<Rightarrow> PbToHexRequest \<Rightarrow> PbToHexResponse result \<times> 'n"

record grpcClient =
  gc_tree :: TreeNodePb

definition newGRPCClient :: grpcClient where
  "newGRPCClient = \<lparr>gc_tree = pb_new\<rparr>"

definition grpc_Nop ::
  "'n grpc_api \<Rightarrow> grpcClient \<times> 'n \<Rightarrow> go_error option \<times> grpcClient \<times> 'n" where
  "grpc_Nop api st =
     (case st of (c, n) \<Rightarrow>
       (case ga_Nop api n of
          (Inl e, n') \<Rightarrow> (Some e, c, n')
        | (Inr _, n') \<Rightarrow> (None, c, n')))"

definition grpc_Add ::
  "'n grpc_api \<Rightarrow> grpcClient \<times> 'n \<Rightarrow> int64 \<Rightarrow> int64 \<Rightarrow> int64 result \<times> grpcClient \<times> 'n"
where
  "grpc_Add api st a b =
     (case st of (c, n) \<Rightarrow>
       (case ga_Add api n \<lparr>par_A = a, par_B = b\<rparr> of
          (Inl e, n') \<Rightarrow> (Inl e, c, n')
        | (Inr res, n') \<Rightarrow> (Inr (pad_Res res), c, n')))"

definition grpc_MultTreeValues ::
  "'n grpc_api \<Rightarrow> grpcClient \<times> 'n \<Rightarrow> int64 \<Rightarrow> (TreeNodePb \<Rightarrow> TreeNodePb result) \<Rightarrow>
     TreeNodePb result \<times> grpcClient \<times> 'n"
where
  "grpc_MultTreeValues api st mult fillArgs =
     (case st of (c, n) \<Rightarrow>
       (case fillArgs (gc_tree c) of
          Inl e \<Rightarrow> (Inl e, c, n)
        | Inr tree \<Rightarrow>
            (case ga_MultTree api n \<lparr>pmr_Mult = mult, pmr_Tree = tree\<rparr> of
               (Inl e, n') \<Rightarrow> (Inl e, c\<lparr>gc_tree := tree\<rparr>, n')
             | (Inr res, n') \<Rightarrow> (Inr (pms_Tree res), c\<lparr>gc_tree := tree\<rparr>, n'))))"

definition grpc_ToHex ::
  "'n grpc_api \<Rightarrow> grpcClient \<times> 'n \<Rightarrow> byte list \<Rightarrow> byte list \<Rightarrow>
     go_error option \<times> byte list \<times> grpcClient \<times> 'n"
where
  "grpc_ToHex api st inp outp =
     (case st of (c, n) \<Rightarrow>
       (case ga_ToHex api n \<lparr>phr_In = inp\<rparr> of
          (Inl e, n') \<Rightarrow> (Some e, outp, c, n')
        | (Inr res, n') \<Rightarrow>
            (None, take (length outp) (phs_Out res) @ drop (length (phs_Out res)) outp, c, n')))"

definition grpc_client_ops ::
  "'n grpc_api \<Rightarrow> (grpcClient \<times> 'n, TreeNodePb, TreeNodePb) client_ops"
where
  "grpc_client_ops api =
     \<lparr>cl_Nop = grpc_Nop api,
      cl_Add = grpc_Add api,
      cl_MultTreeValues = grpc_MultTreeValues api,
      cl_ToHex = grpc_ToHex api\<rparr>"

section \<open>The adapter meets the contract of \<open>TreeNode\<close>\<close>

lemma pb_okE:
  assumes "pb_ok t"
  obtains v n cs where "t = PbNode v n cs" "n \<le> length cs" "\<forall>c \<in> set cs. pb_wf c"
    "PbNil \<notin> set (take n cs)"
  using assms by (cases t) (auto simp: pb_ok_def)

lemma pb_ok_children: "pb_ok (PbNode v n cs) \<Longrightarrow> c \<in> set (take n cs) \<Longrightarrow> pb_ok c"
  by (auto simp: pb_ok_def dest: in_set_takeD)

lemma pb_InitChildren_ok:
  assumes "pb_ok t"
  shows "\<exists>t'. pb_InitChildren n t = Inr t' \<and> pb_ok t' \<and> vvalue (pb_view t') = vvalue (pb_view t) \<and>
    length (vchildren (pb_view t')) = n"
  using assms
proof (rule pb_okE)
  fix v k cs assume t: "t = PbNode v k cs" "k \<le> length cs" "\<forall>c \<in> set cs. pb_wf c"
    "PbNil \<notin> set (take k cs)"
  define cs1 where "cs1 = (if n \<le> length cs then cs else cs @ replicate (n - length cs) PbNil)"
  define ys where "ys = map (\<lambda>c. if c = PbNil then pb_new else c) (take n cs1)"
  have cs1: "n \<le> length cs1" "\<forall>c \<in> set cs1. pb_wf c"
    using t by (auto simp: cs1_def)
  have ys: "length ys = n" "PbNil \<notin> set ys" "\<forall>c \<in> set ys. pb_wf c"
    using cs1 by (auto simp: ys_def pb_new_def min_absorb2 dest: in_set_takeD)
  have "pb_InitChildren n t = Inr (PbNode v n (ys @ drop n cs1))"
    by (simp add: t cs1_def ys_def)
  moreover have "pb_ok (PbNode v n (ys @ drop n cs1))"
    using cs1 ys by (auto simp: pb_ok_def dest: in_set_dropD)
  ultimately show ?thesis using t ys by auto
qed

interpretation pb: tree_node pb_ops pb_view pb_ok
proof unfold_locales
  fix t v assume "pb_ok t"
  then show "\<exists>t'. op_SetValue pb_ops v t = Inr t' \<and> pb_ok t' \<and>
      pb_view t' = VT v (vchildren (pb_view t))"
    by (rule pb_okE) (auto simp: pb_ops_def pb_ok_def)
next
  fix t i assume ok: "pb_ok t" "i < length (vchildren (pb_view t))"
  then obtain v n cs where t: "t = PbNode v n cs" by (auto elim: pb_okE)
  with ok show "\<exists>c. op_Child pb_ops t i = Inr c \<and> pb_ok c \<and> pb_view c = vchildren (pb_view t) ! i"
    using pb_ok_children [of v n cs "take n cs ! i"] nth_mem [of i "take n cs"]
    by (auto simp: pb_ops_def)
next
  fix t c i assume "pb_ok t" "pb_ok c" "i < length (vchildren (pb_view t))"
  then show "pb_ok (op_PutChild pb_ops t i c) \<and> pb_view (op_PutChild pb_ops t i c) =
      VT (vvalue (pb_view t)) ((vchildren (pb_view t))[i := pb_view c])"
    by (cases t) (auto simp: pb_ops_def pb_ok_def take_update_swap map_update
        dest!: set_update_subset_insert [THEN subsetD])
qed (auto simp: pb_ops_def pb_InitChildren_ok elim: pb_okE)

section \<open>Handlers and conversions\<close>

lemma map_result_pointwise:
  assumes "\<And>x. x \<in> set xs \<Longrightarrow> \<exists>y. f x = Inr y \<and> P x y"
  shows "\<exists>ys. map_result f xs = Inr ys \<and> list_all2 P xs ys"
  using assms
proof (induction xs)
  case (Cons x xs)
  then obtain y ys where "f x = Inr y" "P x y" "map_result f xs = Inr ys" "list_all2 P xs ys"
    by (metis list.set_intros)
  then show ?case by auto
qed simp

lemma list_all2_map_eq:
  "list_all2 (\<lambda>x y. P y \<and> f y = g x) xs ys \<Longrightarrow> (\<forall>y \<in> set ys. P y) \<and> map f ys = map g xs"
  by (induction rule: list_all2_induct) auto

lemma multTree_ok:
  "pb_ok t \<Longrightarrow> \<exists>t'. multTree m t = Inr t' \<and> pb_ok t' \<and> pb_view t' = vmult m (pb_view t)"
proof (induction t)
  case PbNil
  then show ?case by (simp add: pb_ok_def)
next
  case (PbNode v n cs)
  have n: "n \<le> length cs" "\<forall>c \<in> set cs. pb_wf c" using PbNode.prems by (simp_all add: pb_ok_def)
  have "\<exists>y. multTree m c = Inr y \<and> pb_ok y \<and> pb_view y = vmult m (pb_view c)" if "c \<in> set (take n cs)" for c
    using PbNode.IH [of c] pb_ok_children [OF PbNode.prems that] that by (auto dest: in_set_takeD)
  from map_result_pointwise [of "take n cs" "multTree m", OF this]
  obtain ys where ys: "map_result (multTree m) (take n cs) = Inr ys"
      "list_all2 (\<lambda>c y. pb_ok y \<and> pb_view y = vmult m (pb_view c)) (take n cs) ys"
    by blast
  have len: "length ys = n" using list_all2_lengthD [OF ys(2)] n by simp
  have "\<forall>y \<in> set ys. pb_ok y" "map pb_view ys = map (vmult m) (map pb_view (take n cs))"
    using list_all2_map_eq [where P = pb_ok and f = pb_view and g = "\<lambda>c. vmult m (pb_view c)", OF ys(2)]
    by simp_all
  with ys(1) len n show ?case
    by (auto simp: pb_ok_def dest: in_set_dropD)
qed

lemma treeToGrpc_ok: "pb_ok (treeToGrpc t) \<and> pb_view (treeToGrpc t) = tn_view t"
proof (induction t)
  case (TreeNodeImpl v n cs)
  then have "\<forall>c \<in> set (take n cs). pb_ok (treeToGrpc c) \<and> pb_view (treeToGrpc c) = tn_view c"
    by (auto dest: in_set_takeD)
  then show ?case by (force simp: pb_ok_def)
qed

text \<open>A message fills every tree of its layout, and only those.\<close>

lemma grpcToTree_ok:
  "pb_ok g \<Longrightarrow> vlayout (tn_view t) = vlayout (pb_view g) \<Longrightarrow>
     \<exists>t'. grpcToTree g t = Inr t' \<and> tn_view t' = pb_view g"
proof (induction g arbitrary: t)
  case PbNil
  then show ?case by (simp add: pb_ok_def)
next
  case (PbNode v n cs)
  obtain w k xs where t: "t = TreeNodeImpl w k xs" by (cases t)
  have lay: "map (\<lambda>x. vlayout (tn_view x)) (take k xs) = map (\<lambda>c. vlayout (pb_view c)) (take n cs)"
    using PbNode.prems(2) by (simp add: t o_def)
  then have len: "length (take k xs) = length (take n cs)" by (metis length_map)
  have "\<exists>y. (case x of (g, c) \<Rightarrow> grpcToTree g c) = Inr y \<and> tn_view y = pb_view (fst x)"
    if x: "x \<in> set (zip (take n cs) (take k xs))" for x
  proof -
    obtain i where i: "i < length (take n cs)" "x = (take n cs ! i, take k xs ! i)"
    proof -
      obtain i where "i < length (zip (take n cs) (take k xs))" "x = zip (take n cs) (take k xs) ! i"
        using x by (metis in_set_conv_nth)
      with len that show thesis by (simp del: length_take nth_take)
    qed
    have "take n cs ! i \<in> set cs" "pb_ok (take n cs ! i)"
      using i(1) nth_mem [OF i(1)] pb_ok_children [OF PbNode.prems(1)] by (auto dest: in_set_takeD)
    moreover have "vlayout (tn_view (take k xs ! i)) = vlayout (pb_view (take n cs ! i))"
      using lay i(1) len by (metis (mono_tags, lifting) nth_map)
    ultimately show ?thesis using PbNode.IH [of "take n cs ! i" "take k xs ! i"] i(2) by simp
  qed
  from map_result_pointwise [where xs = "zip (take n cs) (take k xs)" and
      f = "\<lambda>(g, c). grpcToTree g c" and P = "\<lambda>x y. tn_view y = pb_view (fst x)", OF this]
  obtain ys where ys: "map_result (\<lambda>(g, c). grpcToTree g c) (zip (take n cs) (take k xs)) = Inr ys"
      "list_all2 (\<lambda>x y. tn_view y = pb_view (fst x)) (zip (take n cs) (take k xs)) ys"
    by blast
  have lys: "length ys = length (take k xs)"
    using list_all2_lengthD [OF ys(2)] len by simp
  have view: "map tn_view ys = map pb_view (take n cs)"
  proof -
    have "map tn_view ys = map (\<lambda>x. pb_view (fst x)) (zip (take n cs) (take k xs))"
      using list_all2_map_eq [where P = "\<lambda>_. True" and f = tn_view and g = "\<lambda>x. pb_view (fst x)"
          and xs = "zip (take n cs) (take k xs)" and ys = ys] ys(2) by simp
    also have "\<dots> = map pb_view (map fst (zip (take n cs) (take k xs)))" by simp
    also have "map fst (zip (take n cs) (take k xs)) = take n cs" using len by simp
    finally show ?thesis .
  qed
  have "take k (ys @ drop k xs) = ys" using lys by (auto simp: min_def split: if_splits)
  with ys(1) len view show ?case by (simp add: t del: take_append length_take)
qed

lemma pb_TotalNodes_view: "pb_ok t \<Longrightarrow> pb_TotalNodes t = Inr (word_of_nat (vnodes (pb_view t)))"
proof (induction t)
  case PbNil
  then show ?case by (simp add: pb_ok_def)
next
  case (PbNode v n cs)
  have loop: "map_result pb_TotalNodes xs = Inr (map (\<lambda>c. word_of_nat (vnodes (pb_view c))) xs)"
    if "set xs \<subseteq> set (take n cs)" for xs
    using that
  proof (induction xs)
    case (Cons x xs)
    then have "x \<in> set (take n cs)" by simp
    then have "pb_TotalNodes x = Inr (word_of_nat (vnodes (pb_view x)))"
      using PbNode.IH [of x] pb_ok_children [OF PbNode.prems] by (auto dest: in_set_takeD)
    with Cons show ?case by simp
  qed simp
  show ?case
    using loop [of "take n cs"] by (simp add: sum_list_word_of_nat o_def)
qed

section \<open>The client over a connection to this server\<close>

text \<open>
  A unary call hands an equal message to the handler and its result back to the caller, for
  trees of at most \<open>N\<close> nodes and data of at most \<open>M\<close> bytes (gRPC limits the size of a
  message). The nodes the other end works on are its own.
\<close>

definition same_tree :: "TreeNodePb \<Rightarrow> TreeNodePb \<Rightarrow> bool" where
  "same_tree t t' \<longleftrightarrow> pb_view t' = pb_view t \<and> (pb_ok t \<longrightarrow> pb_ok t')"

definition grpc_api_laws :: "'n grpc_api \<Rightarrow> ('n \<Rightarrow> bool) \<Rightarrow> nat \<Rightarrow> nat \<Rightarrow> bool" where
  "grpc_api_laws api ok N M \<longleftrightarrow>
     (\<forall>n. ok n \<longrightarrow> (\<exists>n'. ga_Nop api n = (grpc_srv_Nop, n') \<and> ok n')) \<and>
     (\<forall>n req. ok n \<longrightarrow> (\<exists>n'. ga_Add api n req = (grpc_srv_Add req, n') \<and> ok n')) \<and>
     (\<forall>n m t. ok n \<longrightarrow> pb_ok t \<longrightarrow> vnodes (pb_view t) \<le> N \<longrightarrow>
        (\<exists>t1 r n'. same_tree t t1 \<and> ga_MultTree api n \<lparr>pmr_Mult = m, pmr_Tree = t\<rparr> = (r, n') \<and> ok n' \<and>
           (\<forall>res. grpc_srv_MultTree \<lparr>pmr_Mult = m, pmr_Tree = t1\<rparr> = Inr res \<longrightarrow>
              (\<exists>t2. r = Inr \<lparr>pms_Tree = t2\<rparr> \<and> same_tree (pms_Tree res) t2)))) \<and>
     (\<forall>n p. ok n \<longrightarrow> length p \<le> M \<longrightarrow>
        (\<exists>n'. ga_ToHex api n \<lparr>phr_In = p\<rparr> = (grpc_srv_ToHex \<lparr>phr_In = p\<rparr>, n') \<and> ok n'))"

lemma grpc_api_lawsD:
  assumes "grpc_api_laws api ok N M" "ok n"
  shows "\<exists>n'. ga_Nop api n = (grpc_srv_Nop, n') \<and> ok n'"
    and "\<exists>n'. ga_Add api n req = (grpc_srv_Add req, n') \<and> ok n'"
    and "pb_ok t \<Longrightarrow> vnodes (pb_view t) \<le> N \<Longrightarrow>
      \<exists>t1 r n'. same_tree t t1 \<and> ga_MultTree api n \<lparr>pmr_Mult = m, pmr_Tree = t\<rparr> = (r, n') \<and> ok n' \<and>
        (\<forall>res. grpc_srv_MultTree \<lparr>pmr_Mult = m, pmr_Tree = t1\<rparr> = Inr res \<longrightarrow>
           (\<exists>t2. r = Inr \<lparr>pms_Tree = t2\<rparr> \<and> same_tree (pms_Tree res) t2))"
    and "length p \<le> M \<Longrightarrow>
      \<exists>n'. ga_ToHex api n \<lparr>phr_In = p\<rparr> = (grpc_srv_ToHex \<lparr>phr_In = p\<rparr>, n') \<and> ok n'"
proof -
  note nop_add = assms(1) [unfolded grpc_api_laws_def, THEN conjunct1]
    assms(1) [unfolded grpc_api_laws_def, THEN conjunct2, THEN conjunct1]
  note tree_hex = assms(1) [unfolded grpc_api_laws_def, THEN conjunct2, THEN conjunct2, THEN conjunct1]
    assms(1) [unfolded grpc_api_laws_def, THEN conjunct2, THEN conjunct2, THEN conjunct2]
  show "\<exists>n'. ga_Nop api n = (grpc_srv_Nop, n') \<and> ok n'"
    and "\<exists>n'. ga_Add api n req = (grpc_srv_Add req, n') \<and> ok n'"
    using nop_add assms(2) by simp_all
  show "\<exists>t1 r n'. same_tree t t1 \<and> ga_MultTree api n \<lparr>pmr_Mult = m, pmr_Tree = t\<rparr> = (r, n') \<and> ok n' \<and>
        (\<forall>res. grpc_srv_MultTree \<lparr>pmr_Mult = m, pmr_Tree = t1\<rparr> = Inr res \<longrightarrow>
           (\<exists>t2. r = Inr \<lparr>pms_Tree = t2\<rparr> \<and> same_tree (pms_Tree res) t2))"
    if "pb_ok t" "vnodes (pb_view t) \<le> N"
    using tree_hex(1) assms(2) that by simp
  show "\<exists>n'. ga_ToHex api n \<lparr>phr_In = p\<rparr> = (grpc_srv_ToHex \<lparr>phr_In = p\<rparr>, n') \<and> ok n'"
    if "length p \<le> M"
    using tree_hex(2) assms(2) that by simp
qed

definition grpc_ready :: "('n \<Rightarrow> bool) \<Rightarrow> grpcClient \<times> 'n \<Rightarrow> bool" where
  "grpc_ready ok st \<longleftrightarrow> pb_ok (gc_tree (fst st)) \<and> ok (snd st)"

lemma grpc_MultTreeValues_ok:
  assumes laws: "grpc_api_laws api ok N M" and "grpc_ready ok st"
    and fill: "\<And>t. pb_ok t \<Longrightarrow> \<exists>t'. fill t = Inr t' \<and> pb_ok t' \<and> pb_view t' = vt"
    and "vnodes vt \<le> N"
  shows "\<exists>res st'. grpc_MultTreeValues api st m fill = (Inr res, st') \<and> pb_ok res \<and>
           pb_view res = vmult m vt \<and> grpc_ready ok st'"
proof -
  obtain c n where st: "st = (c, n)" by (cases st)
  obtain tree where tree: "fill (gc_tree c) = Inr tree" "pb_ok tree" "pb_view tree = vt"
    using fill assms(2) st by (auto simp: grpc_ready_def)
  have "ok n" "vnodes (pb_view tree) \<le> N" using assms(2,4) st tree by (simp_all add: grpc_ready_def)
  then obtain t1 r n' where t1: "same_tree tree t1"
      "ga_MultTree api n \<lparr>pmr_Mult = m, pmr_Tree = tree\<rparr> = (r, n')" "ok n'"
      "\<And>res. grpc_srv_MultTree \<lparr>pmr_Mult = m, pmr_Tree = t1\<rparr> = Inr res \<Longrightarrow>
         \<exists>t2. r = Inr \<lparr>pms_Tree = t2\<rparr> \<and> same_tree (pms_Tree res) t2"
    using grpc_api_lawsD(3) [OF laws _ tree(2), of n m] by metis
  obtain t' where t': "multTree m t1 = Inr t'" "pb_ok t'" "pb_view t' = vmult m vt"
    using multTree_ok [of t1 m] t1(1) tree by (auto simp: same_tree_def)
  obtain t2 where "r = Inr \<lparr>pms_Tree = t2\<rparr>" "pb_view t2 = vmult m vt" "pb_ok t2"
    using t1(4) [of "\<lparr>pms_Tree = t'\<rparr>"] t' by (auto simp: grpc_srv_MultTree_def same_tree_def)
  with t1 tree st show ?thesis by (auto simp: grpc_MultTreeValues_def grpc_ready_def)
qed

lemma grpc_rpc_system:
  assumes laws: "grpc_api_laws api ok N M"
  shows "rpc_system (grpc_client_ops api) (grpc_ready ok)
    pb_ops pb_ok (\<lambda>t t' vt. pb_ok t' \<and> pb_view t' = vt) pb_ops pb_view pb_ok N l M"
proof unfold_locales
  fix c :: "grpcClient \<times> 'a" assume ready: "grpc_ready ok c"
  then have "ok (snd c)" by (simp add: grpc_ready_def)
  from grpc_api_lawsD(1) [OF laws this] ready
  show "\<exists>c'. cl_Nop (grpc_client_ops api) c = (None, c') \<and> grpc_ready ok c'"
    by (cases c) (auto simp: grpc_ready_def grpc_client_ops_def grpc_Nop_def grpc_srv_Nop_def)
  fix a b
  from grpc_api_lawsD(2) [OF laws \<open>ok (snd c)\<close>, of "\<lparr>par_A = a, par_B = b\<rparr>"] ready
  show "\<exists>c'. cl_Add (grpc_client_ops api) c a b = (Inr (a + b), c') \<and> grpc_ready ok c'"
    by (cases c) (auto simp: grpc_ready_def grpc_client_ops_def grpc_Add_def grpc_srv_Add_def)
next
  fix c :: "grpcClient \<times> 'a" and m vt and fill :: "TreeNodePb \<Rightarrow> TreeNodePb result"
  assume "grpc_ready ok c" "vwithin N l vt"
    "\<And>t. pb_ok t \<Longrightarrow> \<exists>t'. fill t = Inr t' \<and> pb_ok t' \<and> pb_view t' = vt"
  then show "\<exists>res c'. cl_MultTreeValues (grpc_client_ops api) c m fill = (Inr res, c') \<and> pb_ok res \<and>
      pb_view res = vmult m vt \<and> grpc_ready ok c'"
    using grpc_MultTreeValues_ok [OF laws] by (simp add: grpc_client_ops_def vwithin_def)
next
  fix c :: "grpcClient \<times> 'a" and p q :: "byte list"
  assume ready: "grpc_ready ok c" and len: "length p \<le> M" "length q = 2 * length p"
  then have "ok (snd c)" by (simp add: grpc_ready_def)
  from grpc_api_lawsD(4) [OF laws this len(1)] ready len(2)
  show "\<exists>c'. cl_ToHex (grpc_client_ops api) c p q = (None, hex_encode p, c') \<and> grpc_ready ok c'"
    by (cases c) (auto simp: grpc_ready_def grpc_client_ops_def grpc_ToHex_def grpc_srv_ToHex_def)
qed

section \<open>Properties\<close>

text \<open>The tree shows no nil pointer.\<close>

fun pb_full :: "TreeNodePb \<Rightarrow> bool" where
  "pb_full PbNil \<longleftrightarrow> False"
| "pb_full (PbNode v n cs) \<longleftrightarrow> (\<forall>c \<in> set (take n cs). pb_full c)"

lemma map_result_Inl:
  assumes "\<And>x. x \<in> set xs \<Longrightarrow> if p x then \<exists>y. f x = Inr y else f x = Inl e"
  shows "if \<forall>x \<in> set xs. p x then \<exists>ys. map_result f xs = Inr ys else map_result f xs = Inl e"
  using assms
proof (induction xs)
  case (Cons x xs)
  then have "if \<forall>x \<in> set xs. p x then \<exists>ys. map_result f xs = Inr ys else map_result f xs = Inl e"
    by simp
  with Cons.prems [of x] show ?case by (auto split: if_splits)
qed simp

text \<open>C39: The handler of \<open>MultTree\<close> panics exactly on a request whose tree, or a child in it, is
  missing; nothing in the handler guards against a message without a tree.\<close>

theorem grpc_MultTree_panics:
  "grpc_srv_MultTree \<lparr>pmr_Mult = m, pmr_Tree = t\<rparr> = Inl nil_deref \<longleftrightarrow> \<not> pb_full t"
proof -
  have "if pb_full t then \<exists>t'. multTree m t = Inr t' else multTree m t = Inl nil_deref" for t
  proof (induction t)
    case (PbNode v n cs)
    have "if \<forall>c \<in> set (take n cs). pb_full c then \<exists>ys. map_result (multTree m) (take n cs) = Inr ys
        else map_result (multTree m) (take n cs) = Inl nil_deref"
      using PbNode by (intro map_result_Inl) (auto dest: in_set_takeD)
    then show ?case by (auto split: if_splits)
  qed simp
  from this [of t] show ?thesis by (auto simp: grpc_srv_MultTree_def split: if_splits)
qed

text \<open>C34: The handler multiplies every value of the tree it is sent and keeps its shape.\<close>

theorem grpc_MultTree_refines:
  assumes "pb_ok t"
  shows "\<exists>t'. grpc_srv_MultTree \<lparr>pmr_Mult = m, pmr_Tree = t\<rparr> = Inr \<lparr>pms_Tree = t'\<rparr> \<and> pb_ok t' \<and>
    pb_view t' = vmult m (pb_view t)"
  using multTree_ok [OF assms, of m] by (auto simp: grpc_srv_MultTree_def)

lemma grpc_MultTree_refines_witness:
  "\<exists>t'. grpc_srv_MultTree \<lparr>pmr_Mult = 3, pmr_Tree = PbNode 2 1 [PbNode 5 0 [], PbNil]\<rparr> =
     Inr \<lparr>pms_Tree = t'\<rparr> \<and> pb_view t' = VT 6 [VT 15 []]"
  using grpc_MultTree_refines [of "PbNode 2 1 [PbNode 5 0 [], PbNil]" 3]
  by (auto simp: pb_ok_def)

text \<open>A tree converted to a message and back into a tree of the same layout is the tree it
  was, and the message counts as many nodes as the tree.\<close>

lemma grpc_conversion_round_trip:
  assumes "vlayout (tn_view t2) = vlayout (tn_view t1)"
  shows "(\<exists>t'. grpcToTree (treeToGrpc t1) t2 = Inr t' \<and> tn_view t' = tn_view t1) \<and>
    pb_TotalNodes (treeToGrpc t1) = Inr (tn_TotalNodes t1)"
  using grpcToTree_ok [of "treeToGrpc t1" t2] treeToGrpc_ok [of t1] assms
    pb_TotalNodes_view [of "treeToGrpc t1"] tn_TotalNodes_view [of t1]
  by simp

lemma grpc_conversion_round_trip_witness:
  "\<exists>t'. grpcToTree (treeToGrpc (TreeNodeImpl 5 1 [TreeNodeImpl 7 0 []])) (TreeNodeImpl 0 1 [tn_zero, tn_zero]) =
     Inr t' \<and> tn_view t' = VT 5 [VT 7 []]"
  using grpc_conversion_round_trip [of "TreeNodeImpl 0 1 [tn_zero, tn_zero]" "TreeNodeImpl 5 1 [TreeNodeImpl 7 0 []]"]
  by (simp add: tn_zero_def del: treeToGrpc.simps grpcToTree.simps)

text \<open>\<open>InitChildren\<close> of the adapter makes exactly \<open>n\<close> children, none of them nil, and keeps
  every node that was already allocated.\<close>

lemma pb_InitChildren_exact:
  "\<exists>t'. pb_InitChildren n (PbNode v k cs) = Inr t' \<and> length (vchildren (pb_view t')) = n \<and>
     PbNil \<notin> set (take n (pb_store t')) \<and>
     (\<forall>i < length cs. cs ! i \<noteq> PbNil \<longrightarrow> pb_store t' ! i = cs ! i)"
proof -
  define cs1 where "cs1 = (if n \<le> length cs then cs else cs @ replicate (n - length cs) PbNil)"
  define ys where "ys = map (\<lambda>c. if c = PbNil then pb_new else c) (take n cs1)"
  have len: "n \<le> length cs1" "length ys = n" "length cs \<le> length cs1"
    by (auto simp: cs1_def ys_def)
  have "pb_InitChildren n (PbNode v k cs) = Inr (PbNode v n (ys @ drop n cs1))"
    by (simp add: cs1_def ys_def)
  moreover have "PbNil \<notin> set ys" by (auto simp: ys_def pb_new_def)
  moreover have "(ys @ drop n cs1) ! i = cs ! i" if "i < length cs" "cs ! i \<noteq> PbNil" for i
    using that len by (auto simp: nth_append ys_def cs1_def)
  ultimately show ?thesis using len by auto
qed

lemma pb_InitChildren_exact_witness:
  "\<exists>t'. pb_InitChildren 3 (PbNode 9 1 [PbNode 5 0 [], PbNil]) = Inr t' \<and>
     length (vchildren (pb_view t')) = 3 \<and> pb_store t' ! 0 = PbNode 5 0 []"
  using pb_InitChildren_exact [of 3 9 1 "[PbNode 5 0 [], PbNil]"] by fastforce

end
