(* ===== verification/Capnp.thy ===== *)
theory Capnp
  imports TreeNode
begin

text \<open>
  What the two Cap'n Proto systems share. A message is a set of structs, each with a data
  section (64-bit words) and a pointer section, as in the encoding specification both
  libraries implement. The libraries are not part of the repository: their operations are
  arguments of the models in \<open>GoCapnp\<close> and \<open>MdCapnp\<close>. This theory has the abstract view of
  messages in which the laws of those operations are stated, and the facts about building
  and reading a tree of structs that the proofs of both systems use.
\<close>

section \<open>Structs and pointers\<close>

text \<open>A pointer, over whatever stands for a struct: a handle, an address or a value.\<close>

datatype 'x cptr = CNull | CStruct 'x | CList "'x list" | CData "byte list"

fun elems :: "'x cptr \<Rightarrow> 'x list" where
  "elems (CStruct x) = [x]"
| "elems (CList xs) = xs"
| "elems _ = []"

fun listy :: "'x cptr \<Rightarrow> bool" where
  "listy CNull = True"
| "listy (CList xs) = True"
| "listy _ = False"

abbreviation all_elems :: "'x cptr list \<Rightarrow> 'x list" where
  "all_elems ps \<equiv> concat (map elems ps)"

text \<open>The size of a struct: the words of its data section and its number of pointers.\<close>

type_synonym struct_size = "nat \<times> nat"

text \<open>The structs of all messages, by their address; a value; and a value laid out in memory.\<close>

type_synonym cobj = "int64 list \<times> nat cptr list"

type_synonym cheap = "nat \<Rightarrow> cobj option"

datatype cval = CV "int64 list" "cval cptr list"

datatype aval = AV (root: nat) "int64 list" "aval cptr list"

definition zero_obj :: "struct_size \<Rightarrow> cobj" where
  "zero_obj sz = (replicate (fst sz) 0, replicate (snd sz) CNull)"

lemma elems_map [simp]: "elems (map_cptr f p) = map f (elems p)"
  by (cases p) simp_all

lemma listy_map [simp]: "listy (map_cptr f p) = listy p"
  by (cases p) simp_all

lemma set_elems [simp]: "set (elems p) = set_cptr p"
  by (cases p) simp_all

lemma all_elems_map [simp]: "all_elems (map (map_cptr f) ps) = map f (all_elems ps)"
  by (induction ps) simp_all

lemma concat_map_elems [simp]: "concat (map (\<lambda>p. map f (elems p)) ps) = map f (all_elems ps)"
  by (induction ps) simp_all

lemma size_cptr_elem: "x \<in> set_cptr p \<Longrightarrow> f x < size_cptr f p"
proof (cases p)
  case (CList xs)
  then show "x \<in> set_cptr p \<Longrightarrow> f x < size_cptr f p"
    using size_list_estimation' [of x xs "f x" f] by (simp add: less_Suc_eq_le)
qed simp_all

lemma size_all_elems [termination_simp]:
  "x \<in> set_cptr p \<Longrightarrow> p \<in> set ps \<Longrightarrow> f x < Suc (size_list (size_cptr f) ps)"
proof -
  assume "x \<in> set_cptr p" "p \<in> set ps"
  then have "f x \<le> size_list (size_cptr f) ps"
    by (intro size_list_estimation' [of p]) (simp_all add: size_cptr_elem less_imp_le)
  then show ?thesis by simp
qed

fun cvalue :: "aval \<Rightarrow> cval" where
  "cvalue (AV a d ps) = CV d (map (map_cptr cvalue) ps)"

fun addrs :: "aval \<Rightarrow> nat list" where
  "addrs (AV a d ps) = a # concat (map addrs (all_elems ps))"

fun holds :: "cheap \<Rightarrow> aval \<Rightarrow> bool" where
  "holds H (AV a d ps) \<longleftrightarrow>
     H a = Some (d, map (map_cptr root) ps) \<and> (\<forall>x \<in> set (all_elems ps). holds H x)"

text \<open>The value \<open>v\<close> is stored at \<open>a\<close>, none of its structs reached twice.\<close>

definition stored :: "cheap \<Rightarrow> nat \<Rightarrow> cval \<Rightarrow> bool" where
  "stored H a v \<longleftrightarrow> (\<exists>x. root x = a \<and> cvalue x = v \<and> holds H x \<and> distinct (addrs x))"

text \<open>The number of structs and of bytes of data.\<close>

fun csize :: "cval \<Rightarrow> nat" where
  "csize (CV d ps) =
     Suc (sum_list (map csize (all_elems ps)) +
          sum_list (map (\<lambda>p. case p of CData bs \<Rightarrow> length bs | _ \<Rightarrow> 0) ps))"

section \<open>Trees of structs\<close>

fun tree_cv :: "cval \<Rightarrow> bool" where
  "tree_cv (CV d ps) \<longleftrightarrow> length d = 1 \<and> length ps = 1 \<and> (\<forall>p \<in> set ps. listy p) \<and>
     (\<forall>c \<in> set (all_elems ps). tree_cv c)"

fun vt_of :: "cval \<Rightarrow> vtree" where
  "vt_of (CV d ps) = VT (hd d) (map vt_of (all_elems ps))"

abbreviation avt :: "aval \<Rightarrow> vtree" where
  "avt x \<equiv> vt_of (cvalue x)"

definition tree_in :: "cheap \<Rightarrow> aval \<Rightarrow> bool" where
  "tree_in H x \<longleftrightarrow> tree_cv (cvalue x) \<and> holds H x \<and> distinct (addrs x)"

lemma tree_cvE:
  assumes "tree_cv (cvalue x)"
  obtains a v p where "x = AV a [v] [p]" "listy p" "\<forall>y \<in> set (elems p). tree_cv (cvalue y)"
proof (cases x)
  case (AV a d ps)
  with assms have "length d = 1" "length ps = 1" by simp_all
  then obtain v p where "d = [v]" "ps = [p]" by (auto simp: length_Suc_conv)
  with AV assms show ?thesis by (intro that [of a v p]) auto
qed

lemma root_in_addrs [simp]: "root x \<in> set (addrs x)"
  by (cases x) simp

lemma aval_induct [case_names AV]:
  assumes "\<And>a d ps. (\<And>x. x \<in> set (all_elems ps) \<Longrightarrow> P x) \<Longrightarrow> P (AV a d ps)"
  shows "P x"
proof (induction x)
  case (AV a d ps)
  then show ?case by (intro assms) auto
qed

lemma holds_addrs: "holds H x \<Longrightarrow> set (addrs x) \<subseteq> dom H"
proof (induction x rule: aval_induct)
  case (AV a d ps)
  then have "\<forall>x \<in> set (all_elems ps). set (addrs x) \<subseteq> dom H" "a \<in> dom H" by auto
  then show ?case by auto
qed

lemma holds_cong: "(\<And>a. a \<in> set (addrs x) \<Longrightarrow> H' a = H a) \<Longrightarrow> holds H' x = holds H x"
proof (induction x rule: aval_induct)
  case (AV a d ps)
  have "holds H' y = holds H y" if "y \<in> set (all_elems ps)" for y
    using that AV.prems by (intro AV.IH) auto
  moreover have "H' a = H a" using AV.prems by simp
  ultimately show ?case by simp
qed

lemma stored_cong:
  assumes "stored H a v" "\<And>b. b \<in> dom H \<Longrightarrow> H' b = H b"
  shows "stored H' a v"
proof -
  obtain x where x: "root x = a" "cvalue x = v" "holds H x" "distinct (addrs x)"
    using assms(1) by (auto simp: stored_def)
  have "holds H' x = holds H x"
    using holds_addrs [OF x(3)] assms(2) by (intro holds_cong) auto
  with x show ?thesis unfolding stored_def by blast
qed

lemma csize_tree: "tree_cv c \<Longrightarrow> csize c = vnodes (vt_of c)"
proof (induction c)
  case (CV d ps)
  then obtain v p where eq: "d = [v]" "ps = [p]" "listy p" by (auto simp: length_Suc_conv)
  have "sum_list (map csize (elems p)) = sum_list (map (vnodes \<circ> vt_of) (elems p))"
    using CV eq by (intro arg_cong [of _ _ sum_list] map_cong) auto
  moreover have "(case p of CData bs \<Rightarrow> length bs | _ \<Rightarrow> 0) = 0"
    using eq(3) by (cases p) simp_all
  ultimately show ?case by (simp add: eq o_def)
qed

lemma length_le_vnodes: "length xs \<le> sum_list (map (\<lambda>x. vnodes (f x)) xs)"
proof (induction xs)
  case (Cons x xs)
  then show ?case by (cases "f x") simp
qed simp

section \<open>The state of a library\<close>

text \<open>
  The abstract state in which the laws of the two libraries are stated: the structs, the
  root of the results each call of the server has allocated, and whether the connection
  between the client and the server is up.
\<close>

record 'c world =
  w_heap :: cheap
  w_results :: "'c \<Rightarrow> nat option"
  w_up :: bool

section \<open>Building a tree in place\<close>

text \<open>
  From \<open>H\<close> to \<open>H'\<close> the struct at \<open>b\<close> became the root of a tree that shows \<open>vt\<close>, made of new
  structs, and nothing else changed.
\<close>

definition built :: "cheap \<Rightarrow> nat \<Rightarrow> vtree \<Rightarrow> cheap \<Rightarrow> bool" where
  "built H b vt H' \<longleftrightarrow>
     (\<forall>a \<in> dom H - {b}. H' a = H a) \<and> dom H \<subseteq> dom H' \<and>
     (\<exists>y. root y = b \<and> avt y = vt \<and> tree_in H' y \<and> set (addrs y) \<subseteq> insert b (- dom H))"

text \<open>The same for the first \<open>i\<close> of the structs \<open>as\<close>, the children of a node.\<close>

definition built_upto :: "cheap \<Rightarrow> nat list \<Rightarrow> vtree list \<Rightarrow> nat \<Rightarrow> cheap \<Rightarrow> bool" where
  "built_upto H as ts i H' \<longleftrightarrow>
     (\<forall>a \<in> dom H - set (take i as). H' a = H a) \<and> dom H \<subseteq> dom H' \<and>
     (\<exists>ys. map root ys = take i as \<and> map avt ys = take i ts \<and>
        (\<forall>y \<in> set ys. tree_cv (cvalue y) \<and> holds H' y) \<and> distinct (concat (map addrs ys)) \<and>
        set (concat (map addrs ys)) \<subseteq> set (take i as) \<union> - dom H)"

lemma built_upto_0: "built_upto H as ts 0 H"
  by (simp add: built_upto_def)


lemma built_upto_step:
  assumes U: "built_upto H as ts i H1" and B: "built H1 (as ! i) (ts ! i) H2"
    and i: "i < length as" "length ts = length as" and as: "distinct as" "set as \<subseteq> dom H"
  shows "built_upto H as ts (Suc i) H2"
proof -
  obtain ys where ys: "map root ys = take i as" "map avt ys = take i ts"
      "\<forall>y \<in> set ys. tree_cv (cvalue y) \<and> holds H1 y" "distinct (concat (map addrs ys))"
      "set (concat (map addrs ys)) \<subseteq> set (take i as) \<union> - dom H"
    and fr: "\<forall>a \<in> dom H - set (take i as). H1 a = H a" "dom H \<subseteq> dom H1"
    using U unfolding built_upto_def by blast
  obtain y where y: "root y = as ! i" "avt y = ts ! i" "tree_in H2 y"
      "set (addrs y) \<subseteq> insert (as ! i) (- dom H1)"
    and fr2: "\<forall>a \<in> dom H1 - {as ! i}. H2 a = H1 a" "dom H1 \<subseteq> dom H2"
    using B unfolding built_def by blast
  have "as ! i \<in> dom H"
    using as(2) nth_mem [OF i(1)] by blast
  moreover have "as ! i \<notin> set (take i as)"
    using as(1) i by (auto simp: in_set_conv_nth distinct_conv_nth)
  ultimately have new: "as ! i \<notin> set (take i as)" "as ! i \<in> dom H" by simp_all
  have old: "set (concat (map addrs ys)) \<subseteq> dom H1"
    using ys(3) holds_addrs by fastforce
  then have out: "set (concat (map addrs ys)) \<subseteq> dom H1 - {as ! i}"
    using ys(5) new by auto
  have "holds H2 z" if "z \<in> set ys" for z
  proof -
    have "set (addrs z) \<subseteq> dom H1 - {as ! i}" using out that by auto
    then have "holds H2 z = holds H1 z" using fr2(1) by (intro holds_cong) auto
    with ys(3) that show ?thesis by simp
  qed
  moreover have "set (concat (map addrs ys)) \<inter> set (addrs y) = {}"
    using y(4) out by blast
  then have "distinct (concat (map addrs (ys @ [y])))"
    using ys(4) y(3) by (simp add: tree_in_def del: set_concat)
  moreover have "set (concat (map addrs (ys @ [y]))) \<subseteq> set (take (Suc i) as) \<union> - dom H"
  proof -
    have "set (addrs y) \<subseteq> insert (as ! i) (- dom H)" using y(4) fr(2) by blast
    then show ?thesis
      using ys(5) i by (simp add: take_Suc_conv_app_nth) blast
  qed
  moreover have "H2 a = H a" if a: "a \<in> dom H - set (take (Suc i) as)" for a
  proof -
    have "a \<in> dom H - set (take i as)" "a \<noteq> as ! i"
      using a i by (simp_all add: take_Suc_conv_app_nth)
    then have "H1 a = H a" "a \<in> dom H1 - {as ! i}" using fr by blast+
    then show ?thesis using fr2(1) by simp
  qed
  moreover have "map root (ys @ [y]) = take (Suc i) as" "map avt (ys @ [y]) = take (Suc i) ts"
    using ys(1,2) y(1,2) i by (simp_all add: take_Suc_conv_app_nth)
  ultimately show ?thesis
    using ys(3) y(3) fr fr2 unfolding built_upto_def tree_in_def
    by (intro conjI exI [of _ "ys @ [y]"]) auto
qed

text \<open>
  Setting the value and a new list of children, then building every child, builds the node.
\<close>

definition new_children :: "cheap \<Rightarrow> nat \<Rightarrow> int64 \<Rightarrow> nat list \<Rightarrow> cheap" where
  "new_children H b v as =
     (\<lambda>a. if a = b then Some ([v], [CList as]) else if a \<in> set as then Some ([0], [CNull]) else H a)"

lemma new_children_upd [simp]: "new_children (H(b \<mapsto> ob)) b v as = new_children H b v as"
  by (auto simp: new_children_def)

text \<open>While the children are built, the node, its unbuilt children and the rest stay as they were.\<close>

lemma built_upto_new:
  assumes U: "built_upto (new_children H b v as) as ts i H'"
    and "b \<in> dom H" "set as \<inter> dom H = {}" "distinct as"
  shows "H' b = Some ([v], [CList as])"
    and "i < length as \<Longrightarrow> H' (as ! i) = Some ([0], [CNull])"
    and "a \<in> dom H \<Longrightarrow> a \<noteq> b \<Longrightarrow> H' a = H a"
proof -
  let ?H1 = "new_children H b v as"
  have fr: "H' a = ?H1 a" if "?H1 a \<noteq> None" "a \<notin> set (take i as)" for a
    using U that unfolding built_upto_def by blast
  have sub: "set (take i as) \<subseteq> set as" by (rule set_take_subset)
  have "b \<notin> set as" using assms(2,3) by blast
  then show "H' b = Some ([v], [CList as])"
    using fr [of b] sub by (auto simp: new_children_def)
  show "H' (as ! i) = Some ([0], [CNull])" if i: "i < length as"
  proof -
    have "as ! i \<noteq> b" "as ! i \<in> set as" using i \<open>b \<notin> set as\<close> by (metis nth_mem, simp)
    moreover have "as ! i \<notin> set (take i as)"
      using assms(4) i by (auto simp: in_set_conv_nth distinct_conv_nth)
    ultimately show ?thesis using fr [of "as ! i"] by (simp add: new_children_def)
  qed
  show "H' a = H a" if "a \<in> dom H" "a \<noteq> b"
  proof -
    have "a \<notin> set as" using that(1) assms(3) by blast
    then show ?thesis using fr [of a] sub that by (auto simp: new_children_def)
  qed
qed

text \<open>A tree that was there before is still there, apart from the children being built.\<close>

lemma built_upto_source:
  assumes U: "built_upto (new_children H b v as) as ts i H'"
    and as: "b \<in> dom H" "set as \<inter> dom H = {}" "distinct as"
    and y: "holds H y" "b \<notin> set (addrs y)"
  shows "holds H' y" and "i < length as \<Longrightarrow> as ! i \<notin> set (addrs y)"
proof -
  have dom: "set (addrs y) \<subseteq> dom H" using y(1) by (rule holds_addrs)
  have "holds H' y = holds H y"
    using built_upto_new(3) [OF U as] dom y(2) by (intro holds_cong) blast
  with y show "holds H' y" by simp
  show "as ! i \<notin> set (addrs y)" if "i < length as"
    using dom as(2) nth_mem [OF that] by blast
qed

lemma built_node:
  assumes b: "b \<in> dom H" and as: "distinct as" "set as \<inter> dom H = {}" "length ts = length as"
    and U: "built_upto (new_children H b v as) as ts (length as) H'"
  shows "built H b (VT v ts) H'"
proof -
  let ?H1 = "new_children H b v as"
  have nb: "b \<notin> set as" using b as by auto
  have dom1: "dom ?H1 = dom H \<union> set as"
    using b by (auto simp: new_children_def split: if_splits)
  obtain ys where ys: "map root ys = as" "map avt ys = ts"
      "\<forall>y \<in> set ys. tree_cv (cvalue y) \<and> holds H' y" "distinct (concat (map addrs ys))"
      "set (concat (map addrs ys)) \<subseteq> set as \<union> - dom ?H1"
    and fr: "\<forall>a \<in> dom ?H1 - set as. H' a = ?H1 a" "dom ?H1 \<subseteq> dom H'"
    using U as(3) unfolding built_upto_def by auto
  let ?y = "AV b [v] [CList ys]"
  have "b \<in> dom ?H1 - set as" using dom1 b nb by blast
  then have "H' b = ?H1 b" using fr(1) by blast
  then have "H' b = Some ([v], [CList as])" by (simp add: new_children_def)
  then have "tree_in H' ?y"
    using ys(1,3,4,5) nb b dom1 by (auto simp: tree_in_def)
  moreover have "set (addrs ?y) \<subseteq> insert b (- dom H)"
    using ys(5) dom1 as(2) by auto
  moreover have "avt ?y = VT v ts"
    using ys(2) by (simp add: o_def)
  moreover have "H' a = H a" if "a \<in> dom H - {b}" for a
  proof -
    have "a \<in> dom ?H1 - set as" "a \<noteq> b" "a \<notin> set as" using that as(2) dom1 by blast+
    with fr(1) have "H' a = ?H1 a" by blast
    then show ?thesis using \<open>a \<noteq> b\<close> \<open>a \<notin> set as\<close> by (simp add: new_children_def)
  qed
  ultimately show ?thesis
    using fr(2) dom1 unfolding built_def by (intro conjI exI [of _ ?y]) auto
qed


text \<open>The two loops that build the children, over a state with the heap \<open>H'\<close> when \<open>R s H'\<close>.\<close>

lemma built_upto_loop:
  assumes b: "b \<in> dom H" and as: "distinct as" "set as \<inter> dom H = {}" "length ts = length as"
    and step: "\<And>i s H'. i < length as \<Longrightarrow> R s H' \<Longrightarrow> built_upto (new_children H b v as) as ts i H' \<Longrightarrow>
      \<exists>s' H''. F i s = G s' \<and> R s' H'' \<and> built H' (as ! i) (ts ! i) H''"
    and i: "i < length as" and I: "\<exists>H'. R s H' \<and> built_upto (new_children H b v as) as ts i H'"
  shows "\<exists>s'. F i s = G s' \<and> (\<exists>H'. R s' H' \<and> built_upto (new_children H b v as) as ts (Suc i) H')"
proof -
  obtain H' where H': "R s H'" "built_upto (new_children H b v as) as ts i H'" using I by blast
  obtain s' H'' where s': "F i s = G s'" "R s' H''" "built H' (as ! i) (ts ! i) H''"
    using step [OF i H'] by blast
  have "set as \<subseteq> dom (new_children H b v as)" by (auto simp: new_children_def)
  with built_upto_step [OF H'(2) s'(3) i as(3,1)] s'(1,2) show ?thesis by blast
qed

lemma run_opt_built:
  assumes b: "b \<in> dom H" and as: "distinct as" "set as \<inter> dom H = {}" "length ts = length as"
    and step: "\<And>i s H'. i < length as \<Longrightarrow> R s H' \<Longrightarrow> built_upto (new_children H b v as) as ts i H' \<Longrightarrow>
      (\<exists>s' H''. F i s = Some (None, s') \<and> R s' H'' \<and> built H' (as ! i) (ts ! i) H'' \<and> Q i) \<or>
      (\<exists>e s'. F i s = Some (Some e, s') \<and> E)"
    and start: "R s0 (new_children H b v as)"
  shows "(\<exists>s H'. run_opt F [0..<length as] s0 = Some (None, s) \<and> R s H' \<and> built H b (VT v ts) H' \<and>
      (\<forall>i < length as. Q i)) \<or>
    (\<exists>e s. run_opt F [0..<length as] s0 = Some (Some e, s) \<and> E)"
proof -
  let ?I = "\<lambda>i s. (\<exists>H'. R s H' \<and> built_upto (new_children H b v as) as ts i H') \<and> (\<forall>j < i. Q j)"
  have sub: "set as \<subseteq> dom (new_children H b v as)" by (auto simp: new_children_def)
  have "(\<exists>s'. F i s = Some (None, s') \<and> ?I (Suc i) s') \<or> (\<exists>e s'. F i s = Some (Some e, s') \<and> E)"
    if i: "i < length as" and I: "?I i s" for i s
  proof -
    obtain H' where H': "R s H'" "built_upto (new_children H b v as) as ts i H'" using I by blast
    from step [OF i H'] show ?thesis
    proof (elim disjE exE conjE)
      fix s' H'' assume s': "F i s = Some (None, s')" "R s' H''" "built H' (as ! i) (ts ! i) H''" "Q i"
      then show ?thesis
        using built_upto_step [OF H'(2) s'(3) i as(3,1) sub] I by (auto simp: less_Suc_eq)
    qed blast
  qed
  moreover have "?I 0 s0" using start built_upto_0 by blast
  ultimately have "(\<exists>s. run_opt F [0..<length as] s0 = Some (None, s) \<and> ?I (length as) s) \<or>
      (\<exists>e s. run_opt F [0..<length as] s0 = Some (Some e, s) \<and> E)"
    by (intro run_opt_upt_either) simp_all
  with built_node [OF b as] show ?thesis by blast
qed

lemma fold_result_built:
  assumes b: "b \<in> dom H" and as: "distinct as" "set as \<inter> dom H = {}" "length ts = length as"
    and step: "\<And>i s H'. i < length as \<Longrightarrow> R s H' \<Longrightarrow> built_upto (new_children H b v as) as ts i H' \<Longrightarrow>
      \<exists>s' H''. F i s = Inr s' \<and> R s' H'' \<and> built H' (as ! i) (ts ! i) H''"
    and start: "R s0 (new_children H b v as)"
  shows "\<exists>s H'. fold_result F [0..<length as] s0 = Inr s \<and> R s H' \<and> built H b (VT v ts) H'"
proof -
  let ?I = "\<lambda>i s. \<exists>H'. R s H' \<and> built_upto (new_children H b v as) as ts i H'"
  note loop = built_upto_loop [where R = R and F = F and G = Inr, OF b as step]
  have "?I 0 s0" using start built_upto_0 by blast
  then obtain s where "fold_result F [0..<length as] s0 = Inr s" "?I (length as) s"
    using fold_result_upt_inv [where I = ?I and f = F and n = "length as" and m = 0 and s = s0, OF loop] by blast
  with built_node [OF b as] show ?thesis by blast
qed

text \<open>
  Building the children as images \<open>g y\<close> of the children \<open>xs\<close> of a tree that is read: \<open>sa\<close> and
  \<open>ta\<close> are the addresses of the handles of the source and of the target. Where \<open>E\<close> allows it,
  copying a child may end in an error; \<open>Q\<close> holds of the children that were copied.
\<close>

lemma copy_children_either:
  fixes wld :: "'m \<Rightarrow> ('c, 'z) world_scheme"
  assumes b: "b \<in> dom H"
    and ts: "distinct (map ta ts)" "set (map ta ts) \<inter> dom H = {}" "length ts = length hs"
    and hs: "map sa hs = map root xs"
    and xs: "\<forall>y \<in> set xs. holds H y \<and> b \<notin> set (addrs y)"
    and copy: "\<And>y h t s. y \<in> set xs \<Longrightarrow> h \<in> set hs \<Longrightarrow> root y = sa h \<Longrightarrow> holds (w_heap (wld s)) y \<Longrightarrow>
      w_heap (wld s) (ta t) = Some ([0], [CNull]) \<Longrightarrow> ta t \<notin> set (addrs y) \<Longrightarrow>
      (\<exists>s' H'. f h t s = Some (None, s') \<and> wld s' = (wld s)\<lparr>w_heap := H'\<rparr> \<and>
        built (w_heap (wld s)) (ta t) (g y) H' \<and> Q y) \<or>
      (\<exists>e s'. f h t s = Some (Some e, s') \<and> E)"
    and body: "\<And>i s. i < length hs \<Longrightarrow> F i s = f (hs ! i) (ts ! i) s"
    and start: "wld s0 = W\<lparr>w_heap := new_children H b v (map ta ts)\<rparr>"
  shows "(\<exists>s H'. run_opt F [0..<length hs] s0 = Some (None, s) \<and> wld s = W\<lparr>w_heap := H'\<rparr> \<and>
      built H b (VT v (map g xs)) H' \<and> (\<forall>y \<in> set xs. Q y)) \<or>
    (\<exists>e s. run_opt F [0..<length hs] s0 = Some (Some e, s) \<and> E)"
proof -
  let ?as = "map ta ts" and ?vs = "map g xs" and ?R = "\<lambda>s H'. wld s = W\<lparr>w_heap := H'\<rparr>"
  let ?Q = "\<lambda>i. Q (xs ! i)"
  have n: "length hs = length xs" using hs by (metis length_map)
  have len: "length ?vs = length ?as" "length ?as = length hs" using n ts(3) by simp_all
  have step: "(\<exists>s' H''. F i s = Some (None, s') \<and> ?R s' H'' \<and> built H' (?as ! i) (?vs ! i) H'' \<and> ?Q i) \<or>
      (\<exists>e s'. F i s = Some (Some e, s') \<and> E)"
    if i: "i < length ?as" and R: "?R s H'" and U: "built_upto (new_children H b v ?as) ?as ?vs i H'" for i s H'
  proof -
    note new = built_upto_new [OF U b ts(2,1)]
    have i': "i < length hs" "i < length xs" using i ts(3) n by simp_all
    let ?y = "xs ! i"
    have y: "?y \<in> set xs" "hs ! i \<in> set hs" using i' by simp_all
    have "holds H' ?y" "ta (ts ! i) \<notin> set (addrs ?y)"
      using built_upto_source [OF U b ts(2,1), of ?y] xs y(1) i by auto
    moreover have "root ?y = sa (hs ! i)" using hs i' by (metis nth_map)
    moreover have "H' (ta (ts ! i)) = Some ([0], [CNull])" using new(2) i by simp
    ultimately have "(\<exists>s' H''. f (hs ! i) (ts ! i) s = Some (None, s') \<and>
          wld s' = (wld s)\<lparr>w_heap := H''\<rparr> \<and> built H' (ta (ts ! i)) (g ?y) H'' \<and> Q ?y) \<or>
        (\<exists>e s'. f (hs ! i) (ts ! i) s = Some (Some e, s') \<and> E)"
      using copy [OF y, of s "ts ! i"] R by simp
    with body [OF i'(1)] R i i' show ?thesis by auto
  qed
  have "(\<forall>i < length ?as. ?Q i) \<longleftrightarrow> (\<forall>y \<in> set xs. Q y)"
    using len(2) n by (simp add: all_set_conv_all_nth)
  then show ?thesis
    using run_opt_built [where R = ?R and F = F and ?s0.0 = s0 and Q = ?Q and E = E,
        OF b ts(1,2) len(1) step start] len(2) by simp
qed

lemma copy_children:
  fixes wld :: "'m \<Rightarrow> ('c, 'z) world_scheme"
  assumes "b \<in> dom H" "distinct (map ta ts)" "set (map ta ts) \<inter> dom H = {}" "length ts = length hs"
    and "map sa hs = map root xs" "\<forall>y \<in> set xs. holds H y \<and> b \<notin> set (addrs y)"
    and "\<And>y h t s. y \<in> set xs \<Longrightarrow> h \<in> set hs \<Longrightarrow> root y = sa h \<Longrightarrow> holds (w_heap (wld s)) y \<Longrightarrow>
      w_heap (wld s) (ta t) = Some ([0], [CNull]) \<Longrightarrow> ta t \<notin> set (addrs y) \<Longrightarrow>
      \<exists>s' H'. f h t s = Some (None, s') \<and> wld s' = (wld s)\<lparr>w_heap := H'\<rparr> \<and>
        built (w_heap (wld s)) (ta t) (g y) H'"
    and "\<And>i s. i < length hs \<Longrightarrow> F i s = f (hs ! i) (ts ! i) s"
    and "wld s0 = W\<lparr>w_heap := new_children H b v (map ta ts)\<rparr>"
  shows "\<exists>s H'. run_opt F [0..<length hs] s0 = Some (None, s) \<and> wld s = W\<lparr>w_heap := H'\<rparr> \<and>
    built H b (VT v (map g xs)) H'"
proof -
  have copy: "(\<exists>s' H'. f h t s = Some (None, s') \<and> wld s' = (wld s)\<lparr>w_heap := H'\<rparr> \<and>
        built (w_heap (wld s)) (ta t) (g y) H' \<and> True) \<or> (\<exists>e s'. f h t s = Some (Some e, s') \<and> False)"
    if "y \<in> set xs" "h \<in> set hs" "root y = sa h" "holds (w_heap (wld s)) y"
      "w_heap (wld s) (ta t) = Some ([0], [CNull])" "ta t \<notin> set (addrs y)" for y h t s
    using assms(7) [OF that] by blast
  note either = copy_children_either [where b = b and H = H and ta = ta and ts = ts and hs = hs and sa = sa
      and xs = xs and wld = wld and f = f and g = g and Q = "\<lambda>y. True" and E = False and F = F and ?s0.0 = s0
      and W = W and v = v]
  have "(\<exists>s H'. run_opt F [0..<length hs] s0 = Some (None, s) \<and> wld s = W\<lparr>w_heap := H'\<rparr> \<and>
      built H b (VT v (map g xs)) H' \<and> (\<forall>y \<in> set xs. True)) \<or>
    (\<exists>e s. run_opt F [0..<length hs] s0 = Some (Some e, s) \<and> False)"
    by (rule either) (fact assms(1-6,9) | rule assms(8) copy, assumption+)+
  then show ?thesis by blast
qed

section \<open>Multiplying a tree in place, and reading it\<close>

lemma vlow_vmult: "vlow k (vmult m t) = vlow k t"
  by (induction k t rule: vlow.induct) auto

lemma vnodes_vmult: "vnodes (vmult m t) = vnodes t"
proof (induction t)
  case (VT v cs)
  then have "sum_list (map (vnodes \<circ> vmult m) cs) = sum_list (map vnodes cs)"
    by (intro arg_cong [of _ _ sum_list] map_cong) auto
  then show ?case by simp
qed

fun amult :: "int64 \<Rightarrow> aval \<Rightarrow> aval" where
  "amult m (AV a d ps) = AV a (map (\<lambda>v. v * m) d) (map (map_cptr (amult m)) ps)"

lemma root_amult [simp]: "root (amult m x) = root x"
  by (cases x) simp

lemma addrs_amult [simp]: "addrs (amult m x) = addrs x"
proof (induction x rule: aval_induct)
  case (AV a d ps)
  then have "map (addrs \<circ> amult m) (all_elems ps) = map addrs (all_elems ps)"
    by (intro map_cong) auto
  then show ?case by (simp del: map_map add: map_map [symmetric])
qed

lemma tree_amult:
  "tree_cv (cvalue x) \<Longrightarrow> tree_cv (cvalue (amult m x)) \<and> avt (amult m x) = vmult m (avt x)"
proof (induction x rule: aval_induct)
  case (AV a d ps)
  then obtain v p where eq: "d = [v]" "ps = [p]" by (auto simp: length_Suc_conv)
  have "\<forall>y \<in> set (elems p). tree_cv (cvalue (amult m y)) \<and> avt (amult m y) = vmult m (avt y)"
    using AV eq by auto
  then show ?case
    using AV.prems eq by (auto simp: o_def)
qed

text \<open>What a reader that follows pointers at most \<open>n\<close> deep finds at \<open>a\<close>.\<close>

fun read_vt :: "nat \<Rightarrow> cheap \<Rightarrow> nat \<Rightarrow> vtree" where
  "read_vt 0 H a = VT 0 []"
| "read_vt (Suc n) H a =
     (case H a of
        None \<Rightarrow> VT 0 []
      | Some (d, ps) \<Rightarrow> VT (hd d) (map (read_vt n H) (all_elems ps)))"

lemma read_vt_tree:
  "holds H x \<Longrightarrow> vlow k (avt x) \<Longrightarrow> k < n \<Longrightarrow> read_vt n H (root x) = avt x"
proof (induction x arbitrary: k n rule: aval_induct)
  case (AV a d ps)
  obtain n' where n: "n = Suc n'" using AV.prems(3) by (cases n) simp_all
  have "read_vt n' H (root y) = avt y" if y: "y \<in> set (all_elems ps)" for y
  proof (cases k)
    case 0
    with AV.prems(2) y show ?thesis by auto
  next
    case (Suc k')
    then have "vlow k' (avt y)" using AV.prems(2) y by auto
    then show ?thesis
      using AV.IH [OF y, of k' n'] AV.prems(1,3) y Suc n by auto
  qed
  then have "map (\<lambda>y. read_vt n' H (root y)) (all_elems ps) = map (\<lambda>y. avt y) (all_elems ps)"
    by (intro map_cong) auto
  then show ?case
    using AV.prems(1) n by (simp add: o_def)
qed

lemma avt_AV: "avt (AV a d ps) = VT (hd d) (map avt (all_elems ps))"
  by (simp add: o_def)

lemma tree_children_small:
  assumes "vnodes (avt (AV a d ps)) < n"
  shows "length (all_elems ps) < n" and "y \<in> set (all_elems ps) \<Longrightarrow> vnodes (avt y) < n"
proof -
  have sum: "sum_list (map (\<lambda>y. vnodes (avt y)) (all_elems ps)) < n"
    using assms unfolding avt_AV vnodes.simps map_map o_def by linarith
  then show "length (all_elems ps) < n"
    using length_le_vnodes [of "all_elems ps" "\<lambda>y. avt y"] by linarith
  show "vnodes (avt y) < n" if "y \<in> set (all_elems ps)"
    using sum member_le_sum_list [of "vnodes (avt y)" "map (\<lambda>y. vnodes (avt y)) (all_elems ps)"] that
    by force
qed

lemma tn_children_small:
  assumes "vnodes (tn_view (TreeNodeImpl v n cs)) < N"
  shows "length (take n cs) < N" "c \<in> set (take n cs) \<Longrightarrow> vnodes (tn_view c) < N"
proof -
  have sum: "sum_list (map (\<lambda>c. vnodes (tn_view c)) (take n cs)) < N"
    using assms by (simp add: o_def)
  then show "length (take n cs) < N"
    using length_le_vnodes [of "take n cs" tn_view] by linarith
  show "vnodes (tn_view c) < N" if "c \<in> set (take n cs)"
    using sum member_le_sum_list [of "vnodes (tn_view c)" "map (\<lambda>c. vnodes (tn_view c)) (take n cs)"] that
    by force
qed

lemma vlow_child:
  assumes "vlow k (avt (AV a d ps))" "y \<in> set (all_elems ps)"
  shows "\<exists>k'. k = Suc k' \<and> vlow k' (avt y)"
proof (cases k)
  case 0
  then have "all_elems ps = []" using assms(1) by (simp only: avt_AV vlow.simps list.map_disc_iff)
  with assms(2) show ?thesis by (simp only: list.set empty_iff)
next
  case (Suc k')
  with assms show ?thesis by auto
qed

section \<open>Messages of the interface\<close>

lemma stored_flat: "stored H a (CV d []) \<longleftrightarrow> H a = Some (d, [])"
proof
  assume "stored H a (CV d [])"
  then obtain x where "root x = a" "cvalue x = CV d []" "holds H x" by (auto simp: stored_def)
  then show "H a = Some (d, [])" by (cases x) auto
qed (auto simp: stored_def intro!: exI [of _ "AV a d []"])

lemma stored_data: "stored H a (CV d [CData bs]) \<longleftrightarrow> H a = Some (d, [CData bs])"
proof
  assume "stored H a (CV d [CData bs])"
  then obtain x where x: "root x = a" "cvalue x = CV d [CData bs]" "holds H x" by (auto simp: stored_def)
  then obtain p where "x = AV a d [p]" "map_cptr cvalue p = CData bs"
    by (cases x) auto
  with x(3) show "H a = Some (d, [CData bs])" by (cases p) auto
qed (auto simp: stored_def intro!: exI [of _ "AV a d [CData bs]"])

lemma stored_struct: "stored H a (CV d [CStruct t]) \<longleftrightarrow>
  (\<exists>x. cvalue x = t \<and> H a = Some (d, [CStruct (root x)]) \<and> holds H x \<and> distinct (addrs x) \<and>
     a \<notin> set (addrs x))"
proof
  assume "stored H a (CV d [CStruct t])"
  then obtain y where y: "root y = a" "cvalue y = CV d [CStruct t]" "holds H y" "distinct (addrs y)"
    by (auto simp: stored_def)
  then obtain p where p: "y = AV a d [p]" "map_cptr cvalue p = CStruct t"
    by (cases y) auto
  then obtain x where "p = CStruct x" "cvalue x = t" by (cases p) auto
  with p y(3,4) show "\<exists>x. cvalue x = t \<and> H a = Some (d, [CStruct (root x)]) \<and> holds H x \<and>
      distinct (addrs x) \<and> a \<notin> set (addrs x)"
    by (intro exI [of _ x]) simp
next
  assume "\<exists>x. cvalue x = t \<and> H a = Some (d, [CStruct (root x)]) \<and> holds H x \<and> distinct (addrs x) \<and>
     a \<notin> set (addrs x)"
  then obtain x where "cvalue x = t" "H a = Some (d, [CStruct (root x)])" "holds H x" "distinct (addrs x)"
    "a \<notin> set (addrs x)" by blast
  then show "stored H a (CV d [CStruct t])"
    unfolding stored_def by (intro exI [of _ "AV a d [CStruct x]"]) simp
qed

text \<open>A tree built below a struct that points to its root.\<close>

lemma built_below:
  assumes "built H b vt H'" "H a = Some (d, [CStruct b])" "a \<noteq> b"
  shows "\<exists>t. stored H' a (CV d [CStruct t]) \<and> tree_cv t \<and> vt_of t = vt"
proof -
  obtain y where y: "root y = b" "avt y = vt" "tree_in H' y" "set (addrs y) \<subseteq> insert b (- dom H)"
    and fr: "\<forall>a \<in> dom H - {b}. H' a = H a"
    using assms(1) unfolding built_def by blast
  have "H' a = Some (d, [CStruct b])" "a \<notin> set (addrs y)"
    using fr assms(2,3) y(4) by (auto simp: domI)
  with y(1,3) have "stored H' a (CV d [CStruct (cvalue y)])"
    unfolding stored_struct by (intro exI [of _ y]) (simp add: tree_in_def)
  with y(2,3) show ?thesis by (auto simp: tree_in_def)
qed

end
