(* ===== verification/GoCapnp.thy ===== *)
theory GoCapnp
  imports Benches Capnp
begin

text \<open>
  \<open>internal/rpc/gocapnp\<close>: the go-capnp system. This theory has the generated accessors of
  \<open>structdef.capnp.go\<close> the system uses, the tree functions and the adapter of
  \<open>gocapnp_helpers.go\<close>, the handlers of \<open>gocapnp_server.go\<close> and the client of
  \<open>gocapnp_client.go\<close>. The library \<open>capnproto.org/go/capnp\<close> is not part of the repository:
  its operations on messages are the argument \<open>mem\<close>, those on a connection the argument
  \<open>conn\<close>, and what the code relies on is stated by the locales \<open>capnp_memory\<close> and
  \<open>capnp_connection\<close>.
\<close>

section \<open>The library\<close>

text \<open>
  The operations on messages, over the state \<open>'m\<close> of all messages of the process, a handle
  \<open>'h\<close> for a \<open>capnp.Struct\<close> and a \<open>'c\<close> for a \<open>*server.Call\<close>. A list of structs is the list of
  its elements' handles. \<open>SetUint64\<close> panics outside of the data section; \<open>cm_Ptr\<close> is
  \<open>Struct.Ptr\<close>, and \<open>cm_zero\<close> the handle \<open>Struct{}\<close> a null pointer gives. A data section is
  addressed by bytes and an \<open>ObjectSize\<close> gives its bytes and the number of pointers.
\<close>

record ('m, 'h, 'c) capnp_mem =
  cm_zero :: 'h
  cm_Uint64 :: "'m \<Rightarrow> 'h \<Rightarrow> nat \<Rightarrow> int64"
  cm_SetUint64 :: "'h \<Rightarrow> nat \<Rightarrow> int64 \<Rightarrow> 'm \<Rightarrow> 'm result"
  cm_Ptr :: "'m \<Rightarrow> 'h \<Rightarrow> nat \<Rightarrow> 'h cptr result"
  cm_SetPtr :: "'h \<Rightarrow> nat \<Rightarrow> 'h cptr \<Rightarrow> 'm \<Rightarrow> go_error option \<times> 'm"
  cm_SetData :: "'h \<Rightarrow> nat \<Rightarrow> byte list \<Rightarrow> 'm \<Rightarrow> go_error option \<times> 'm"
  cm_NewStruct :: "'h \<Rightarrow> struct_size \<Rightarrow> 'm \<Rightarrow> 'h result \<times> 'm"
  cm_NewCompositeList :: "'h \<Rightarrow> struct_size \<Rightarrow> 32 word \<Rightarrow> 'm \<Rightarrow> 'h list result \<times> 'm"
  cm_Args :: "'c \<Rightarrow> 'h"
  cm_AllocResults :: "'c \<Rightarrow> struct_size \<Rightarrow> 'm \<Rightarrow> 'h result \<times> 'm"

text \<open>
  A \<open>capnp.Method\<close> by its two numbers. \<open>SendCall\<close> takes the method and, unless there are no
  arguments, their size and the function that places them, and returns a future; \<open>cc_Ptr\<close>
  waits for its result. \<open>cc_Done\<close> is the \<open>select\<close> on the future and the context: an error
  when the context ends first.
\<close>

record capnp_method =
  md_Interface :: "64 word"
  md_Method :: "16 word"

record ('m, 'h, 'f) capnp_conn =
  cc_SendCall :: "capnp_method \<Rightarrow> (struct_size \<times> ('h \<Rightarrow> 'm \<Rightarrow> 'm result)) option \<Rightarrow> 'm \<Rightarrow> 'f \<times> 'm"
  cc_Ptr :: "'f \<Rightarrow> 'm \<Rightarrow> 'h cptr result \<times> 'm"
  cc_Done :: "'f \<Rightarrow> 'm \<Rightarrow> go_error option \<times> 'm"
  cc_Release :: "'f \<Rightarrow> 'm \<Rightarrow> 'm"

text \<open>\<open>Ptr.Struct\<close>, \<open>Ptr.List\<close> and \<open>Ptr.Data\<close> give the zero value when it is not one.\<close>

definition ptr_Struct :: "('m, 'h, 'c) capnp_mem \<Rightarrow> 'h cptr \<Rightarrow> 'h" where
  "ptr_Struct mem p = (case p of CStruct h \<Rightarrow> h | _ \<Rightarrow> cm_zero mem)"

definition ptr_List :: "'h cptr \<Rightarrow> 'h list" where
  "ptr_List p = (case p of CList hs \<Rightarrow> hs | _ \<Rightarrow> [])"

definition ptr_Data :: "'h cptr \<Rightarrow> byte list" where
  "ptr_Data p = (case p of CData bs \<Rightarrow> bs | _ \<Rightarrow> [])"

text \<open>\<open>StructList.At\<close> panics outside of the list.\<close>

definition list_at :: "'h list \<Rightarrow> nat \<Rightarrow> 'h result" where
  "list_at hs i = (if i < length hs then Inr (hs ! i) else Inl (Panic ''list element out of bounds''))"

section \<open>The generated accessors\<close>

definition TreeNode_Value :: "('m, 'h, 'c) capnp_mem \<Rightarrow> 'm \<Rightarrow> 'h \<Rightarrow> int64" where
  "TreeNode_Value mem m s = cm_Uint64 mem m s 0"

definition TreeNode_SetValue :: "('m, 'h, 'c) capnp_mem \<Rightarrow> 'h \<Rightarrow> int64 \<Rightarrow> 'm \<Rightarrow> 'm result" where
  "TreeNode_SetValue mem s v = cm_SetUint64 mem s 0 v"

definition TreeNode_Children :: "('m, 'h, 'c) capnp_mem \<Rightarrow> 'm \<Rightarrow> 'h \<Rightarrow> 'h list result" where
  "TreeNode_Children mem m s = bind_result (cm_Ptr mem m s 0) (\<lambda>p. Inr (ptr_List p))"

definition NewTreeNode_List ::
  "('m, 'h, 'c) capnp_mem \<Rightarrow> 'h \<Rightarrow> 32 word \<Rightarrow> 'm \<Rightarrow> 'h list result \<times> 'm" where
  "NewTreeNode_List mem s sz = cm_NewCompositeList mem s (8, 1) sz"

definition TreeNode_NewChildren ::
  "('m, 'h, 'c) capnp_mem \<Rightarrow> 'h \<Rightarrow> 32 word \<Rightarrow> 'm \<Rightarrow> 'h list result \<times> 'm" where
  "TreeNode_NewChildren mem s n m =
     (case NewTreeNode_List mem s n m of
        (Inl e, m1) \<Rightarrow> (Inl e, m1)
      | (Inr l, m1) \<Rightarrow>
          (case cm_SetPtr mem s 0 (CList l) m1 of
             (Some e, m2) \<Rightarrow> (Inl e, m2)
           | (None, m2) \<Rightarrow> (Inr l, m2)))"

definition capnp_NewTreeNode ::
  "('m, 'h, 'c) capnp_mem \<Rightarrow> 'h \<Rightarrow> 'm \<Rightarrow> 'h result \<times> 'm" where
  "capnp_NewTreeNode mem s = cm_NewStruct mem s (8, 1)"

definition API_add_Params_A :: "('m, 'h, 'c) capnp_mem \<Rightarrow> 'm \<Rightarrow> 'h \<Rightarrow> int64" where
  "API_add_Params_A mem m s = cm_Uint64 mem m s 0"

definition API_add_Params_B :: "('m, 'h, 'c) capnp_mem \<Rightarrow> 'm \<Rightarrow> 'h \<Rightarrow> int64" where
  "API_add_Params_B mem m s = cm_Uint64 mem m s 8"

definition API_add_Params_SetA :: "('m, 'h, 'c) capnp_mem \<Rightarrow> 'h \<Rightarrow> int64 \<Rightarrow> 'm \<Rightarrow> 'm result" where
  "API_add_Params_SetA mem s v = cm_SetUint64 mem s 0 v"

definition API_add_Params_SetB :: "('m, 'h, 'c) capnp_mem \<Rightarrow> 'h \<Rightarrow> int64 \<Rightarrow> 'm \<Rightarrow> 'm result" where
  "API_add_Params_SetB mem s v = cm_SetUint64 mem s 8 v"

definition API_add_Results_Res :: "('m, 'h, 'c) capnp_mem \<Rightarrow> 'm \<Rightarrow> 'h \<Rightarrow> int64" where
  "API_add_Results_Res mem m s = cm_Uint64 mem m s 0"

definition API_add_Results_SetRes :: "('m, 'h, 'c) capnp_mem \<Rightarrow> 'h \<Rightarrow> int64 \<Rightarrow> 'm \<Rightarrow> 'm result" where
  "API_add_Results_SetRes mem s v = cm_SetUint64 mem s 0 v"

definition API_multTree_Params_Mult :: "('m, 'h, 'c) capnp_mem \<Rightarrow> 'm \<Rightarrow> 'h \<Rightarrow> int64" where
  "API_multTree_Params_Mult mem m s = cm_Uint64 mem m s 0"

definition API_multTree_Params_SetMult ::
  "('m, 'h, 'c) capnp_mem \<Rightarrow> 'h \<Rightarrow> int64 \<Rightarrow> 'm \<Rightarrow> 'm result" where
  "API_multTree_Params_SetMult mem s v = cm_SetUint64 mem s 0 v"

definition API_multTree_Params_Tree :: "('m, 'h, 'c) capnp_mem \<Rightarrow> 'm \<Rightarrow> 'h \<Rightarrow> 'h result" where
  "API_multTree_Params_Tree mem m s = bind_result (cm_Ptr mem m s 0) (\<lambda>p. Inr (ptr_Struct mem p))"

definition API_multTree_Params_NewTree ::
  "('m, 'h, 'c) capnp_mem \<Rightarrow> 'h \<Rightarrow> 'm \<Rightarrow> 'h result \<times> 'm" where
  "API_multTree_Params_NewTree mem s m =
     (case capnp_NewTreeNode mem s m of
        (Inl e, m1) \<Rightarrow> (Inl e, m1)
      | (Inr ss, m1) \<Rightarrow>
          (case cm_SetPtr mem s 0 (CStruct ss) m1 of
             (Some e, m2) \<Rightarrow> (Inl e, m2)
           | (None, m2) \<Rightarrow> (Inr ss, m2)))"

definition API_multTree_Results_Res :: "('m, 'h, 'c) capnp_mem \<Rightarrow> 'm \<Rightarrow> 'h \<Rightarrow> 'h result" where
  "API_multTree_Results_Res mem m s = bind_result (cm_Ptr mem m s 0) (\<lambda>p. Inr (ptr_Struct mem p))"

definition API_multTree_Results_NewRes ::
  "('m, 'h, 'c) capnp_mem \<Rightarrow> 'h \<Rightarrow> 'm \<Rightarrow> 'h result \<times> 'm" where
  "API_multTree_Results_NewRes mem s m =
     (case capnp_NewTreeNode mem s m of
        (Inl e, m1) \<Rightarrow> (Inl e, m1)
      | (Inr ss, m1) \<Rightarrow>
          (case cm_SetPtr mem s 0 (CStruct ss) m1 of
             (Some e, m2) \<Rightarrow> (Inl e, m2)
           | (None, m2) \<Rightarrow> (Inr ss, m2)))"

definition API_toHex_Params_In :: "('m, 'h, 'c) capnp_mem \<Rightarrow> 'm \<Rightarrow> 'h \<Rightarrow> byte list result" where
  "API_toHex_Params_In mem m s = bind_result (cm_Ptr mem m s 0) (\<lambda>p. Inr (ptr_Data p))"

definition API_toHex_Params_SetIn ::
  "('m, 'h, 'c) capnp_mem \<Rightarrow> 'h \<Rightarrow> byte list \<Rightarrow> 'm \<Rightarrow> go_error option \<times> 'm" where
  "API_toHex_Params_SetIn mem s v = cm_SetData mem s 0 v"

definition API_toHex_Results_Out :: "('m, 'h, 'c) capnp_mem \<Rightarrow> 'm \<Rightarrow> 'h \<Rightarrow> byte list result" where
  "API_toHex_Results_Out mem m s = bind_result (cm_Ptr mem m s 0) (\<lambda>p. Inr (ptr_Data p))"

definition API_toHex_Results_SetOut ::
  "('m, 'h, 'c) capnp_mem \<Rightarrow> 'h \<Rightarrow> byte list \<Rightarrow> 'm \<Rightarrow> go_error option \<times> 'm" where
  "API_toHex_Results_SetOut mem s v = cm_SetData mem s 0 v"

definition API_nop_AllocResults :: "('m, 'h, 'c) capnp_mem \<Rightarrow> 'c \<Rightarrow> 'm \<Rightarrow> 'h result \<times> 'm" where
  "API_nop_AllocResults mem c = cm_AllocResults mem c (0, 0)"

definition API_add_AllocResults :: "('m, 'h, 'c) capnp_mem \<Rightarrow> 'c \<Rightarrow> 'm \<Rightarrow> 'h result \<times> 'm" where
  "API_add_AllocResults mem c = cm_AllocResults mem c (8, 0)"

definition API_multTree_AllocResults :: "('m, 'h, 'c) capnp_mem \<Rightarrow> 'c \<Rightarrow> 'm \<Rightarrow> 'h result \<times> 'm" where
  "API_multTree_AllocResults mem c = cm_AllocResults mem c (0, 1)"

definition API_toHex_AllocResults :: "('m, 'h, 'c) capnp_mem \<Rightarrow> 'c \<Rightarrow> 'm \<Rightarrow> 'h result \<times> 'm" where
  "API_toHex_AllocResults mem c = cm_AllocResults mem c (0, 1)"

section \<open>Trees\<close>

text \<open>
  \<open>multTree\<close> in place: an error of \<open>Children\<close> ends it silently, only a panic goes on. Both
  recursions follow pointers of a message, so they are partial: \<open>None\<close> is not returning.
\<close>

partial_function (option) gcp_multTree ::
  "('m, 'h, 'c) capnp_mem \<Rightarrow> int64 \<Rightarrow> 'h \<Rightarrow> 'm \<Rightarrow> (go_error option \<times> 'm) option"
where
  "gcp_multTree mem mult t m =
     (case TreeNode_SetValue mem t (TreeNode_Value mem m t * mult) m of
        Inl e \<Rightarrow> Some (Some e, m)
      | Inr m1 \<Rightarrow>
          (case TreeNode_Children mem m1 t of
             Inl e \<Rightarrow> Some (None, m1)
           | Inr children \<Rightarrow> run_opt (gcp_multTree mem mult) children m1))"

partial_function (option) gcp_copyTree ::
  "('m, 'h, 'c) capnp_mem \<Rightarrow> 'h \<Rightarrow> 'h \<Rightarrow> 'm \<Rightarrow> (go_error option \<times> 'm) option"
where
  "gcp_copyTree mem src tgt m =
     (case TreeNode_SetValue mem tgt (TreeNode_Value mem m src) m of
        Inl e \<Rightarrow> Some (Some e, m)
      | Inr m1 \<Rightarrow>
          (case TreeNode_Children mem m1 src of
             Inl e \<Rightarrow> Some (Some e, m1)
           | Inr srcChildren \<Rightarrow>
               (case TreeNode_NewChildren mem tgt (word_of_nat (length srcChildren)) m1 of
                  (Inl e, m2) \<Rightarrow> Some (Some e, m2)
                | (Inr tgtChildren, m2) \<Rightarrow>
                    run_opt (\<lambda>i m.
                        case list_at tgtChildren i of
                          Inl e \<Rightarrow> Some (Some e, m)
                        | Inr t \<Rightarrow> gcp_copyTree mem (srcChildren ! i) t m)
                      [0..<length srcChildren] m2)))"

text \<open>
  The adapter for the harness: a tree is a place in the messages. \<open>InitChildren\<close> drops the
  error of \<open>NewChildren\<close>. On an error \<open>Child\<close> returns a nil interface, on which the next
  method call panics.
\<close>

definition gcp_SetValue ::
  "('m, 'h, 'c) capnp_mem \<Rightarrow> int64 \<Rightarrow> 'm \<times> 'h \<Rightarrow> ('m \<times> 'h) result" where
  "gcp_SetValue mem v t =
     (case t of (m, s) \<Rightarrow> bind_result (TreeNode_SetValue mem s v m) (\<lambda>m'. Inr (m', s)))"

definition gcp_GetValue :: "('m, 'h, 'c) capnp_mem \<Rightarrow> 'm \<times> 'h \<Rightarrow> int64" where
  "gcp_GetValue mem t = (case t of (m, s) \<Rightarrow> TreeNode_Value mem m s)"

definition gcp_InitChildren ::
  "('m, 'h, 'c) capnp_mem \<Rightarrow> nat \<Rightarrow> 'm \<times> 'h \<Rightarrow> ('m \<times> 'h) result" where
  "gcp_InitChildren mem n t =
     (case t of (m, s) \<Rightarrow> Inr (snd (TreeNode_NewChildren mem s (word_of_nat n) m), s))"

definition gcp_ChildrenCount :: "('m, 'h, 'c) capnp_mem \<Rightarrow> 'm \<times> 'h \<Rightarrow> nat" where
  "gcp_ChildrenCount mem t =
     (case t of (m, s) \<Rightarrow>
       (case TreeNode_Children mem m s of Inl e \<Rightarrow> 0 | Inr children \<Rightarrow> length children))"

definition gcp_Child ::
  "('m, 'h, 'c) capnp_mem \<Rightarrow> 'm \<times> 'h \<Rightarrow> nat \<Rightarrow> ('m \<times> 'h) result" where
  "gcp_Child mem t i =
     (case t of (m, s) \<Rightarrow>
       (case TreeNode_Children mem m s of
          Inl e \<Rightarrow> Inl nil_deref
        | Inr children \<Rightarrow> bind_result (list_at children i) (\<lambda>c. Inr (m, c))))"

partial_function (option) gcp_TotalNodes ::
  "('m, 'h, 'c) capnp_mem \<Rightarrow> 'm \<Rightarrow> 'h \<Rightarrow> int64 option"
where
  "gcp_TotalNodes mem m s =
     (case TreeNode_Children mem m s of
        Inl e \<Rightarrow> Some 1
      | Inr children \<Rightarrow>
          Option.bind (run_opt (\<lambda>c sum. Option.bind (gcp_TotalNodes mem m c) (\<lambda>k. Some (None, sum + k)))
             children 1) (\<lambda>(_, sum). Some sum))"

definition gcp_ops :: "('m, 'h, 'c) capnp_mem \<Rightarrow> ('m \<times> 'h) tree_ops" where
  "gcp_ops mem =
     \<lparr>op_SetValue = gcp_SetValue mem,
      op_GetValue = gcp_GetValue mem,
      op_InitChildren = gcp_InitChildren mem,
      op_ChildrenCount = (\<lambda>t. Inr (gcp_ChildrenCount mem t)),
      op_Child = gcp_Child mem,
      op_PutChild = (\<lambda>t i c. (fst c, snd t)),
      op_TotalNodes = (\<lambda>(m, s). map_option Inr (gcp_TotalNodes mem m s))\<rparr>"

section \<open>The server\<close>

definition gcp_srv_Nop :: "'c \<Rightarrow> 'm \<Rightarrow> (go_error option \<times> 'm) option" where
  "gcp_srv_Nop call m = Some (None, m)"

definition gcp_srv_Add ::
  "('m, 'h, 'c) capnp_mem \<Rightarrow> 'c \<Rightarrow> 'm \<Rightarrow> (go_error option \<times> 'm) option" where
  "gcp_srv_Add mem call m =
     (case API_add_AllocResults mem call m of
        (Inl e, m1) \<Rightarrow> Some (Some e, m1)
      | (Inr res, m1) \<Rightarrow>
          (let args = cm_Args mem call
           in case API_add_Results_SetRes mem res
                  (API_add_Params_A mem m1 args + API_add_Params_B mem m1 args) m1 of
                Inl e \<Rightarrow> Some (Some e, m1)
              | Inr m2 \<Rightarrow> Some (None, m2)))"

definition gcp_srv_MultTree ::
  "('m, 'h, 'c) capnp_mem \<Rightarrow> 'c \<Rightarrow> 'm \<Rightarrow> (go_error option \<times> 'm) option" where
  "gcp_srv_MultTree mem call m =
     (case API_multTree_Params_Tree mem m (cm_Args mem call) of
        Inl e \<Rightarrow> Some (Some e, m)
      | Inr tree \<Rightarrow>
          Option.bind (gcp_multTree mem (API_multTree_Params_Mult mem m (cm_Args mem call)) tree m)
            (\<lambda>(err, m1).
              case err of
                Some e \<Rightarrow> Some (Some e, m1)
              | None \<Rightarrow>
                  (case API_multTree_AllocResults mem call m1 of
                     (Inl e, m2) \<Rightarrow> Some (Some e, m2)
                   | (Inr res, m2) \<Rightarrow>
                       (case API_multTree_Results_NewRes mem res m2 of
                          (Inl e, m3) \<Rightarrow> Some (Some e, m3)
                        | (Inr resTree, m3) \<Rightarrow> gcp_copyTree mem tree resTree m3))))"

definition gcp_srv_ToHex ::
  "('m, 'h, 'c) capnp_mem \<Rightarrow> 'c \<Rightarrow> 'm \<Rightarrow> (go_error option \<times> 'm) option" where
  "gcp_srv_ToHex mem call m =
     (case API_toHex_Params_In mem m (cm_Args mem call) of
        Inl e \<Rightarrow> Some (Some e, m)
      | Inr inp \<Rightarrow>
          (case API_toHex_AllocResults mem call m of
             (Inl e, m1) \<Rightarrow> Some (Some e, m1)
           | (Inr res, m1) \<Rightarrow> Some (API_toHex_Results_SetOut mem res (hex_encode inp) m1)))"

text \<open>The method table the generated code hands to the library's server.\<close>

definition api_interface :: "64 word" where
  "api_interface = 0xfea5a1579f2ffa9e"

definition api_method :: "16 word \<Rightarrow> capnp_method" where
  "api_method i = \<lparr>md_Interface = api_interface, md_Method = i\<rparr>"

definition API_Methods ::
  "('m, 'h, 'c) capnp_mem \<Rightarrow> (capnp_method \<times> ('c \<Rightarrow> 'm \<Rightarrow> (go_error option \<times> 'm) option)) list" where
  "API_Methods mem =
     [(api_method 0, gcp_srv_Nop),
      (api_method 1, gcp_srv_Add mem),
      (api_method 2, gcp_srv_MultTree mem),
      (api_method 3, gcp_srv_ToHex mem)]"

section \<open>The client\<close>

definition API_Nop ::
  "('m, 'h, 'f) capnp_conn \<Rightarrow> ('h \<Rightarrow> 'm \<Rightarrow> 'm result) option \<Rightarrow> 'm \<Rightarrow> 'f \<times> 'm" where
  "API_Nop conn params = cc_SendCall conn (api_method 0) (map_option (Pair (0, 0)) params)"

definition API_Add ::
  "('m, 'h, 'f) capnp_conn \<Rightarrow> ('h \<Rightarrow> 'm \<Rightarrow> 'm result) option \<Rightarrow> 'm \<Rightarrow> 'f \<times> 'm" where
  "API_Add conn params = cc_SendCall conn (api_method 1) (map_option (Pair (16, 0)) params)"

definition API_MultTree ::
  "('m, 'h, 'f) capnp_conn \<Rightarrow> ('h \<Rightarrow> 'm \<Rightarrow> 'm result) option \<Rightarrow> 'm \<Rightarrow> 'f \<times> 'm" where
  "API_MultTree conn params = cc_SendCall conn (api_method 2) (map_option (Pair (8, 1)) params)"

definition API_ToHex ::
  "('m, 'h, 'f) capnp_conn \<Rightarrow> ('h \<Rightarrow> 'm \<Rightarrow> 'm result) option \<Rightarrow> 'm \<Rightarrow> 'f \<times> 'm" where
  "API_ToHex conn params = cc_SendCall conn (api_method 3) (map_option (Pair (0, 1)) params)"

text \<open>The four \<open>Struct\<close> methods of the generated futures.\<close>

definition Future_Struct ::
  "('m, 'h, 'c) capnp_mem \<Rightarrow> ('m, 'h, 'f) capnp_conn \<Rightarrow> 'f \<Rightarrow> 'm \<Rightarrow> 'h result \<times> 'm" where
  "Future_Struct mem conn f m =
     (case cc_Ptr conn f m of
        (Inl e, m1) \<Rightarrow> (Inl e, m1)
      | (Inr p, m1) \<Rightarrow> (Inr (ptr_Struct mem p), m1))"

text \<open>\<open>Nop\<close> waits for the call to be over and does not look at its result.\<close>

definition gcp_Nop :: "('m, 'h, 'f) capnp_conn \<Rightarrow> 'm \<Rightarrow> go_error option \<times> 'm" where
  "gcp_Nop conn m =
     (case API_Nop conn None m of
        (nopFuture, m1) \<Rightarrow>
          (case cc_Done conn nopFuture m1 of
             (err, m2) \<Rightarrow> (err, cc_Release conn nopFuture m2)))"

definition gcp_Add ::
  "('m, 'h, 'c) capnp_mem \<Rightarrow> ('m, 'h, 'f) capnp_conn \<Rightarrow> 'm \<Rightarrow> int64 \<Rightarrow> int64 \<Rightarrow> int64 result \<times> 'm" where
  "gcp_Add mem conn m a b =
     (case API_Add conn (Some (\<lambda>args m.
              bind_result (API_add_Params_SetA mem args a m) (API_add_Params_SetB mem args b))) m of
        (addFuture, m1) \<Rightarrow>
          (case Future_Struct mem conn addFuture m1 of
             (Inl e, m2) \<Rightarrow> (Inl e, cc_Release conn addFuture m2)
           | (Inr res, m2) \<Rightarrow> (Inr (API_add_Results_Res mem m2 res), cc_Release conn addFuture m2)))"

text \<open>The results of \<open>MultTreeValues\<close> are never released: the caller still reads the tree.\<close>

definition gcp_MultTreeValues ::
  "('m, 'h, 'c) capnp_mem \<Rightarrow> ('m, 'h, 'f) capnp_conn \<Rightarrow> 'm \<Rightarrow> int64 \<Rightarrow>
     ('m \<times> 'h \<Rightarrow> ('m \<times> 'h) result) \<Rightarrow> ('m \<times> 'h) result \<times> 'm"
where
  "gcp_MultTreeValues mem conn m mult fillArgs =
     (case API_MultTree conn (Some (\<lambda>args m.
              bind_result (API_multTree_Params_SetMult mem args mult m) (\<lambda>m1.
                case API_multTree_Params_NewTree mem args m1 of
                  (Inl e, m2) \<Rightarrow> Inl e
                | (Inr tree, m2) \<Rightarrow> bind_result (fillArgs (m2, tree)) (\<lambda>(m3, _). Inr m3)))) m of
        (treeFuture, m1) \<Rightarrow>
          (case Future_Struct mem conn treeFuture m1 of
             (Inl e, m2) \<Rightarrow> (Inl e, m2)
           | (Inr res, m2) \<Rightarrow>
               (bind_result (API_multTree_Results_Res mem m2 res) (\<lambda>resTree. Inr (m2, resTree)), m2)))"

definition gcp_ToHex ::
  "('m, 'h, 'c) capnp_mem \<Rightarrow> ('m, 'h, 'f) capnp_conn \<Rightarrow> 'm \<Rightarrow> byte list \<Rightarrow> byte list \<Rightarrow>
     go_error option \<times> byte list \<times> 'm"
where
  "gcp_ToHex mem conn m inp outp =
     (case API_ToHex conn (Some (\<lambda>args m. Inr (snd (API_toHex_Params_SetIn mem args inp m)))) m of
        (hexFuture, m1) \<Rightarrow>
          (case Future_Struct mem conn hexFuture m1 of
             (Inl e, m2) \<Rightarrow> (Some e, outp, cc_Release conn hexFuture m2)
           | (Inr res, m2) \<Rightarrow>
               (case API_toHex_Results_Out mem m2 res of
                  Inl e \<Rightarrow> (Some e, outp, cc_Release conn hexFuture m2)
                | Inr outRes \<Rightarrow>
                    (None, take (length outp) outRes @ drop (length outRes) outp,
                     cc_Release conn hexFuture m2))))"

definition gcp_client_ops ::
  "('m, 'h, 'c) capnp_mem \<Rightarrow> ('m, 'h, 'f) capnp_conn \<Rightarrow> ('m, 'm \<times> 'h, 'm \<times> 'h) client_ops"
where
  "gcp_client_ops mem conn =
     \<lparr>cl_Nop = gcp_Nop conn,
      cl_Add = gcp_Add mem conn,
      cl_MultTreeValues = gcp_MultTreeValues mem conn,
      cl_ToHex = gcp_ToHex mem conn\<rparr>"

section \<open>What the library promises\<close>

text \<open>
  The laws of a message: a struct read is the struct last written, a new struct or list is
  made of zeroed structs that are nowhere else, and nothing else changes. A handle may go down
  \<open>lim\<close> levels of pointers at least (\<open>lmax\<close> for a new message): the depth limit the library
  is configured with is not in the repository, and the properties that need it name a bound. Allocating does
  not fail: the traversal limit and the memory of a message are taken to be enough.
\<close>

locale capnp_memory =
  fixes mem :: "('m, 'h, 'c) capnp_mem" and wld :: "'m \<Rightarrow> 'c world"
    and addr :: "'h \<Rightarrow> nat" and lim :: "'h \<Rightarrow> nat" and lmax :: nat
  assumes uint64: "w_heap (wld m) (addr h) = Some (d, ps) \<Longrightarrow> i < length d \<Longrightarrow>
      cm_Uint64 mem m h (8 * i) = d ! i"
    and set_uint64: "w_heap (wld m) (addr h) = Some (d, ps) \<Longrightarrow> i < length d \<Longrightarrow>
      \<exists>m'. cm_SetUint64 mem h (8 * i) v m = Inr m' \<and>
        wld m' = (wld m)\<lparr>w_heap := (w_heap (wld m))(addr h \<mapsto> (d[i := v], ps))\<rparr>"
    and ptr: "w_heap (wld m) (addr h) = Some (d, ps) \<Longrightarrow> i < length ps \<Longrightarrow> 0 < lim h \<Longrightarrow>
      \<exists>p. cm_Ptr mem m h i = Inr p \<and> map_cptr addr p = ps ! i \<and>
        (\<forall>h' \<in> set_cptr p. lim h - 1 \<le> lim h')"
    and set_data: "w_heap (wld m) (addr h) = Some (d, ps) \<Longrightarrow> i < length ps \<Longrightarrow> length bs < 2 ^ 29 \<Longrightarrow>
      \<exists>m'. cm_SetData mem h i bs m = (None, m') \<and>
        wld m' = (wld m)\<lparr>w_heap := (w_heap (wld m))(addr h \<mapsto> (d, ps[i := CData bs]))\<rparr>"
    and new_struct: "w_heap (wld m) (addr h) = Some (d, ps) \<Longrightarrow> i < length ps \<Longrightarrow>
      \<exists>h' m1 m2. cm_NewStruct mem h sz m = (Inr h', m1) \<and> cm_SetPtr mem h i (CStruct h') m1 = (None, m2) \<and>
        addr h' \<notin> dom (w_heap (wld m)) \<and> lmax \<le> lim h' \<and>
        wld m2 = (wld m)\<lparr>w_heap := (w_heap (wld m))(addr h' \<mapsto> zero_obj (fst sz div 8, snd sz),
                                  addr h \<mapsto> (d, ps[i := CStruct (addr h')]))\<rparr>"
    and new_list: "w_heap (wld m) (addr h) = Some (d, ps) \<Longrightarrow> i < length ps \<Longrightarrow> n < 2 ^ 29 \<Longrightarrow>
      n * (fst sz div 8 + snd sz) < 2 ^ 29 \<Longrightarrow>
      \<exists>hs m1 m2. cm_NewCompositeList mem h sz (word_of_nat n) m = (Inr hs, m1) \<and>
        cm_SetPtr mem h i (CList hs) m1 = (None, m2) \<and> length hs = n \<and> distinct (map addr hs) \<and>
        set (map addr hs) \<inter> dom (w_heap (wld m)) = {} \<and> (\<forall>h' \<in> set hs. lmax \<le> lim h') \<and>
        wld m2 = (wld m)\<lparr>w_heap := (\<lambda>a.
          if a = addr h then Some (d, ps[i := CList (map addr hs)])
          else if a \<in> set (map addr hs) then Some (zero_obj (fst sz div 8, snd sz))
          else w_heap (wld m) a)\<rparr>"
    and alloc_results: "w_results (wld m) c = None \<Longrightarrow>
      \<exists>h m'. cm_AllocResults mem c sz m = (Inr h, m') \<and>
        addr h \<notin> dom (w_heap (wld m)) \<and> lmax \<le> lim h \<and>
        wld m' = (wld m)\<lparr>w_heap := (w_heap (wld m))(addr h \<mapsto> zero_obj (fst sz div 8, snd sz)),
                         w_results := (w_results (wld m))(c \<mapsto> addr h)\<rparr>"

text \<open>
  A call of the method \<open>meth\<close> with arguments of the value \<open>v\<close>: the library's server runs the
  implementation in the method table on a copy of the arguments, and the future \<open>f\<close> gives
  a copy of the results it allocated, or the error it returned.
\<close>

definition capnp_returns ::
  "('m, 'h, 'f) capnp_conn \<Rightarrow> ('m \<Rightarrow> 'c world) \<Rightarrow> ('h \<Rightarrow> nat) \<Rightarrow> ('h \<Rightarrow> nat) \<Rightarrow> nat \<Rightarrow> nat \<Rightarrow>
     'f \<Rightarrow> 'm \<Rightarrow> 'c \<Rightarrow> go_error option \<Rightarrow> 'm \<Rightarrow> bool"
where
  "capnp_returns conn wld addr lim lmax max_size f m3 c err m5 \<longleftrightarrow>
     (\<exists>m6. cc_Done conn f m3 = (None, m6) \<and> w_up (wld m6)) \<and>
     (case err of
        Some e \<Rightarrow> \<exists>e' m6. cc_Ptr conn f m3 = (Inl e', m6) \<and> w_up (wld m6)
      | None \<Rightarrow>
          (\<forall>r w. w_results (wld m5) c = Some r \<longrightarrow> stored (w_heap (wld m5)) r w \<longrightarrow> csize w \<le> max_size \<longrightarrow>
             (\<exists>h m6. cc_Ptr conn f m3 = (Inr (CStruct h), m6) \<and> stored (w_heap (wld m6)) (addr h) w \<and>
                lmax \<le> lim h \<and> w_up (wld m6))))"

definition capnp_serves ::
  "('m, 'h, 'c) capnp_mem \<Rightarrow> ('m, 'h, 'f) capnp_conn \<Rightarrow> ('m \<Rightarrow> 'c world) \<Rightarrow> ('h \<Rightarrow> nat) \<Rightarrow> ('h \<Rightarrow> nat) \<Rightarrow>
     nat \<Rightarrow> nat \<Rightarrow> capnp_method \<Rightarrow> cval \<Rightarrow> 'f \<Rightarrow> 'm \<Rightarrow> bool"
where
  "capnp_serves mem conn wld addr lim lmax max_size meth v f m3 \<longleftrightarrow>
     (\<exists>c m4. w_up (wld m4) \<and> w_results (wld m4) c = None \<and>
        stored (w_heap (wld m4)) (addr (cm_Args mem c)) v \<and> lmax \<le> lim (cm_Args mem c) \<and>
        (\<forall>impl err m5. map_of (API_Methods mem) meth = Some impl \<longrightarrow> impl c m4 = Some (err, m5) \<longrightarrow>
           w_up (wld m5) \<longrightarrow> capnp_returns conn wld addr lim lmax max_size f m3 c err m5))"

locale capnp_connection = capnp_memory mem wld addr lim lmax
  for mem :: "('m, 'h, 'c) capnp_mem" and wld :: "'m \<Rightarrow> 'c world"
    and addr :: "'h \<Rightarrow> nat" and lim :: "'h \<Rightarrow> nat" and lmax :: nat +
  fixes conn :: "('m, 'h, 'f) capnp_conn" and max_size :: nat
  assumes send_call: "w_up (wld m) \<Longrightarrow>
      \<exists>a m1. addr a \<notin> dom (w_heap (wld m)) \<and> lmax \<le> lim a \<and>
        wld m1 = (wld m)\<lparr>w_heap := (w_heap (wld m))(addr a \<mapsto> zero_obj (fst sz div 8, snd sz))\<rparr> \<and>
        (\<forall>m2 v. place a m1 = Inr m2 \<longrightarrow> w_up (wld m2) \<longrightarrow> stored (w_heap (wld m2)) (addr a) v \<longrightarrow>
           csize v \<le> max_size \<longrightarrow>
           (\<exists>f m3. cc_SendCall conn meth (Some (sz, place)) m = (f, m3) \<and>
              capnp_serves mem conn wld addr lim lmax max_size meth v f m3))"
    and send_call_no_args: "w_up (wld m) \<Longrightarrow>
      \<exists>f m3. cc_SendCall conn meth None m = (f, m3) \<and>
        capnp_serves mem conn wld addr lim lmax max_size meth (CV [] []) f m3"
    and release: "w_up (wld m) \<Longrightarrow> w_up (wld (cc_Release conn f m))"


section \<open>Trees in a message\<close>

lemma zero_node [simp]: "zero_obj (Suc 0, Suc 0) = ([0], [CNull])"
  by (simp add: zero_obj_def)

lemma map_cptr_listy: "map_cptr f p = q \<Longrightarrow> listy q \<Longrightarrow> map f (ptr_List p) = elems q"
  by (cases p) (auto simp: ptr_List_def)

lemma set_ptr_List: "set (ptr_List p) \<subseteq> set_cptr p"
  by (cases p) (auto simp: ptr_List_def)

context capnp_memory
begin

lemma Value_at: "w_heap (wld m) (addr h) = Some ([v], ps) \<Longrightarrow> TreeNode_Value mem m h = v"
  using uint64 [of m h "[v]" ps 0] by (simp add: TreeNode_Value_def)

lemma SetValue_at:
  "w_heap (wld m) (addr h) = Some ([v], ps) \<Longrightarrow>
     \<exists>m'. TreeNode_SetValue mem h w m = Inr m' \<and>
       wld m' = (wld m)\<lparr>w_heap := (w_heap (wld m))(addr h \<mapsto> ([w], ps))\<rparr>"
  using set_uint64 [of m h "[v]" ps 0 w] by (simp add: TreeNode_SetValue_def)

lemma Children_at:
  assumes "w_heap (wld m) (addr h) = Some (d, [p])" "listy p" "0 < lim h"
  shows "\<exists>hs. TreeNode_Children mem m h = Inr hs \<and> map addr hs = elems p \<and>
    (\<forall>h' \<in> set hs. lim h - 1 \<le> lim h')"
proof -
  obtain q where q: "cm_Ptr mem m h 0 = Inr q" "map_cptr addr q = p"
      "\<forall>h' \<in> set_cptr q. lim h - 1 \<le> lim h'"
    using ptr [of m h d "[p]" 0] assms(1,3) by auto
  have "map addr (ptr_List q) = elems p" using q(2) assms(2) by (rule map_cptr_listy)
  with q set_ptr_List [of q] show ?thesis by (auto simp: TreeNode_Children_def)
qed

lemma NewChildren_at:
  assumes "w_heap (wld m) (addr h) = Some ([v], [p])" "n < 2 ^ 28"
  shows "\<exists>hs m'. TreeNode_NewChildren mem h (word_of_nat n) m = (Inr hs, m') \<and> length hs = n \<and>
    distinct (map addr hs) \<and> set (map addr hs) \<inter> dom (w_heap (wld m)) = {} \<and>
    (\<forall>h' \<in> set hs. lmax \<le> lim h') \<and>
    wld m' = (wld m)\<lparr>w_heap := new_children (w_heap (wld m)) (addr h) v (map addr hs)\<rparr>"
proof -
  obtain hs m1 m2 where "cm_NewCompositeList mem h (8, 1) (word_of_nat n) m = (Inr hs, m1)"
      "cm_SetPtr mem h 0 (CList hs) m1 = (None, m2)" "length hs = n" "distinct (map addr hs)"
      "set (map addr hs) \<inter> dom (w_heap (wld m)) = {}" "\<forall>h' \<in> set hs. lmax \<le> lim h'"
      "wld m2 = (wld m)\<lparr>w_heap := (\<lambda>a. if a = addr h then Some ([v], [p][0 := CList (map addr hs)])
          else if a \<in> set (map addr hs) then Some (zero_obj (fst (8 :: nat, 1 :: nat) div 8, snd (8 :: nat, 1 :: nat)))
          else w_heap (wld m) a)\<rparr>"
    using new_list [of m h "[v]" "[p]" 0 n "(8, 1)"] assms by auto
  then show ?thesis
    by (simp add: TreeNode_NewChildren_def NewTreeNode_List_def new_children_def cong: if_cong)
qed

text \<open>A loop over disjoint structs whose body rewrites one of them and nothing else.\<close>

lemma run_opt_in_place:
  assumes step: "\<And>y g n. y \<in> set ys \<Longrightarrow> addr g = root y \<Longrightarrow> P g \<Longrightarrow> holds (w_heap (wld n)) y \<Longrightarrow>
      \<exists>n' H'. f g n = Some (None, n') \<and> wld n' = (wld n)\<lparr>w_heap := H'\<rparr> \<and>
        (\<forall>b. b \<notin> set (addrs y) \<longrightarrow> H' b = w_heap (wld n) b) \<and> holds H' (F y)"
    and F: "\<And>y. addrs (F y) = addrs y"
    and "map addr gs = map root ys" "\<forall>g \<in> set gs. P g"
    and "\<forall>y \<in> set ys. holds (w_heap (wld n)) y" "distinct (concat (map addrs ys))"
  shows "\<exists>n' H'. run_opt f gs n = Some (None, n') \<and> wld n' = (wld n)\<lparr>w_heap := H'\<rparr> \<and>
    (\<forall>b. b \<notin> set (concat (map addrs ys)) \<longrightarrow> H' b = w_heap (wld n) b) \<and>
    (\<forall>y \<in> set ys. holds H' (F y))"
  using step assms(3-)
proof (induction ys arbitrary: gs n)
  case Nil
  then show ?case by (intro exI [of _ n] exI [of _ "w_heap (wld n)"]) simp
next
  case (Cons y ys)
  obtain g gs' where gs: "gs = g # gs'" using Cons.prems(2) by (cases gs) auto
  have pre: "addr g = root y" "P g" "holds (w_heap (wld n)) y"
    using Cons.prems(2-4) gs by simp_all
  from Cons.prems(1) [OF list.set_intros(1) pre]
  obtain n1 H1 where n1: "f g n = Some (None, n1)" "wld n1 = (wld n)\<lparr>w_heap := H1\<rparr>"
      "\<forall>b. b \<notin> set (addrs y) \<longrightarrow> H1 b = w_heap (wld n) b" "holds H1 (F y)"
    by metis
  have later: "holds (w_heap (wld n1)) z" if "z \<in> set ys" for z
  proof -
    have "holds H1 z = holds (w_heap (wld n)) z"
      using that n1(3) Cons.prems(5) by (intro holds_cong) auto
    then show ?thesis using that n1(2) Cons.prems(4) by simp
  qed
  have rest: "map addr gs' = map root ys" "\<forall>g \<in> set gs'. P g" "distinct (concat (map addrs ys))"
    using Cons.prems(2,3,5) gs by simp_all
  have "\<exists>n' H'. run_opt f gs' n1 = Some (None, n') \<and> wld n' = (wld n1)\<lparr>w_heap := H'\<rparr> \<and>
      (\<forall>b. b \<notin> set (concat (map addrs ys)) \<longrightarrow> H' b = w_heap (wld n1) b) \<and>
      (\<forall>y \<in> set ys. holds H' (F y))"
    by (rule Cons.IH [OF _ rest(1,2) _ rest(3)]) (use Cons.prems(1) later in simp_all)
  then obtain n2 H2 where n2: "run_opt f gs' n1 = Some (None, n2)" "wld n2 = (wld n1)\<lparr>w_heap := H2\<rparr>"
      "\<forall>b. b \<notin> set (concat (map addrs ys)) \<longrightarrow> H2 b = w_heap (wld n1) b"
      "\<forall>z \<in> set ys. holds H2 (F z)"
    by metis
  have "holds H2 (F y) = holds H1 (F y)"
    using n2(2,3) n1(2) Cons.prems(5) F by (intro holds_cong) auto
  with n1 n2 gs show ?case by auto
qed

text \<open>The handler's \<open>multTree\<close> multiplies a tree in place and touches nothing else.\<close>

lemma multTree_in_place:
  assumes "holds (w_heap (wld m)) x" "tree_cv (cvalue x)" "distinct (addrs x)" "root x = addr h"
    and "vlow k (avt x)" "k < lim h"
  shows "\<exists>m' H'. gcp_multTree mem mult h m = Some (None, m') \<and> wld m' = (wld m)\<lparr>w_heap := H'\<rparr> \<and>
    (\<forall>a. a \<notin> set (addrs x) \<longrightarrow> H' a = w_heap (wld m) a) \<and> holds H' (amult mult x)"
  using assms
proof (induction x arbitrary: h m k rule: aval_induct)
  case (AV a d ps)
  from AV.prems(2) obtain a' v p where "AV a d ps = AV a' [v] [p]" "listy p"
      "\<forall>y \<in> set (elems p). tree_cv (cvalue y)"
    by (rule tree_cvE)
  then have eq: "d = [v]" "ps = [p]" "listy p" "\<forall>y \<in> set (elems p). tree_cv (cvalue y)" by simp_all
  let ?H = "w_heap (wld m)" and ?xs = "elems p"
  let ?H1 = "?H(addr h \<mapsto> ([v * mult], [map_cptr root p]))"
  have at: "?H (addr h) = Some ([v], [map_cptr root p])"
    and out: "addr h \<notin> set (concat (map addrs ?xs))" "distinct (concat (map addrs ?xs))"
    using AV.prems(1,3,4) eq by simp_all
  obtain m1 where m1: "TreeNode_SetValue mem h (v * mult) m = Inr m1" "wld m1 = (wld m)\<lparr>w_heap := ?H1\<rparr>"
    using SetValue_at [OF at] by blast
  obtain hs where hs: "TreeNode_Children mem m1 h = Inr hs" "map addr hs = map root ?xs"
      "\<forall>h' \<in> set hs. lim h - 1 \<le> lim h'"
    using Children_at [of m1 h "[v * mult]" "map_cptr root p"] m1(2) eq(3) AV.prems(6) by auto
  have step: "\<exists>n' H'. gcp_multTree mem mult g n = Some (None, n') \<and> wld n' = (wld n)\<lparr>w_heap := H'\<rparr> \<and>
      (\<forall>b. b \<notin> set (addrs y) \<longrightarrow> H' b = w_heap (wld n) b) \<and> holds H' (amult mult y)"
    if y: "y \<in> set ?xs" "addr g = root y" "lim h - 1 \<le> lim g" "holds (w_heap (wld n)) y" for y g n
  proof -
    have mem: "y \<in> set (all_elems ps)" using y(1) eq by simp
    then obtain k' where k': "k = Suc k'" "vlow k' (avt y)"
      using AV.prems(5) vlow_child by blast
    moreover have "distinct (addrs y)" using out(2) y(1) by (auto simp: distinct_concat_iff)
    ultimately show ?thesis
      using AV.IH [OF mem y(4), of g k'] AV.prems(6) y k' eq(4) by simp
  qed
  have "holds (w_heap (wld m1)) y" if y: "y \<in> set ?xs" for y
  proof -
    have "holds ?H1 y = holds ?H y" using out(1) y by (intro holds_cong) auto
    then show ?thesis using m1(2) AV.prems(1) eq y by simp
  qed
  then obtain m2 H2 where m2: "run_opt (gcp_multTree mem mult) hs m1 = Some (None, m2)"
      "wld m2 = (wld m1)\<lparr>w_heap := H2\<rparr>"
      "\<forall>b. b \<notin> set (concat (map addrs ?xs)) \<longrightarrow> H2 b = w_heap (wld m1) b"
      "\<forall>y \<in> set ?xs. holds H2 (amult mult y)"
    using run_opt_in_place [of ?xs "\<lambda>g. lim h - 1 \<le> lim g" "gcp_multTree mem mult" "amult mult" hs m1] step
      hs(2,3) out(2) by auto
  have "gcp_multTree mem mult h m = Some (None, m2)"
    using m1(1) hs(1) m2(1) Value_at [OF at] by (subst gcp_multTree.simps) simp
  moreover have "H2 a = Some ([v * mult], [map_cptr root p])"
    using m2(3) m1(2) AV.prems(4) out(1) by simp
  then have "holds H2 (amult mult (AV a d ps))"
    using m2(4) eq by (auto simp: cptr.map_comp o_def)
  moreover have "H2 b = ?H b" if "b \<notin> set (addrs (AV a d ps))" for b
    using that m2(3) m1(2) eq AV.prems(4) by auto
  ultimately show ?case
    using m1(2) m2(2) by (intro exI [of _ m2] exI [of _ H2]) simp
qed

end

context capnp_memory
begin

text \<open>Copying a tree of a message into a zeroed node elsewhere builds it there.\<close>

lemma gcp_copyTree_built:
  assumes "holds (w_heap (wld m)) x" "tree_cv (cvalue x)" "root x = addr src"
    and "vlow k (avt x)" "k < lim src" "vnodes (avt x) < 2 ^ 28"
    and "w_heap (wld m) (addr tgt) = Some ([w], [q])" "addr tgt \<notin> set (addrs x)"
  shows "\<exists>m' H'. gcp_copyTree mem src tgt m = Some (None, m') \<and> wld m' = (wld m)\<lparr>w_heap := H'\<rparr> \<and>
    built (w_heap (wld m)) (addr tgt) (avt x) H'"
  using assms
proof (induction x arbitrary: src tgt m k w q rule: aval_induct)
  case (AV a d ps)
  from AV.prems(2) obtain a' v p where "AV a d ps = AV a' [v] [p]" "listy p"
      "\<forall>y \<in> set (elems p). tree_cv (cvalue y)"
    by (rule tree_cvE)
  then have eq: "d = [v]" "ps = [p]" "listy p" "\<forall>y \<in> set (elems p). tree_cv (cvalue y)" by simp_all
  let ?H = "w_heap (wld m)" and ?xs = "elems p" and ?b = "addr tgt"
  have at: "?H (addr src) = Some ([v], [map_cptr root p])" and ne: "addr src \<noteq> ?b"
    using AV.prems(1,3,8) eq by auto
  obtain m1 where m1: "TreeNode_SetValue mem tgt v m = Inr m1"
      "wld m1 = (wld m)\<lparr>w_heap := ?H(?b \<mapsto> ([v], [q]))\<rparr>"
    using SetValue_at [OF AV.prems(7)] by blast
  obtain hs where hs: "TreeNode_Children mem m1 src = Inr hs" "map addr hs = map root ?xs"
      "\<forall>h' \<in> set hs. lim src - 1 \<le> lim h'"
    using Children_at [of m1 src "[v]" "map_cptr root p"] m1(2) at ne eq(3) AV.prems(5) by auto
  have n: "length hs = length ?xs" using hs(2) by (metis length_map)
  have small: "length ?xs < 2 ^ 28" "\<forall>y \<in> set ?xs. vnodes (avt y) < 2 ^ 28"
    using tree_children_small [OF AV.prems(6)] eq by simp_all
  obtain ts m2 where ts: "TreeNode_NewChildren mem tgt (word_of_nat (length hs)) m1 = (Inr ts, m2)"
      "length ts = length hs" "distinct (map addr ts)" "set (map addr ts) \<inter> dom ?H = {}"
      "wld m2 = (wld m)\<lparr>w_heap := new_children ?H ?b v (map addr ts)\<rparr>"
    using NewChildren_at [of m1 tgt v q "length hs"] m1(2) small(1) n AV.prems(7) by auto
  let ?body = "\<lambda>i m. case list_at ts i of Inl e \<Rightarrow> Some (Some e, m)
      | Inr t \<Rightarrow> gcp_copyTree mem (hs ! i) t m"
  have copy: "\<exists>s' H'. gcp_copyTree mem h t s = Some (None, s') \<and> wld s' = (wld s)\<lparr>w_heap := H'\<rparr> \<and>
      built (w_heap (wld s)) (addr t) (avt y) H'"
    if y: "y \<in> set ?xs" "h \<in> set hs" "root y = addr h" "holds (w_heap (wld s)) y"
      "w_heap (wld s) (addr t) = Some ([0], [CNull])" "addr t \<notin> set (addrs y)" for y h t s
  proof -
    have mem: "y \<in> set (all_elems ps)" using y(1) eq by simp
    then obtain k' where k': "k = Suc k'" "vlow k' (avt y)" using vlow_child [OF AV.prems(4)] by blast
    have "lim src - 1 \<le> lim h" using hs(3) y(2) by blast
    then have "k' < lim h" using AV.prems(5) k'(1) by linarith
    then show ?thesis
      using AV.IH [OF mem y(4) _ y(3), of k' t] y k'(2) eq(4) small(2) by auto
  qed
  have b: "?b \<in> dom ?H" using AV.prems(7) by blast
  have xs: "\<forall>y \<in> set ?xs. holds ?H y \<and> ?b \<notin> set (addrs y)" using AV.prems(1,8) eq by auto
  have body: "?body i s = gcp_copyTree mem (hs ! i) (ts ! i) s" if "i < length hs" for i s
    using that ts(2) by (simp add: list_at_def)
  have "\<exists>m3 H3. run_opt ?body [0..<length hs] m2 = Some (None, m3) \<and> wld m3 = (wld m)\<lparr>w_heap := H3\<rparr> \<and>
      built ?H ?b (VT v (map (\<lambda>y. avt y) ?xs)) H3"
    by (rule copy_children [OF b ts(3,4,2) hs(2) xs copy body ts(5)])
  then obtain m3 H3 where m3: "run_opt ?body [0..<length hs] m2 = Some (None, m3)"
      "wld m3 = (wld m)\<lparr>w_heap := H3\<rparr>" "built ?H ?b (VT v (map (\<lambda>y. avt y) ?xs)) H3" by blast
  have "gcp_copyTree mem src tgt m = Some (None, m3)"
    using m1(1) hs(1) ts(1) m3(1) Value_at [OF at] by (subst gcp_copyTree.simps) simp
  with m3(2,3) eq show ?case by (auto simp: o_def)
qed

end


section \<open>The tree the client fills\<close>

context capnp_memory
begin

lemma Child_at:
  assumes "w_heap (wld m) (addr h) = Some ([v], [CList as])" "0 < lim h" "i < length as"
  shows "\<exists>c. gcp_Child mem (m, h) i = Inr (m, c) \<and> addr c = as ! i \<and> lim h - 1 \<le> lim c"
proof -
  obtain hs where hs: "TreeNode_Children mem m h = Inr hs" "map addr hs = as"
      "\<forall>h' \<in> set hs. lim h - 1 \<le> lim h'"
    using Children_at [OF assms(1) _ assms(2)] by auto
  then have "i < length hs" "addr (hs ! i) = as ! i" using assms(3) by auto
  with hs show ?thesis by (auto simp: gcp_Child_def list_at_def)
qed

text \<open>The harness's \<open>copyTree\<close> builds its tree in the zeroed node of a new message.\<close>

lemma copyTree_built:
  assumes "w_heap (wld m) (addr h) = Some ([w], [q])" "vlow k (tn_view from)" "k < lim h"
    and "vnodes (tn_view from) < 2 ^ 28"
  shows "\<exists>m' H'. copyTree (gcp_ops mem) from (m, h) = Inr (m', h) \<and> wld m' = (wld m)\<lparr>w_heap := H'\<rparr> \<and>
    built (w_heap (wld m)) (addr h) (tn_view from) H'"
  using assms
proof (induction "from" arbitrary: m h k w q)
  case (TreeNodeImpl v n cs)
  let ?xs = "take n cs" and ?H = "w_heap (wld m)" and ?b = "addr h"
  obtain m1 where m1: "TreeNode_SetValue mem h v m = Inr m1"
      "wld m1 = (wld m)\<lparr>w_heap := ?H(?b \<mapsto> ([v], [q]))\<rparr>"
    using SetValue_at [OF TreeNodeImpl.prems(1)] by blast
  note small = tn_children_small [OF TreeNodeImpl.prems(4)]
  obtain ts m2 where ts: "TreeNode_NewChildren mem h (word_of_nat (length ?xs)) m1 = (Inr ts, m2)"
      "length ts = length ?xs" "distinct (map addr ts)" "set (map addr ts) \<inter> dom ?H = {}"
      "wld m2 = (wld m)\<lparr>w_heap := new_children ?H ?b v (map addr ts)\<rparr>"
    using NewChildren_at [of m1 h v q "length ?xs"] m1(2) small(1) TreeNodeImpl.prems(1) by auto
  let ?as = "map addr ts" and ?vs = "map tn_view ?xs"
  let ?R = "\<lambda>s H'. \<exists>m'. s = (m', h) \<and> wld m' = (wld m)\<lparr>w_heap := H'\<rparr>"
  let ?body = "\<lambda>i. with_child (gcp_ops mem) i (copyTree (gcp_ops mem) (?xs ! i))"
  have b: "?b \<in> dom ?H" using TreeNodeImpl.prems(1) by blast
  have step: "\<exists>s' H''. ?body i s = Inr s' \<and> ?R s' H'' \<and> built H' (?as ! i) (?vs ! i) H''"
    if i: "i < length ?as" and R: "?R s H'" and U: "built_upto (new_children ?H ?b v ?as) ?as ?vs i H'" for i s H'
  proof -
    obtain m' where s: "s = (m', h)" "wld m' = (wld m)\<lparr>w_heap := H'\<rparr>" using R by blast
    note new = built_upto_new [OF U b ts(4,3)]
    have mem: "?xs ! i \<in> set ?xs" using i ts(2) by (intro nth_mem) simp
    then obtain k' where k': "k = Suc k'" "vlow k' (tn_view (?xs ! i))"
      using TreeNodeImpl.prems(2) by (cases k) auto
    obtain c where c: "gcp_Child mem (m', h) i = Inr (m', c)" "addr c = ?as ! i" "lim h - 1 \<le> lim c"
      using Child_at [of m' h v ?as i] new(1) s(2) TreeNodeImpl.prems(3) i by auto
    have "k' < lim c" using c(3) k'(1) TreeNodeImpl.prems(3) by linarith
    then obtain m'' H'' where "copyTree (gcp_ops mem) (?xs ! i) (m', c) = Inr (m'', c)"
        "wld m'' = (wld m')\<lparr>w_heap := H''\<rparr>" "built H' (addr c) (tn_view (?xs ! i)) H''"
      using TreeNodeImpl.IH [of "?xs ! i" m' c 0 CNull k'] mem new(2) s(2) c(2) k'(2) small(2) i
      by (auto dest: in_set_takeD)
    with s c(1,2) i ts(2) show ?thesis by (auto simp: with_child_def gcp_ops_def)
  qed
  have len: "length ?vs = length ?as" and start: "?R (m2, h) (new_children ?H ?b v ?as)"
    using ts(2,5) by simp_all
  have "\<exists>s H3. fold_result ?body [0..<length ?as] (m2, h) = Inr s \<and> ?R s H3 \<and> built ?H ?b (VT v ?vs) H3"
    by (rule fold_result_built [where R = ?R, OF b ts(3,4) len step start])
  then obtain m3 H3 where m3: "fold_result ?body [0..<length ?as] (m2, h) = Inr (m3, h)"
      "wld m3 = (wld m)\<lparr>w_heap := H3\<rparr>" "built ?H ?b (VT v ?vs) H3" by blast
  have "op_SetValue (gcp_ops mem) v (m, h) = Inr (m1, h)"
      "op_InitChildren (gcp_ops mem) (length ?xs) (m1, h) = Inr (m2, h)"
    using m1(1) ts(1) by (simp_all add: gcp_ops_def gcp_SetValue_def gcp_InitChildren_def)
  then have "copyTree (gcp_ops mem) (TreeNodeImpl v n cs) (m, h) = Inr (m3, h)"
    using m3(1) ts(2) by (simp add: fold_result_enumerate)
  with m3(2,3) show ?case by auto
qed

end


section \<open>The handlers\<close>

definition gcp_view ::
  "('m \<Rightarrow> 'c world) \<Rightarrow> ('h \<Rightarrow> nat) \<Rightarrow> ('h \<Rightarrow> nat) \<Rightarrow> 'm \<times> 'h \<Rightarrow> vtree" where
  "gcp_view wld addr lim t = (case t of (m, h) \<Rightarrow> read_vt (lim h) (w_heap (wld m)) (addr h))"

definition gcp_tree_ok ::
  "('m \<Rightarrow> 'c world) \<Rightarrow> ('h \<Rightarrow> nat) \<Rightarrow> ('h \<Rightarrow> nat) \<Rightarrow> 'm \<times> 'h \<Rightarrow> bool" where
  "gcp_tree_ok wld addr lim t \<longleftrightarrow>
     (\<exists>x k. tree_cv (cvalue x) \<and> holds (w_heap (wld (fst t))) x \<and> root x = addr (snd t) \<and>
        vlow k (avt x) \<and> k < lim (snd t))"

context capnp_memory
begin

lemma gcp_view_eq:
  assumes "holds (w_heap (wld m)) x" "root x = addr h" "vlow k (avt x)" "k < lim h"
  shows "gcp_view wld addr lim (m, h) = avt x"
  using read_vt_tree [OF assms(1,3,4)] assms(2) by (simp add: gcp_view_def)

lemma gcp_reader: "tree_reader (gcp_ops mem) (gcp_view wld addr lim) (gcp_tree_ok wld addr lim)"
proof unfold_locales
  fix t assume ok: "gcp_tree_ok wld addr lim t"
  obtain m h where t: "t = (m, h)" by (cases t)
  obtain x k where x: "tree_cv (cvalue x)" "holds (w_heap (wld m)) x" "root x = addr h"
      "vlow k (avt x)" "k < lim h"
    using ok t by (auto simp: gcp_tree_ok_def)
  from x(1) obtain a v p where eq: "x = AV a [v] [p]" "listy p" "\<forall>y \<in> set (elems p). tree_cv (cvalue y)"
    by (rule tree_cvE)
  have at: "w_heap (wld m) (addr h) = Some ([v], [map_cptr root p])" using x(2,3) eq by simp
  obtain hs where hs: "TreeNode_Children mem m h = Inr hs" "map addr hs = map root (elems p)"
      "\<forall>h' \<in> set hs. lim h - 1 \<le> lim h'"
    using Children_at [OF at] eq(2) x(5) by auto
  have view: "gcp_view wld addr lim t = VT v (map (\<lambda>y. avt y) (elems p))"
    using gcp_view_eq [OF x(2-5)] t eq(1) by (simp add: o_def)
  show "op_GetValue (gcp_ops mem) t = vvalue (gcp_view wld addr lim t)"
    using t view Value_at [OF at] by (simp add: gcp_ops_def gcp_GetValue_def)
  show "op_ChildrenCount (gcp_ops mem) t = Inr (length (vchildren (gcp_view wld addr lim t)))"
    using t view hs(1) arg_cong [OF hs(2), of length] by (simp add: gcp_ops_def gcp_ChildrenCount_def)
  fix i assume "i < length (vchildren (gcp_view wld addr lim t))"
  then have i: "i < length (elems p)" "i < length hs" using view arg_cong [OF hs(2), of length] by simp_all
  let ?y = "elems p ! i"
  have y: "?y \<in> set (all_elems [p])" using nth_mem [OF i(1)] by simp
  obtain k' where k': "k = Suc k'" "vlow k' (avt ?y)"
    using vlow_child [OF x(4) [unfolded eq(1)] y] by blast
  have "lim h - 1 \<le> lim (hs ! i)" using hs(3) i(2) by simp
  then have "k' < lim (hs ! i)" using k'(1) x(5) by linarith
  moreover have "root ?y = addr (hs ! i)" using hs(2) i by (metis nth_map)
  moreover have "holds (w_heap (wld m)) ?y" "tree_cv (cvalue ?y)" using x(2) eq y by auto
  ultimately have "gcp_tree_ok wld addr lim (m, hs ! i)" "gcp_view wld addr lim (m, hs ! i) = avt ?y"
    using k'(2) gcp_view_eq [of m ?y "hs ! i" k'] by (auto simp: gcp_tree_ok_def)
  then show "\<exists>c. op_Child (gcp_ops mem) t i = Inr c \<and> gcp_tree_ok wld addr lim c \<and>
      gcp_view wld addr lim c = vchildren (gcp_view wld addr lim t) ! i"
    using t hs(1) i view by (auto simp: gcp_ops_def gcp_Child_def list_at_def)
qed

lemma srv_Add_ok:
  assumes "stored (w_heap (wld m)) (addr (cm_Args mem c)) (CV [a, b] [])" "w_results (wld m) c = None"
  shows "\<exists>m' r. gcp_srv_Add mem c m = Some (None, m') \<and> w_up (wld m') = w_up (wld m) \<and>
    w_results (wld m') c = Some r \<and> stored (w_heap (wld m')) r (CV [a + b] [])"
proof -
  have args: "w_heap (wld m) (addr (cm_Args mem c)) = Some ([a, b], [])"
    using assms(1) by (simp add: stored_flat)
  obtain h m1 where m1: "cm_AllocResults mem c (8, 0) m = (Inr h, m1)" "addr h \<notin> dom (w_heap (wld m))"
      "wld m1 = (wld m)\<lparr>w_heap := (w_heap (wld m))(addr h \<mapsto> ([0], [])),
        w_results := (w_results (wld m))(c \<mapsto> addr h)\<rparr>"
    using alloc_results [OF assms(2), of "(8, 0)"] by (auto simp: zero_obj_def)
  have ne: "addr (cm_Args mem c) \<noteq> addr h" using args m1(2) by auto
  have "API_add_Params_A mem m1 (cm_Args mem c) = a" "API_add_Params_B mem m1 (cm_Args mem c) = b"
    using uint64 [of m1 "cm_Args mem c" "[a, b]" "[]" 0] uint64 [of m1 "cm_Args mem c" "[a, b]" "[]" 1]
      m1(3) args ne by (simp_all add: API_add_Params_A_def API_add_Params_B_def)
  moreover obtain m2 where m2: "API_add_Results_SetRes mem h (a + b) m1 = Inr m2"
      "wld m2 = (wld m1)\<lparr>w_heap := (w_heap (wld m1))(addr h \<mapsto> ([a + b], []))\<rparr>"
    using set_uint64 [of m1 h "[0]" "[]" 0 "a + b"] m1(3) by (auto simp: API_add_Results_SetRes_def)
  ultimately have "gcp_srv_Add mem c m = Some (None, m2)"
    using m1(1) by (simp add: gcp_srv_Add_def API_add_AllocResults_def)
  with m1(3) m2(2) show ?thesis by (auto simp: stored_flat)
qed

lemma srv_ToHex_ok:
  assumes "stored (w_heap (wld m)) (addr (cm_Args mem c)) (CV [] [CData p])" "w_results (wld m) c = None"
    and "0 < lim (cm_Args mem c)" "2 * length p < 2 ^ 29"
  shows "\<exists>m' r. gcp_srv_ToHex mem c m = Some (None, m') \<and> w_up (wld m') = w_up (wld m) \<and>
    w_results (wld m') c = Some r \<and> stored (w_heap (wld m')) r (CV [] [CData (hex_encode p)])"
proof -
  have args: "w_heap (wld m) (addr (cm_Args mem c)) = Some ([], [CData p])"
    using assms(1) by (simp add: stored_data)
  obtain q where "cm_Ptr mem m (cm_Args mem c) 0 = Inr q" "map_cptr addr q = CData p"
    using ptr [OF args _ assms(3), of 0] by auto
  then have inp: "API_toHex_Params_In mem m (cm_Args mem c) = Inr p"
    by (cases q) (auto simp: API_toHex_Params_In_def ptr_Data_def)
  obtain h m1 where m1: "cm_AllocResults mem c (0, 1) m = (Inr h, m1)"
      "wld m1 = (wld m)\<lparr>w_heap := (w_heap (wld m))(addr h \<mapsto> ([], [CNull])),
        w_results := (w_results (wld m))(c \<mapsto> addr h)\<rparr>"
    using alloc_results [OF assms(2), of "(0, 1)"] by (auto simp: zero_obj_def)
  obtain m2 where m2: "cm_SetData mem h 0 (hex_encode p) m1 = (None, m2)"
      "wld m2 = (wld m1)\<lparr>w_heap := (w_heap (wld m1))(addr h \<mapsto> ([], [CData (hex_encode p)]))\<rparr>"
    using set_data [of m1 h "[]" "[CNull]" 0 "hex_encode p"] m1(2) assms(4) by auto
  have "gcp_srv_ToHex mem c m = Some (None, m2)"
    using inp m1(1) m2(1)
    by (simp add: gcp_srv_ToHex_def API_toHex_AllocResults_def API_toHex_Results_SetOut_def)
  with m1(2) m2(2) show ?thesis by (auto simp: stored_data)
qed

end


context capnp_memory
begin

lemma NewTree_at:
  assumes "w_heap (wld m) (addr s) = Some (d, [p])"
  shows "\<exists>h m'. API_multTree_Params_NewTree mem s m = (Inr h, m') \<and>
      API_multTree_Results_NewRes mem s m = (Inr h, m') \<and>
      addr h \<notin> dom (w_heap (wld m)) \<and> lmax \<le> lim h \<and>
      wld m' = (wld m)\<lparr>w_heap := (w_heap (wld m))(addr h \<mapsto> ([0], [CNull]),
                                               addr s \<mapsto> (d, [CStruct (addr h)]))\<rparr>"
proof -
  obtain h m1 m2 where "cm_NewStruct mem s (8, 1) m = (Inr h, m1)" "cm_SetPtr mem s 0 (CStruct h) m1 = (None, m2)"
      "addr h \<notin> dom (w_heap (wld m))" "lmax \<le> lim h"
      "wld m2 = (wld m)\<lparr>w_heap := (w_heap (wld m))(addr h \<mapsto> ([0], [CNull]),
                                               addr s \<mapsto> (d, [CStruct (addr h)]))\<rparr>"
    using new_struct [OF assms, of 0 "(8, 1)"] by auto
  then show ?thesis
    by (simp add: API_multTree_Params_NewTree_def API_multTree_Results_NewRes_def capnp_NewTreeNode_def)
qed

lemma PtrStruct_at:
  assumes "w_heap (wld m) (addr s) = Some (d, [CStruct a])" "0 < lim s"
  shows "\<exists>h. cm_Ptr mem m s 0 = Inr (CStruct h) \<and> addr h = a \<and> lim s - 1 \<le> lim h"
proof -
  obtain q where "cm_Ptr mem m s 0 = Inr q" "map_cptr addr q = CStruct a" "\<forall>h' \<in> set_cptr q. lim s - 1 \<le> lim h'"
    using ptr [OF assms(1) _ assms(2), of 0] by auto
  then show ?thesis by (cases q) auto
qed

lemma srv_MultTree_ok:
  assumes "stored (w_heap (wld m)) (addr (cm_Args mem c)) (CV [mult] [CStruct t])" "tree_cv t"
    and "w_results (wld m) c = None" "vlow k (vt_of t)" "Suc k < lim (cm_Args mem c)" "vnodes (vt_of t) < 2 ^ 28"
  shows "\<exists>m' r t'. gcp_srv_MultTree mem c m = Some (None, m') \<and> w_up (wld m') = w_up (wld m) \<and>
    w_results (wld m') c = Some r \<and> stored (w_heap (wld m')) r (CV [] [CStruct t']) \<and>
    tree_cv t' \<and> vt_of t' = vmult mult (vt_of t)"
proof -
  let ?A = "cm_Args mem c" and ?H = "w_heap (wld m)"
  obtain x where x: "cvalue x = t" "?H (addr ?A) = Some ([mult], [CStruct (root x)])" "holds ?H x"
      "distinct (addrs x)" "addr ?A \<notin> set (addrs x)"
    using assms(1) by (auto simp: stored_struct)
  obtain h where h: "cm_Ptr mem m ?A 0 = Inr (CStruct h)" "addr h = root x" "lim ?A - 1 \<le> lim h"
    using PtrStruct_at [OF x(2)] assms(5) by auto
  have lim: "k < lim h" using h(3) assms(5) by linarith
  have mult: "API_multTree_Params_Mult mem m ?A = mult"
    using uint64 [OF x(2), of 0] by (simp add: API_multTree_Params_Mult_def)
  let ?y = "amult mult x"
  obtain m1 H1 where m1: "gcp_multTree mem mult h m = Some (None, m1)" "wld m1 = (wld m)\<lparr>w_heap := H1\<rparr>"
      "holds H1 ?y"
    using multTree_in_place [OF x(3) _ x(4), of h k mult] assms(2,4) x(1) h(2) lim by auto
  obtain r m2 where m2: "cm_AllocResults mem c (0, 1) m1 = (Inr r, m2)" "addr r \<notin> dom H1"
      "wld m2 = (wld m)\<lparr>w_heap := H1(addr r \<mapsto> ([], [CNull])), w_results := (w_results (wld m))(c \<mapsto> addr r)\<rparr>"
    using alloc_results [of m1 c "(0, 1)"] m1(2) assms(3) by (auto simp: zero_obj_def)
  obtain g m3 where m3: "API_multTree_Results_NewRes mem r m2 = (Inr g, m3)"
      "addr g \<notin> dom (H1(addr r \<mapsto> ([], [CNull])))"
      "wld m3 = (wld m2)\<lparr>w_heap := H1(addr r \<mapsto> ([], [CNull]), addr g \<mapsto> ([0], [CNull]),
                                     addr r \<mapsto> ([], [CStruct (addr g)]))\<rparr>"
    using NewTree_at [of m2 r "[]" CNull] m2(3) by auto
  let ?H3 = "w_heap (wld m3)"
  have fresh: "addr r \<notin> set (addrs ?y)" "addr g \<notin> set (addrs ?y)" "addr g \<noteq> addr r"
    using holds_addrs [OF m1(3)] m2(2) m3(2) by auto
  then have "holds ?H3 ?y = holds H1 ?y" using m3(3) by (intro holds_cong) auto
  moreover have y: "tree_cv (cvalue ?y)" "avt ?y = vmult mult (vt_of t)"
    using tree_amult [of x mult] assms(2) x(1) by simp_all
  moreover have "vlow k (avt ?y)" "vnodes (avt ?y) < 2 ^ 28"
    using assms(4,6) y(2) vlow_vmult vnodes_vmult by simp_all
  ultimately obtain m4 H4 where m4: "gcp_copyTree mem h g m3 = Some (None, m4)"
      "wld m4 = (wld m3)\<lparr>w_heap := H4\<rparr>" "built ?H3 (addr g) (avt ?y) H4"
    using gcp_copyTree_built [of m3 ?y h k g 0 CNull] m1(3) h(2) lim fresh m3(3) by auto
  obtain t' where t': "stored H4 (addr r) (CV [] [CStruct t'])" "tree_cv t'" "vt_of t' = avt ?y"
    using built_below [OF m4(3), of "addr r" "[]"] m3(3) fresh(3) by auto
  have "gcp_srv_MultTree mem c m = Some (None, m4)"
    using h(1) mult m1(1) m2(1) m3(1) m4(1)
    by (simp add: gcp_srv_MultTree_def API_multTree_Params_Tree_def ptr_Struct_def API_multTree_AllocResults_def)
  with t' y(2) m2(3) m3(3) m4(2) show ?thesis by auto
qed

end


section \<open>The client over a connection to this server\<close>

definition gcp_start ::
  "('m \<Rightarrow> 'c world) \<Rightarrow> ('h \<Rightarrow> nat) \<Rightarrow> ('h \<Rightarrow> nat) \<Rightarrow> nat \<Rightarrow> 'm \<times> 'h \<Rightarrow> bool" where
  "gcp_start wld addr lim lmax t \<longleftrightarrow>
     (\<exists>w q. w_heap (wld (fst t)) (addr (snd t)) = Some ([w], [q])) \<and> lmax \<le> lim (snd t)"

definition gcp_filled ::
  "('m \<Rightarrow> 'c world) \<Rightarrow> ('h \<Rightarrow> nat) \<Rightarrow> 'm \<times> 'h \<Rightarrow> 'm \<times> 'h \<Rightarrow> vtree \<Rightarrow> bool" where
  "gcp_filled wld addr t t' vt \<longleftrightarrow>
     snd t' = snd t \<and>
     (\<exists>H'. wld (fst t') = (wld (fst t))\<lparr>w_heap := H'\<rparr> \<and>
        built (w_heap (wld (fst t))) (addr (snd t)) vt H')"

text \<open>The arguments of a \<open>MultTree\<close> call: the multiplier and the tree the caller fills in.\<close>

definition mult_args :: "int64 \<Rightarrow> vtree \<Rightarrow> cval \<Rightarrow> bool" where
  "mult_args mult vt v \<longleftrightarrow> (\<exists>t. v = CV [mult] [CStruct t] \<and> tree_cv t \<and> vt_of t = vt)"

lemma API_Methods_lookup [simp]:
  "map_of (API_Methods mem) (api_method 0) = Some gcp_srv_Nop"
  "map_of (API_Methods mem) (api_method 1) = Some (gcp_srv_Add mem)"
  "map_of (API_Methods mem) (api_method 2) = Some (gcp_srv_MultTree mem)"
  "map_of (API_Methods mem) (api_method 3) = Some (gcp_srv_ToHex mem)"
  by (simp_all add: API_Methods_def api_method_def)

context capnp_memory
begin

lemma gcp_filler:
  assumes "l < lmax" "n < 2 ^ 28"
  shows "tree_filler (gcp_ops mem) (gcp_start wld addr lim lmax) (gcp_filled wld addr) n l"
proof unfold_locales
  fix "to" and "from" :: TreeNodeImpl
  assume start: "gcp_start wld addr lim lmax to" and within: "vwithin n l (tn_view from)"
  obtain m h where t: "to = (m, h)" by (cases "to")
  obtain w q where "w_heap (wld m) (addr h) = Some ([w], [q])" "l < lim h"
    using start t assms(1) by (auto simp: gcp_start_def)
  with within assms(2) copyTree_built [of m h w q l "from"] t
  show "\<exists>to'. copyTree (gcp_ops mem) from to = Inr to' \<and> gcp_filled wld addr to to' (tn_view from)"
    by (auto simp: vwithin_def gcp_filled_def)
qed

end

context capnp_connection
begin

lemma gcp_Nop_ok:
  assumes "w_up (wld m)"
  shows "\<exists>m'. gcp_Nop conn m = (None, m') \<and> w_up (wld m')"
proof -
  obtain f m3 where f: "cc_SendCall conn (api_method 0) None m = (f, m3)"
      "capnp_serves mem conn wld addr lim lmax max_size (api_method 0) (CV [] []) f m3"
    using send_call_no_args [OF assms, of "api_method 0"] by blast
  then obtain c m4 where "w_up (wld m4)"
      "\<forall>impl err m5. map_of (API_Methods mem) (api_method 0) = Some impl \<longrightarrow> impl c m4 = Some (err, m5) \<longrightarrow>
         w_up (wld m5) \<longrightarrow> capnp_returns conn wld addr lim lmax max_size f m3 c err m5"
    unfolding capnp_serves_def by blast
  then have "capnp_returns conn wld addr lim lmax max_size f m3 c None m4"
    by (simp add: gcp_srv_Nop_def)
  then obtain m6 where "cc_Done conn f m3 = (None, m6)" "w_up (wld m6)"
    unfolding capnp_returns_def by blast
  with f(1) release show ?thesis by (auto simp: gcp_Nop_def API_Nop_def)
qed

text \<open>
  A call with arguments, once its handler is known: the future gives the value of the
  results.
\<close>

lemma served:
  assumes serves: "capnp_serves mem conn wld addr lim lmax max_size meth v f m3"
    and "map_of (API_Methods mem) meth = Some impl"
    and handler: "\<And>c m4. stored (w_heap (wld m4)) (addr (cm_Args mem c)) v \<Longrightarrow> w_results (wld m4) c = None \<Longrightarrow>
      lmax \<le> lim (cm_Args mem c) \<Longrightarrow>
      \<exists>m5 r w. impl c m4 = Some (None, m5) \<and> w_up (wld m5) = w_up (wld m4) \<and>
        w_results (wld m5) c = Some r \<and> stored (w_heap (wld m5)) r w \<and> csize w \<le> max_size \<and> P w"
  shows "\<exists>h m6 w. Future_Struct mem conn f m3 = (Inr h, m6) \<and> stored (w_heap (wld m6)) (addr h) w \<and>
    P w \<and> lmax \<le> lim h \<and> w_up (wld m6)"
proof -
  obtain c m4 where c: "w_up (wld m4)" "w_results (wld m4) c = None"
      "stored (w_heap (wld m4)) (addr (cm_Args mem c)) v" "lmax \<le> lim (cm_Args mem c)"
      "\<forall>impl err m5. map_of (API_Methods mem) meth = Some impl \<longrightarrow> impl c m4 = Some (err, m5) \<longrightarrow>
         w_up (wld m5) \<longrightarrow> capnp_returns conn wld addr lim lmax max_size f m3 c err m5"
    using serves unfolding capnp_serves_def by blast
  obtain m5 r w where r: "impl c m4 = Some (None, m5)" "w_up (wld m5) = w_up (wld m4)"
      "w_results (wld m5) c = Some r" "stored (w_heap (wld m5)) r w" "csize w \<le> max_size" "P w"
    using handler [OF c(3,2,4)] by blast
  have "capnp_returns conn wld addr lim lmax max_size f m3 c None m5"
    using c(1,5) r(1,2) assms(2) by blast
  with r(3-5) obtain h m6 where "cc_Ptr conn f m3 = (Inr (CStruct h), m6)"
      "stored (w_heap (wld m6)) (addr h) w" "lmax \<le> lim h" "w_up (wld m6)"
    unfolding capnp_returns_def option.case by blast
  with r(6) show ?thesis by (auto simp: Future_Struct_def ptr_Struct_def)
qed

text \<open>A whole call: what the placed arguments are, and what the handler makes of them.\<close>

lemma call_ok:
  assumes "w_up (wld m)"
    and place: "\<And>a m1. addr a \<notin> dom (w_heap (wld m)) \<Longrightarrow> lmax \<le> lim a \<Longrightarrow>
      wld m1 = (wld m)\<lparr>w_heap := (w_heap (wld m))(addr a \<mapsto> zero_obj (fst sz div 8, snd sz))\<rparr> \<Longrightarrow>
      \<exists>m2 v. place a m1 = Inr m2 \<and> w_up (wld m2) \<and> stored (w_heap (wld m2)) (addr a) v \<and>
        csize v \<le> max_size \<and> Q v"
    and impl: "map_of (API_Methods mem) meth = Some impl"
    and handler: "\<And>c m4 v. stored (w_heap (wld m4)) (addr (cm_Args mem c)) v \<Longrightarrow> Q v \<Longrightarrow>
      w_results (wld m4) c = None \<Longrightarrow> lmax \<le> lim (cm_Args mem c) \<Longrightarrow>
      \<exists>m5 r w. impl c m4 = Some (None, m5) \<and> w_up (wld m5) = w_up (wld m4) \<and>
        w_results (wld m5) c = Some r \<and> stored (w_heap (wld m5)) r w \<and> csize w \<le> max_size \<and> P w"
  shows "\<exists>f m3 h m6 w. cc_SendCall conn meth (Some (sz, place)) m = (f, m3) \<and>
    Future_Struct mem conn f m3 = (Inr h, m6) \<and> stored (w_heap (wld m6)) (addr h) w \<and> P w \<and>
    lmax \<le> lim h \<and> w_up (wld m6)"
proof -
  obtain a m1 where a: "addr a \<notin> dom (w_heap (wld m))" "lmax \<le> lim a"
      "wld m1 = (wld m)\<lparr>w_heap := (w_heap (wld m))(addr a \<mapsto> zero_obj (fst sz div 8, snd sz))\<rparr>"
    and send: "\<forall>m2 v. place a m1 = Inr m2 \<longrightarrow> w_up (wld m2) \<longrightarrow> stored (w_heap (wld m2)) (addr a) v \<longrightarrow>
           csize v \<le> max_size \<longrightarrow>
           (\<exists>f m3. cc_SendCall conn meth (Some (sz, place)) m = (f, m3) \<and>
              capnp_serves mem conn wld addr lim lmax max_size meth v f m3)"
    using send_call [OF assms(1), of sz place meth] by blast
  obtain m2 v where v: "place a m1 = Inr m2" "w_up (wld m2)" "stored (w_heap (wld m2)) (addr a) v"
      "csize v \<le> max_size" "Q v"
    using place [OF a] by blast
  obtain f m3 where f: "cc_SendCall conn meth (Some (sz, place)) m = (f, m3)"
      "capnp_serves mem conn wld addr lim lmax max_size meth v f m3"
    using send v(1-4) by blast
  have "\<exists>h m6 w. Future_Struct mem conn f m3 = (Inr h, m6) \<and> stored (w_heap (wld m6)) (addr h) w \<and>
      P w \<and> lmax \<le> lim h \<and> w_up (wld m6)"
    using f(2) impl by (rule served) (use handler v(5) in blast)
  with f(1) show ?thesis by blast
qed

lemma gcp_Add_ok:
  assumes "w_up (wld m)" "1 \<le> max_size"
  shows "\<exists>m'. gcp_Add mem conn m a b = (Inr (a + b), m') \<and> w_up (wld m')"
proof -
  let ?place = "\<lambda>args m. bind_result (API_add_Params_SetA mem args a m) (API_add_Params_SetB mem args b)"
  have place: "\<exists>m2 v. ?place h m1 = Inr m2 \<and> w_up (wld m2) \<and> stored (w_heap (wld m2)) (addr h) v \<and>
      csize v \<le> max_size \<and> v = CV [a, b] []"
    if m1: "wld m1 = (wld m)\<lparr>w_heap := (w_heap (wld m))(addr h \<mapsto> ([0, 0], []))\<rparr>" for h m1
  proof -
    obtain n1 where n1: "API_add_Params_SetA mem h a m1 = Inr n1"
        "wld n1 = (wld m)\<lparr>w_heap := (w_heap (wld m))(addr h \<mapsto> ([a, 0], []))\<rparr>"
      using set_uint64 [of m1 h "[0, 0]" "[]" 0 a] m1 by (auto simp: API_add_Params_SetA_def)
    obtain n2 where n2: "API_add_Params_SetB mem h b n1 = Inr n2"
        "wld n2 = (wld m)\<lparr>w_heap := (w_heap (wld m))(addr h \<mapsto> ([a, b], []))\<rparr>"
      using set_uint64 [of n1 h "[a, 0]" "[]" 1 b] n1 by (auto simp: API_add_Params_SetB_def)
    with n1 assms show ?thesis by (auto simp: stored_flat)
  qed
  have "\<exists>f m3 r m6 w. cc_SendCall conn (api_method 1) (Some ((16, 0), ?place)) m = (f, m3) \<and>
      Future_Struct mem conn f m3 = (Inr r, m6) \<and> stored (w_heap (wld m6)) (addr r) w \<and>
      w = CV [a + b] [] \<and> lmax \<le> lim r \<and> w_up (wld m6)"
  proof (rule call_ok [where Q = "\<lambda>v. v = CV [a, b] []" and impl = "gcp_srv_Add mem"])
    fix c m4 v
    assume "stored (w_heap (wld m4)) (addr (cm_Args mem c)) v" "v = CV [a, b] []" "w_results (wld m4) c = None"
    then show "\<exists>m5 r w. gcp_srv_Add mem c m4 = Some (None, m5) \<and> w_up (wld m5) = w_up (wld m4) \<and>
        w_results (wld m5) c = Some r \<and> stored (w_heap (wld m5)) r w \<and> csize w \<le> max_size \<and> w = CV [a + b] []"
      using srv_Add_ok [of m4 c a b] assms(2) by auto
  qed (use place assms in \<open>simp_all add: zero_obj_def numeral_2_eq_2\<close>)
  then obtain f m3 r m6 where f: "cc_SendCall conn (api_method 1) (Some ((16, 0), ?place)) m = (f, m3)"
      "Future_Struct mem conn f m3 = (Inr r, m6)" "w_heap (wld m6) (addr r) = Some ([a + b], [])"
      "w_up (wld m6)"
    by (auto simp: stored_flat)
  with uint64 [OF f(3), of 0] release show ?thesis
    by (auto simp: gcp_Add_def API_Add_def API_add_Results_Res_def)
qed

end


context capnp_connection
begin

lemma gcp_ToHex_ok:
  assumes "w_up (wld m)" "0 < lmax" "2 * length p < 2 ^ 29" "Suc (2 * length p) \<le> max_size"
    and "length q = 2 * length p"
  shows "\<exists>m'. gcp_ToHex mem conn m p q = (None, hex_encode p, m') \<and> w_up (wld m')"
proof -
  let ?place = "\<lambda>args m. Inr (snd (API_toHex_Params_SetIn mem args p m))"
  have place: "\<exists>m2 v. ?place h m1 = Inr m2 \<and> w_up (wld m2) \<and> stored (w_heap (wld m2)) (addr h) v \<and>
      csize v \<le> max_size \<and> v = CV [] [CData p]"
    if m1: "wld m1 = (wld m)\<lparr>w_heap := (w_heap (wld m))(addr h \<mapsto> ([], [CNull]))\<rparr>" for h m1
  proof -
    obtain n1 where "API_toHex_Params_SetIn mem h p m1 = (None, n1)"
        "wld n1 = (wld m)\<lparr>w_heap := (w_heap (wld m))(addr h \<mapsto> ([], [CData p]))\<rparr>"
      using set_data [of m1 h "[]" "[CNull]" 0 p] m1 assms(3) by (auto simp: API_toHex_Params_SetIn_def)
    with assms show ?thesis by (auto simp: stored_data)
  qed
  have "\<exists>f m3 r m6 w. cc_SendCall conn (api_method 3) (Some ((0, 1), ?place)) m = (f, m3) \<and>
      Future_Struct mem conn f m3 = (Inr r, m6) \<and> stored (w_heap (wld m6)) (addr r) w \<and>
      w = CV [] [CData (hex_encode p)] \<and> lmax \<le> lim r \<and> w_up (wld m6)"
  proof (rule call_ok [where Q = "\<lambda>v. v = CV [] [CData p]" and impl = "gcp_srv_ToHex mem"])
    fix c m4 v
    assume "stored (w_heap (wld m4)) (addr (cm_Args mem c)) v" "v = CV [] [CData p]"
      "w_results (wld m4) c = None" "lmax \<le> lim (cm_Args mem c)"
    then show "\<exists>m5 r w. gcp_srv_ToHex mem c m4 = Some (None, m5) \<and> w_up (wld m5) = w_up (wld m4) \<and>
        w_results (wld m5) c = Some r \<and> stored (w_heap (wld m5)) r w \<and> csize w \<le> max_size \<and>
        w = CV [] [CData (hex_encode p)]"
      using srv_ToHex_ok [of m4 c p] assms(2-4) by auto
  qed (use place assms in \<open>simp_all add: zero_obj_def\<close>)
  then obtain f m3 r m6 where f: "cc_SendCall conn (api_method 3) (Some ((0, 1), ?place)) m = (f, m3)"
      "Future_Struct mem conn f m3 = (Inr r, m6)"
      "w_heap (wld m6) (addr r) = Some ([], [CData (hex_encode p)])" "lmax \<le> lim r" "w_up (wld m6)"
    by (auto simp: stored_data)
  obtain d where "cm_Ptr mem m6 r 0 = Inr d" "map_cptr addr d = CData (hex_encode p)"
    using ptr [OF f(3), of 0] f(4) assms(2) by auto
  then have "API_toHex_Results_Out mem m6 r = Inr (hex_encode p)"
    by (cases d) (auto simp: API_toHex_Results_Out_def ptr_Data_def)
  with f assms(5) release show ?thesis
    by (auto simp: gcp_ToHex_def API_ToHex_def)
qed

lemma place_tree:
  assumes "w_up (wld m)" and fill: "\<And>t. gcp_start wld addr lim lmax t \<Longrightarrow>
      \<exists>t'. fill t = Inr t' \<and> gcp_filled wld addr t t' vt"
    and "vnodes vt \<le> n" "Suc n \<le> max_size"
    and m1: "wld m1 = (wld m)\<lparr>w_heap := (w_heap (wld m))(addr h \<mapsto> ([0], [CNull]))\<rparr>"
  shows "\<exists>m2 v. bind_result (API_multTree_Params_SetMult mem h mult m1) (\<lambda>m1.
      case API_multTree_Params_NewTree mem h m1 of
        (Inl e, m2) \<Rightarrow> Inl e
      | (Inr tree, m2) \<Rightarrow> bind_result (fill (m2, tree)) (\<lambda>(m3, _). Inr m3)) = Inr m2 \<and>
    w_up (wld m2) \<and> stored (w_heap (wld m2)) (addr h) v \<and> csize v \<le> max_size \<and> mult_args mult vt v"
proof -
  obtain n1 where n1: "API_multTree_Params_SetMult mem h mult m1 = Inr n1"
      "wld n1 = (wld m)\<lparr>w_heap := (w_heap (wld m))(addr h \<mapsto> ([mult], [CNull]))\<rparr>"
    using set_uint64 [of m1 h "[0]" "[CNull]" 0 mult] m1 by (auto simp: API_multTree_Params_SetMult_def)
  obtain g n2 where n2: "API_multTree_Params_NewTree mem h n1 = (Inr g, n2)" "addr g \<noteq> addr h" "lmax \<le> lim g"
      "wld n2 = (wld n1)\<lparr>w_heap := (w_heap (wld n1))(addr g \<mapsto> ([0], [CNull]),
                                                    addr h \<mapsto> ([mult], [CStruct (addr g)]))\<rparr>"
    using NewTree_at [of n1 h "[mult]" CNull] n1(2) by auto
  then obtain t' where t': "fill (n2, g) = Inr t'" "gcp_filled wld addr (n2, g) t' vt"
    using fill [of "(n2, g)"] by (auto simp: gcp_start_def)
  then obtain H' where H': "wld (fst t') = (wld n2)\<lparr>w_heap := H'\<rparr>"
      "built (w_heap (wld n2)) (addr g) vt H'"
    by (auto simp: gcp_filled_def)
  obtain t where t: "stored H' (addr h) (CV [mult] [CStruct t])" "tree_cv t" "vt_of t = vt"
    using built_below [OF H'(2), of "addr h" "[mult]"] n2(2,4) by auto
  have "csize (CV [mult] [CStruct t]) \<le> max_size"
    using csize_tree [OF t(2)] t(3) assms(3,4) by simp
  with t show ?thesis
    using n1 n2(1,4) t'(1) H'(1) assms(1)
    by (intro exI [of _ "fst t'"] exI [of _ "CV [mult] [CStruct t]"])
      (simp add: mult_args_def split: prod.splits)
qed

lemma srv_MultTree_args:
  assumes "stored (w_heap (wld m)) (addr (cm_Args mem c)) v" "mult_args mult vt v"
    and "w_results (wld m) c = None" "lmax \<le> lim (cm_Args mem c)"
    and "vnodes vt \<le> n" "vlow l vt" "Suc l < lmax" "n < 2 ^ 28" "Suc n \<le> max_size"
  shows "\<exists>m' r w. gcp_srv_MultTree mem c m = Some (None, m') \<and> w_up (wld m') = w_up (wld m) \<and>
    w_results (wld m') c = Some r \<and> stored (w_heap (wld m')) r w \<and> csize w \<le> max_size \<and>
    (\<exists>t. w = CV [] [CStruct t] \<and> tree_cv t \<and> vt_of t = vmult mult vt)"
proof -
  obtain t where t: "v = CV [mult] [CStruct t]" "tree_cv t" "vt_of t = vt"
    using assms(2) by (auto simp: mult_args_def)
  obtain m' r t' where r: "gcp_srv_MultTree mem c m = Some (None, m')" "w_up (wld m') = w_up (wld m)"
      "w_results (wld m') c = Some r" "stored (w_heap (wld m')) r (CV [] [CStruct t'])" "tree_cv t'"
      "vt_of t' = vmult mult vt"
    using srv_MultTree_ok [of m c mult t l] assms t by auto
  then have "csize (CV [] [CStruct t']) \<le> max_size"
    using csize_tree [OF r(5)] vnodes_vmult [of mult vt] assms(5,9) by simp
  with r show ?thesis by blast
qed

lemma gcp_MultTreeValues_ok:
  assumes "w_up (wld m)" and fill: "\<And>t. gcp_start wld addr lim lmax t \<Longrightarrow>
      \<exists>t'. fill t = Inr t' \<and> gcp_filled wld addr t t' vt"
    and "vwithin n l vt" "Suc l < lmax" "n < 2 ^ 28" "Suc n \<le> max_size"
  shows "\<exists>res m'. gcp_MultTreeValues mem conn m mult fill = (Inr res, m') \<and>
    gcp_tree_ok wld addr lim res \<and> gcp_view wld addr lim res = vmult mult vt \<and> w_up (wld m')"
proof -
  let ?place = "\<lambda>args m. bind_result (API_multTree_Params_SetMult mem args mult m) (\<lambda>m1.
      case API_multTree_Params_NewTree mem args m1 of
        (Inl e, m2) \<Rightarrow> Inl e
      | (Inr tree, m2) \<Rightarrow> bind_result (fill (m2, tree)) (\<lambda>(m3, _). Inr m3))"
  have vt: "vnodes vt \<le> n" "vlow l vt" using assms(3) by (simp_all add: vwithin_def)
  have "\<exists>f m3 r m6 w. cc_SendCall conn (api_method 2) (Some ((8, 1), ?place)) m = (f, m3) \<and>
      Future_Struct mem conn f m3 = (Inr r, m6) \<and> stored (w_heap (wld m6)) (addr r) w \<and>
      (\<exists>t. w = CV [] [CStruct t] \<and> tree_cv t \<and> vt_of t = vmult mult vt) \<and> lmax \<le> lim r \<and> w_up (wld m6)"
  proof (rule call_ok [where Q = "mult_args mult vt" and impl = "gcp_srv_MultTree mem"])
    show "\<exists>m5 r w. gcp_srv_MultTree mem c m4 = Some (None, m5) \<and> w_up (wld m5) = w_up (wld m4) \<and>
        w_results (wld m5) c = Some r \<and> stored (w_heap (wld m5)) r w \<and> csize w \<le> max_size \<and>
        (\<exists>t. w = CV [] [CStruct t] \<and> tree_cv t \<and> vt_of t = vmult mult vt)"
      if "stored (w_heap (wld m4)) (addr (cm_Args mem c)) v" "mult_args mult vt v"
        "w_results (wld m4) c = None" "lmax \<le> lim (cm_Args mem c)" for c m4 v
      using that vt assms(4-6) by (rule srv_MultTree_args)
  qed (use place_tree [OF assms(1) fill vt(1) assms(6)] assms(1) in \<open>simp_all add: zero_obj_def\<close>)
  then obtain f m3 r m6 t where f: "cc_SendCall conn (api_method 2) (Some ((8, 1), ?place)) m = (f, m3)"
      "Future_Struct mem conn f m3 = (Inr r, m6)" "stored (w_heap (wld m6)) (addr r) (CV [] [CStruct t])"
      "tree_cv t" "vt_of t = vmult mult vt" "lmax \<le> lim r" "w_up (wld m6)"
    by auto
  obtain x where x: "cvalue x = t" "w_heap (wld m6) (addr r) = Some ([], [CStruct (root x)])"
      "holds (w_heap (wld m6)) x"
    using f(3) by (auto simp: stored_struct)
  obtain h where h: "cm_Ptr mem m6 r 0 = Inr (CStruct h)" "addr h = root x" "lim r - 1 \<le> lim h"
    using PtrStruct_at [OF x(2)] f(6) assms(4) by auto
  have lim: "l < lim h" using h(3) f(6) assms(4) by linarith
  have low: "vlow l (avt x)" using vt(2) f(5) x(1) by (simp add: vlow_vmult)
  have "gcp_tree_ok wld addr lim (m6, h)"
    using f(4) x h(2) low lim by (auto simp: gcp_tree_ok_def)
  moreover have "gcp_view wld addr lim (m6, h) = vmult mult vt"
    using gcp_view_eq [OF x(3) _ low lim] h(2) f(5) x(1) by simp
  moreover have "gcp_MultTreeValues mem conn m mult fill = (Inr (m6, h), m6)"
    using f(1,2) h(1)
    by (simp add: gcp_MultTreeValues_def API_MultTree_def API_multTree_Results_Res_def ptr_Struct_def)
  ultimately show ?thesis using f(7) by blast
qed

text \<open>\<open>Nop\<close>, \<open>Add\<close> and \<open>ToHex\<close> go down one pointer at most, so any limit is enough.\<close>

lemma gcp_rpc_calls:
  assumes "0 < lmax" "0 < max_size" "2 * k < 2 ^ 29" "Suc (2 * k) \<le> max_size"
  shows "rpc_calls (gcp_client_ops mem conn) (\<lambda>m. w_up (wld m)) k"
proof
  fix m a b assume up: "w_up (wld m)"
  show "\<exists>m'. cl_Nop (gcp_client_ops mem conn) m = (None, m') \<and> w_up (wld m')"
    using gcp_Nop_ok [OF up] by (simp add: gcp_client_ops_def)
  show "\<exists>m'. cl_Add (gcp_client_ops mem conn) m a b = (Inr (a + b), m') \<and> w_up (wld m')"
    using gcp_Add_ok [OF up] assms(2) by (simp add: gcp_client_ops_def)
next
  fix m and p q :: "byte list"
  assume "w_up (wld m)" "length p \<le> k" "length q = 2 * length p"
  then show "\<exists>m'. cl_ToHex (gcp_client_ops mem conn) m p q = (None, hex_encode p, m') \<and> w_up (wld m')"
    using gcp_ToHex_ok [of m p q] assms by (simp add: gcp_client_ops_def)
qed

lemma gcp_rpc_system:
  assumes "Suc l < lmax" "n < 2 ^ 28" "Suc n \<le> max_size" "2 * k < 2 ^ 29" "Suc (2 * k) \<le> max_size"
  shows "rpc_system (gcp_client_ops mem conn) (\<lambda>m. w_up (wld m))
    (gcp_ops mem) (gcp_start wld addr lim lmax) (gcp_filled wld addr)
    (gcp_ops mem) (gcp_view wld addr lim) (gcp_tree_ok wld addr lim) n l k"
proof -
  have calls: "rpc_calls (gcp_client_ops mem conn) (\<lambda>m. w_up (wld m)) k"
    using assms by (intro gcp_rpc_calls) simp_all
  show ?thesis
  proof (rule rpc_system.intro)
    show "tree_filler (gcp_ops mem) (gcp_start wld addr lim lmax) (gcp_filled wld addr) n l"
      using assms(1,2) by (intro gcp_filler) simp_all
    show "tree_reader (gcp_ops mem) (gcp_view wld addr lim) (gcp_tree_ok wld addr lim)"
      by (rule gcp_reader)
  next
    fix m vt mult and fill :: "'m \<times> 'h \<Rightarrow> ('m \<times> 'h) result"
    assume "w_up (wld m)" "vwithin n l vt"
      "\<And>t. gcp_start wld addr lim lmax t \<Longrightarrow> \<exists>t'. fill t = Inr t' \<and> gcp_filled wld addr t t' vt"
    then show "\<exists>res m'. cl_MultTreeValues (gcp_client_ops mem conn) m mult fill = (Inr res, m') \<and>
        gcp_tree_ok wld addr lim res \<and> gcp_view wld addr lim res = vmult mult vt \<and> w_up (wld m')"
      using gcp_MultTreeValues_ok [of m fill vt n l mult] assms by (simp add: gcp_client_ops_def)
  qed ((erule rpc_calls.nop [OF calls] rpc_calls.add [OF calls]) | (rule rpc_calls.to_hex [OF calls]; assumption))+
qed

end

end
