(* ===== verification/CapnpRef.thy ===== *)
theory CapnpRef
  imports Capnp
begin

text \<open>
  A message memory in which the laws of the two Cap'n Proto libraries hold: the structs are
  the elements of a list, an address is a position, and a new struct goes to the end. A
  value is copied from one message to another by reading it and laying it out again. The
  instances of the libraries in \<open>GoCapnpRef\<close> and \<open>MdCapnpRef\<close> are built on it.
\<close>

section \<open>Structs in a list\<close>

definition list_heap :: "cobj list \<Rightarrow> cheap" where
  "list_heap os a = (if a < length os then Some (os ! a) else None)"

lemma dom_list_heap [simp]: "dom (list_heap os) = {..<length os}"
  by (auto simp: list_heap_def split: if_splits)

lemma list_heap_SomeD: "list_heap os a = Some ob \<Longrightarrow> a < length os \<and> os ! a = ob"
  by (simp add: list_heap_def split: if_splits)

lemma list_heap_update: "a < length os \<Longrightarrow> list_heap (os[a := ob]) = (list_heap os)(a \<mapsto> ob)"
  by (auto simp: list_heap_def fun_eq_iff nth_list_update)

lemma list_heap_snoc: "list_heap (os @ [ob]) = (list_heap os)(length os \<mapsto> ob)"
  by (auto simp: list_heap_def fun_eq_iff nth_append)

lemma list_heap_replicate:
  "list_heap (os @ replicate n ob) =
     (\<lambda>a. if a \<in> {length os..<length os + n} then Some ob else list_heap os a)"
  by (auto simp: list_heap_def fun_eq_iff nth_append)

section \<open>Reading a value\<close>

fun load :: "nat \<Rightarrow> cheap \<Rightarrow> nat \<Rightarrow> cval" where
  "load 0 H a = CV [] []"
| "load (Suc n) H a =
     (case H a of None \<Rightarrow> CV [] [] | Some (d, ps) \<Rightarrow> CV d (map (map_cptr (load n H)) ps))"

lemma load_holds: "holds H x \<Longrightarrow> length (addrs x) \<le> n \<Longrightarrow> load n H (root x) = cvalue x"
proof (induction x arbitrary: n rule: aval_induct)
  case (AV a d ps)
  obtain n' where n: "n = Suc n'" using AV.prems(2) by (cases n) simp_all
  have "load n' H (root y) = cvalue y" if p: "p \<in> set ps" "y \<in> set_cptr p" for p y
  proof -
    have y: "y \<in> set (all_elems ps)" using p by auto
    have "length (addrs y) \<le> length (concat (map addrs (all_elems ps)))"
      using member_le_sum_list [of "length (addrs y)" "map (length \<circ> addrs) (all_elems ps)"] y
      unfolding length_concat map_map by force
    moreover have "holds H y" using AV.prems(1) y by auto
    moreover have "length (concat (map addrs (all_elems ps))) \<le> n'" using AV.prems(2) n by simp
    ultimately show ?thesis using AV.IH [OF y, of n'] by linarith
  qed
  then show ?case
    using AV.prems(1) n by (auto simp: cptr.map_comp intro!: cptr.map_cong)
qed

lemma load_stored:
  assumes "stored (list_heap os) a v"
  shows "load (length os) (list_heap os) a = v"
proof -
  obtain x where x: "root x = a" "cvalue x = v" "holds (list_heap os) x" "distinct (addrs x)"
    using assms by (auto simp: stored_def)
  have "set (addrs x) \<subseteq> {..<length os}" using holds_addrs [OF x(3)] by simp
  then have "card (set (addrs x)) \<le> length os"
    using card_mono [of "{..<length os}"] by simp
  then have "length (addrs x) \<le> length os" using x(4) by (simp add: distinct_card)
  with load_holds [OF x(3)] x(1,2) show ?thesis by simp
qed

section \<open>Laying out a value\<close>

fun lay :: "cval \<Rightarrow> nat \<Rightarrow> aval \<times> nat" where
  "lay (CV d ps) n =
     (case map_state (\<lambda>p n.
        case p of
          CNull \<Rightarrow> (CNull, n)
        | CStruct c \<Rightarrow> (case lay c n of (x, n') \<Rightarrow> (CStruct x, n'))
        | CList cs \<Rightarrow> (case map_state lay cs n of (xs, n') \<Rightarrow> (CList xs, n'))
        | CData bs \<Rightarrow> (CData bs, n)) ps (Suc n) of
        (qs, n') \<Rightarrow> (AV n d qs, n'))"

fun flat :: "aval \<Rightarrow> cobj list" where
  "flat (AV a d ps) = (d, map (map_cptr root) ps) # concat (map flat (all_elems ps))"

lemma length_flat [simp]: "length (flat x) = length (addrs x)"
proof (induction x rule: aval_induct)
  case (AV a d ps)
  then have "length (concat (map flat (all_elems ps))) = length (concat (map addrs (all_elems ps)))"
    unfolding length_concat map_map by (intro arg_cong [of _ _ sum_list] map_cong) auto
  then show ?case by simp
qed

lemma holds_flat: "map H (addrs x) = map Some (flat x) \<Longrightarrow> holds H x"
proof (induction x rule: aval_induct)
  case (AV a d ps)
  have list: "\<forall>y \<in> set xs. map H (addrs y) = map Some (flat y)"
    if "map H (concat (map addrs xs)) = map Some (concat (map flat xs))" for xs
    using that by (induction xs) auto
  from AV.prems have "map H (concat (map addrs (all_elems ps))) = map Some (concat (map flat (all_elems ps)))"
    and "H a = Some (d, map (map_cptr root) ps)"
    by simp_all
  with list [of "all_elems ps"] have "\<forall>y \<in> set (all_elems ps). holds H y" using AV.IH by blast
  with \<open>H a = _\<close> show ?case by simp
qed

text \<open>Values laid out one after the other take up a range of addresses.\<close>

lemma map_state_range:
  assumes "\<And>c n x n'. c \<in> set cs \<Longrightarrow> f c n = (x, n') \<Longrightarrow> g x = [n..<n'] \<and> n \<le> n' \<and> h x = c"
    and "map_state f cs n = (xs, n')"
  shows "concat (map g xs) = [n..<n'] \<and> n \<le> n' \<and> map h xs = cs"
  using assms
proof (induction cs arbitrary: n xs)
  case (Cons c cs)
  obtain x n1 where x: "f c n = (x, n1)" by fastforce
  obtain ys n2 where ys: "map_state f cs n1 = (ys, n2)" by fastforce
  have "g x = [n..<n1] \<and> n \<le> n1 \<and> h x = c" using Cons.prems(1) [of c n x n1] x by simp
  moreover have "concat (map g ys) = [n1..<n2] \<and> n1 \<le> n2 \<and> map h ys = cs"
    using Cons.IH [of n1 ys] Cons.prems ys x by auto
  moreover have "xs = x # ys" "n' = n2" using Cons.prems(2) x ys by simp_all
  moreover have "[n..<n1] @ [n1..<n2] = [n..<n2]" if "n \<le> n1" "n1 \<le> n2"
    using that upt_add_eq_append [of n n1 "n2 - n1"] by simp
  ultimately show ?case by simp
qed simp

definition lay_ptr :: "cval cptr \<Rightarrow> nat \<Rightarrow> aval cptr \<times> nat" where
  "lay_ptr p n =
     (case p of
        CNull \<Rightarrow> (CNull, n)
      | CStruct c \<Rightarrow> (case lay c n of (x, n') \<Rightarrow> (CStruct x, n'))
      | CList cs \<Rightarrow> (case map_state lay cs n of (xs, n') \<Rightarrow> (CList xs, n'))
      | CData bs \<Rightarrow> (CData bs, n))"

lemma lay_range: "lay v n = (x, n') \<Longrightarrow> addrs x = [n..<n'] \<and> n < n' \<and> cvalue x = v"
proof (induction v arbitrary: n x n')
  case (CV d ps)
  have ptr: "concat (map addrs (elems q)) = [k..<k'] \<and> k \<le> k' \<and> map_cptr cvalue q = p"
    if p: "p \<in> set ps" "lay_ptr p k = (q, k')" for p k q k'
  proof (cases p)
    case (CStruct c)
    with p CV.IH [of p c k] show ?thesis by (fastforce simp: lay_ptr_def split: prod.splits)
  next
    case (CList cs)
    obtain xs where xs: "map_state lay cs k = (xs, k')" "q = CList xs"
      using p CList by (auto simp: lay_ptr_def split: prod.splits)
    have "concat (map addrs xs) = [k..<k'] \<and> k \<le> k' \<and> map cvalue xs = cs"
      using xs(1) by (rule map_state_range [rotated]) (use CV.IH [OF p(1)] CList in fastforce)
    then show ?thesis using CList xs(2) by simp
  qed (use p in \<open>auto simp: lay_ptr_def\<close>)
  obtain qs where qs: "map_state lay_ptr ps (Suc n) = (qs, n')" "x = AV n d qs"
    using CV.prems by (simp flip: lay_ptr_def split: prod.splits)
  have "concat (map (\<lambda>q. concat (map addrs (elems q))) qs) = [Suc n..<n'] \<and> Suc n \<le> n' \<and>
      map (map_cptr cvalue) qs = ps"
    using qs(1) by (rule map_state_range [rotated]) (use ptr in blast)
  moreover have "concat (map addrs (all_elems qs)) = concat (map (\<lambda>q. concat (map addrs (elems q))) qs)"
    by (induction qs) simp_all
  ultimately show ?case using qs(2) by (simp add: upt_conv_Cons)
qed

text \<open>Appending a copy of a value.\<close>

definition store :: "cval \<Rightarrow> cobj list \<Rightarrow> nat \<times> cobj list" where
  "store v os = (length os, os @ flat (fst (lay v (length os))))"

lemma store_stored:
  assumes "store v os = (a, os')"
  shows "a = length os" "a < length os'" "stored (list_heap os') a v"
    "\<And>b. b < length os \<Longrightarrow> list_heap os' b = list_heap os b"
proof -
  obtain x n' where x: "lay v (length os) = (x, n')" by fastforce
  note range = lay_range [OF x]
  have eq: "a = length os" "os' = os @ flat x" using assms x by (simp_all add: store_def)
  show "a = length os" by (rule eq(1))
  show "a < length os'" using eq range length_flat [of x] by (simp del: length_flat)
  show "list_heap os' b = list_heap os b" if "b < length os" for b
    using that eq(2) by (simp add: list_heap_def nth_append)
  have len: "length (flat x) = n' - length os" using range by simp
  have "map (list_heap os') (addrs x) = map Some (flat x)"
    using range len by (intro nth_equalityI) (simp_all add: eq(2) list_heap_def nth_append)
  then have "holds (list_heap os') x" by (rule holds_flat)
  moreover have "root x = a"
    using range eq(1) by (cases x) (auto simp: upt_conv_Cons)
  ultimately show "stored (list_heap os') a v"
    unfolding stored_def using range by (intro exI [of _ x]) simp
qed

section \<open>The memory\<close>

text \<open>
  The state of the reference libraries: the structs of all messages and the results each
  call has allocated. A handle is an address and the number of pointers that may still be
  followed, 128 for a new message.
\<close>

record 'c rmem =
  rm_objs :: "cobj list"
  rm_results :: "'c \<Rightarrow> nat option"

type_synonym rhandle = "nat \<times> nat"

definition rm_world :: "'c rmem \<Rightarrow> 'c world" where
  "rm_world m = \<lparr>w_heap = list_heap (rm_objs m), w_results = rm_results m, w_up = True\<rparr>"

definition rm_word :: "'c rmem \<Rightarrow> rhandle \<Rightarrow> nat \<Rightarrow> int64" where
  "rm_word m h i =
     (case list_heap (rm_objs m) (fst h) of
        Some (d, ps) \<Rightarrow> if i < length d then d ! i else 0
      | None \<Rightarrow> 0)"

definition rm_set_word :: "rhandle \<Rightarrow> nat \<Rightarrow> int64 \<Rightarrow> 'c rmem \<Rightarrow> 'c rmem option" where
  "rm_set_word h i v m =
     (case list_heap (rm_objs m) (fst h) of
        Some (d, ps) \<Rightarrow>
          if i < length d then Some (m\<lparr>rm_objs := (rm_objs m)[fst h := (d[i := v], ps)]\<rparr>) else None
      | None \<Rightarrow> None)"

definition rm_ptr :: "'c rmem \<Rightarrow> rhandle \<Rightarrow> nat \<Rightarrow> rhandle cptr option" where
  "rm_ptr m h i =
     (case list_heap (rm_objs m) (fst h) of
        Some (d, ps) \<Rightarrow>
          if i < length ps \<and> ps ! i \<noteq> CNull
          then if snd h = 0 then None else Some (map_cptr (\<lambda>a. (a, snd h - 1)) (ps ! i))
          else Some CNull
      | None \<Rightarrow> Some CNull)"

definition rm_set_ptr :: "rhandle \<Rightarrow> nat \<Rightarrow> nat cptr \<Rightarrow> 'c rmem \<Rightarrow> 'c rmem option" where
  "rm_set_ptr h i p m =
     (case list_heap (rm_objs m) (fst h) of
        Some (d, ps) \<Rightarrow>
          if i < length ps then Some (m\<lparr>rm_objs := (rm_objs m)[fst h := (d, ps[i := p])]\<rparr>) else None
      | None \<Rightarrow> None)"

definition rm_new :: "nat \<Rightarrow> struct_size \<Rightarrow> 'c rmem \<Rightarrow> rhandle list \<times> 'c rmem" where
  "rm_new n sz m =
     (map (\<lambda>a. (a, 128)) [length (rm_objs m)..<length (rm_objs m) + n],
      m\<lparr>rm_objs := rm_objs m @ replicate n (zero_obj sz)\<rparr>)"

definition rm_new_results :: "'c \<Rightarrow> struct_size \<Rightarrow> 'c rmem \<Rightarrow> rhandle \<times> 'c rmem" where
  "rm_new_results c sz m =
     (case rm_new 1 sz m of
        (hs, m') \<Rightarrow> (hd hs, m'\<lparr>rm_results := (rm_results m')(c \<mapsto> length (rm_objs m))\<rparr>))"

definition rm_copy :: "nat \<Rightarrow> 'c rmem \<Rightarrow> nat \<times> 'c rmem" where
  "rm_copy a m =
     (case store (load (length (rm_objs m)) (list_heap (rm_objs m)) a) (rm_objs m) of
        (b, os) \<Rightarrow> (b, m\<lparr>rm_objs := os\<rparr>))"

lemma rm_world_sel [simp]:
  "w_heap (rm_world m) = list_heap (rm_objs m)"
  "w_results (rm_world m) = rm_results m"
  "w_up (rm_world m)"
  by (simp_all add: rm_world_def)

lemma rm_word_at:
  "list_heap (rm_objs m) (fst h) = Some (d, ps) \<Longrightarrow> i < length d \<Longrightarrow> rm_word m h i = d ! i"
  by (simp add: rm_word_def)

lemma rm_set_word_at:
  "list_heap (rm_objs m) (fst h) = Some (d, ps) \<Longrightarrow> i < length d \<Longrightarrow>
     \<exists>m'. rm_set_word h i v m = Some m' \<and>
       rm_world m' = (rm_world m)\<lparr>w_heap := (w_heap (rm_world m))(fst h \<mapsto> (d[i := v], ps))\<rparr>"
  using list_heap_SomeD [of "rm_objs m" "fst h"]
  by (simp add: rm_set_word_def rm_world_def list_heap_update)

lemma rm_ptr_at:
  assumes "list_heap (rm_objs m) (fst h) = Some (d, ps)" "i < length ps" "0 < snd h"
  shows "\<exists>p. rm_ptr m h i = Some p \<and> map_cptr fst p = ps ! i \<and> (\<forall>h' \<in> set_cptr p. snd h' = snd h - 1)"
  using assms by (auto simp: rm_ptr_def cptr.map_comp o_def cptr.map_ident cptr.set_map)

lemma rm_set_ptr_at:
  "list_heap (rm_objs m) (fst h) = Some (d, ps) \<Longrightarrow> i < length ps \<Longrightarrow>
     \<exists>m'. rm_set_ptr h i p m = Some m' \<and>
       rm_world m' = (rm_world m)\<lparr>w_heap := (w_heap (rm_world m))(fst h \<mapsto> (d, ps[i := p]))\<rparr>"
  using list_heap_SomeD [of "rm_objs m" "fst h"]
  by (simp add: rm_set_ptr_def rm_world_def list_heap_update)

lemma rm_new_at:
  "\<exists>hs m'. rm_new n sz m = (hs, m') \<and> length hs = n \<and> distinct (map fst hs) \<and>
     set (map fst hs) \<inter> dom (list_heap (rm_objs m)) = {} \<and> (\<forall>h' \<in> set hs. 128 \<le> snd h') \<and>
     rm_world m' = (rm_world m)\<lparr>w_heap := (\<lambda>a.
       if a \<in> set (map fst hs) then Some (zero_obj sz) else w_heap (rm_world m) a)\<rparr>"
  by (auto simp: rm_new_def rm_world_def list_heap_replicate o_def image_image)

text \<open>A new list, or a new struct, set as a pointer of a struct.\<close>

lemma rm_new_list_at:
  assumes "list_heap (rm_objs m) (fst h) = Some (d, ps)" "i < length ps"
  shows "\<exists>hs m1 m2. rm_new n sz m = (hs, m1) \<and> rm_set_ptr h i (CList (map fst hs)) m1 = Some m2 \<and>
    length hs = n \<and> distinct (map fst hs) \<and> set (map fst hs) \<inter> dom (list_heap (rm_objs m)) = {} \<and>
    (\<forall>h' \<in> set hs. 128 \<le> snd h') \<and>
    rm_world m2 = (rm_world m)\<lparr>w_heap := (\<lambda>a.
      if a = fst h then Some (d, ps[i := CList (map fst hs)])
      else if a \<in> set (map fst hs) then Some (zero_obj sz)
      else w_heap (rm_world m) a)\<rparr>"
proof -
  obtain hs m1 where hs: "rm_new n sz m = (hs, m1)" "length hs = n"
      "distinct (map fst hs)" "set (map fst hs) \<inter> dom (list_heap (rm_objs m)) = {}"
      "\<forall>h' \<in> set hs. 128 \<le> snd h'"
      "rm_world m1 = (rm_world m)\<lparr>w_heap := (\<lambda>a. if a \<in> set (map fst hs)
         then Some (zero_obj sz) else w_heap (rm_world m) a)\<rparr>"
    using rm_new_at [of n sz m] by auto
  have out: "fst h \<notin> set (map fst hs)" using hs(4) domI [of "list_heap (rm_objs m)", OF assms(1)] by blast
  then have "list_heap (rm_objs m1) (fst h) = Some (d, ps)"
    using arg_cong [OF hs(6), of w_heap] assms(1) by simp
  from rm_set_ptr_at [OF this assms(2), of "CList (map fst hs)"]
  obtain m2 where m2: "rm_set_ptr h i (CList (map fst hs)) m1 = Some m2"
      "rm_world m2 = (rm_world m1)\<lparr>w_heap := (w_heap (rm_world m1))(fst h \<mapsto> (d, ps[i := CList (map fst hs)]))\<rparr>"
    by auto
  have "rm_world m2 = (rm_world m)\<lparr>w_heap := (\<lambda>a.
      if a = fst h then Some (d, ps[i := CList (map fst hs)])
      else if a \<in> set (map fst hs) then Some (zero_obj sz)
      else w_heap (rm_world m) a)\<rparr>"
    using m2(2) hs(6) by (simp add: fun_eq_iff)
  with hs(1-5) m2(1) show ?thesis by blast
qed

lemma rm_new_struct_at:
  assumes "list_heap (rm_objs m) (fst h) = Some (d, ps)" "i < length ps"
  shows "\<exists>h' m1 m2. rm_new 1 sz m = ([h'], m1) \<and> rm_set_ptr h i (CStruct (fst h')) m1 = Some m2 \<and>
    fst h' \<notin> dom (list_heap (rm_objs m)) \<and> 128 \<le> snd h' \<and>
    rm_world m2 = (rm_world m)\<lparr>w_heap := (w_heap (rm_world m))(fst h' \<mapsto> zero_obj sz,
                                fst h \<mapsto> (d, ps[i := CStruct (fst h')]))\<rparr>"
proof -
  let ?n = "length (rm_objs m)"
  let ?m1 = "m\<lparr>rm_objs := rm_objs m @ [zero_obj sz]\<rparr>"
  have new: "fst h < ?n" using assms(1) list_heap_SomeD [of "rm_objs m" "fst h"] by simp
  have "list_heap (rm_objs ?m1) (fst h) = Some (d, ps)"
    using assms(1) new by (simp add: list_heap_snoc)
  from rm_set_ptr_at [OF this assms(2), of "CStruct ?n"]
  obtain m2 where m2: "rm_set_ptr h i (CStruct ?n) ?m1 = Some m2"
      "rm_world m2 = (rm_world ?m1)\<lparr>w_heap := (w_heap (rm_world ?m1))(fst h \<mapsto> (d, ps[i := CStruct ?n]))\<rparr>"
    by auto
  have "rm_world m2 = (rm_world m)\<lparr>w_heap := (w_heap (rm_world m))(?n \<mapsto> zero_obj sz,
      fst h \<mapsto> (d, ps[i := CStruct ?n]))\<rparr>"
    using m2(2) by (simp add: rm_world_def list_heap_snoc)
  with m2(1) show ?thesis
    by (intro exI [of _ "(?n, 128)"] exI [of _ ?m1] exI [of _ m2]) (simp add: rm_new_def)
qed

lemma rm_new_results_at:
  "\<exists>h m'. rm_new_results c sz m = (h, m') \<and> fst h \<notin> dom (list_heap (rm_objs m)) \<and> 128 \<le> snd h \<and>
     rm_world m' = (rm_world m)\<lparr>w_heap := (w_heap (rm_world m))(fst h \<mapsto> zero_obj sz),
                               w_results := (w_results (rm_world m))(c \<mapsto> fst h)\<rparr>"
  by (simp add: rm_new_results_def rm_new_def rm_world_def list_heap_snoc)

lemma rm_copy_at:
  assumes "stored (list_heap (rm_objs m)) a v" "rm_copy a m = (b, m')"
  shows "b = length (rm_objs m)" "stored (list_heap (rm_objs m')) b v" "rm_results m' = rm_results m"
  using assms store_stored [of v "rm_objs m"] load_stored [OF assms(1)]
  by (auto simp: rm_copy_def split: prod.splits)

end
