(* ===== verification/GoCapnpRef.thy ===== *)
theory GoCapnpRef
  imports GoCapnp CapnpRef
begin

text \<open>
  An instance of what the go-capnp system asks of its library, on the reference memory: a
  call copies its arguments, runs the handler of the method table and copies the results. It
  shows that the laws of \<open>capnp_memory\<close> and \<open>capnp_connection\<close> can hold together.
\<close>

section \<open>Messages\<close>

definition ref_mem :: "(nat rmem, rhandle, nat) capnp_mem" where
  "ref_mem =
     \<lparr>cm_zero = (0, 0),
      cm_Uint64 = (\<lambda>m h off. rm_word m h (off div 8)),
      cm_SetUint64 = (\<lambda>h off v m.
        case rm_set_word h (off div 8) v m of
          None \<Rightarrow> Inl (Panic ''capnp: set field outside struct boundaries'')
        | Some m' \<Rightarrow> Inr m'),
      cm_Ptr = (\<lambda>m h i.
        case rm_ptr m h i of None \<Rightarrow> Inl (ErrorNew ''read pointer: depth limit reached'') | Some p \<Rightarrow> Inr p),
      cm_SetPtr = (\<lambda>h i p m.
        case rm_set_ptr h i (map_cptr fst p) m of None \<Rightarrow> (Some nil_deref, m) | Some m' \<Rightarrow> (None, m')),
      cm_SetData = (\<lambda>h i bs m.
        case rm_set_ptr h i (CData bs) m of None \<Rightarrow> (Some nil_deref, m) | Some m' \<Rightarrow> (None, m')),
      cm_NewStruct = (\<lambda>h sz m.
        case rm_new 1 (fst sz div 8, snd sz) m of (hs, m') \<Rightarrow> (Inr (hd hs), m')),
      cm_NewCompositeList = (\<lambda>h sz n m.
        case rm_new (unat n) (fst sz div 8, snd sz) m of (hs, m') \<Rightarrow> (Inr hs, m')),
      cm_Args = (\<lambda>c. (c, 128)),
      cm_AllocResults = (\<lambda>c sz m.
        case rm_new_results c (fst sz div 8, snd sz) m of (h, m') \<Rightarrow> (Inr h, m'))\<rparr>"

interpretation rmemory: capnp_memory ref_mem rm_world fst snd 128
proof (unfold_locales, goal_cases)
  case (1 m h d ps i)
  then show ?case by (simp add: ref_mem_def rm_word_at)
next
  case (2 m h d ps i v)
  then show ?case using rm_set_word_at [of m h d ps i v] by (auto simp: ref_mem_def)
next
  case (3 m h d ps i)
  then show ?case using rm_ptr_at [of m h d ps i] by (auto simp: ref_mem_def)
next
  case (4 m h d ps i bs)
  then show ?case using rm_set_ptr_at [of m h d ps i "CData bs"] by (auto simp: ref_mem_def)
next
  case (5 m h d ps i sz)
  then show ?case
    using rm_new_struct_at [of m h d ps i "(fst sz div 8, snd sz)"] by (fastforce simp: ref_mem_def)
next
  case (6 m h d ps i n sz)
  have n: "unat (word_of_nat n :: 32 word) = n" using 6(3) by (simp add: unat_of_nat take_bit_nat_eq_self)
  obtain hs m1 m2 where "rm_new n (fst sz div 8, snd sz) m = (hs, m1)"
      "rm_set_ptr h i (CList (map fst hs)) m1 = Some m2" "length hs = n" "distinct (map fst hs)"
      "set (map fst hs) \<inter> dom (list_heap (rm_objs m)) = {}" "\<forall>h' \<in> set hs. 128 \<le> snd h'"
      "rm_world m2 = (rm_world m)\<lparr>w_heap := (\<lambda>a.
         if a = fst h then Some (d, ps[i := CList (map fst hs)])
         else if a \<in> set (map fst hs) then Some (zero_obj (fst sz div 8, snd sz))
         else w_heap (rm_world m) a)\<rparr>"
    using rm_new_list_at [of m h d ps i n "(fst sz div 8, snd sz)"] 6(1,2) by auto
  with n show ?case
    by (intro exI [of _ hs] exI [of _ m1] exI [of _ m2]) (simp add: ref_mem_def)
next
  case (7 m c sz)
  then show ?case
    using rm_new_results_at [of c "(fst sz div 8, snd sz)" m] by (auto simp: ref_mem_def)
qed

section \<open>Calls\<close>

text \<open>
  The handler runs in \<open>SendCall\<close>, so the future is its outcome. A handler that does not
  return is given an error, as if its context had ended.
\<close>

definition ref_deliver ::
  "nat \<Rightarrow> (go_error option \<times> nat rmem) option \<Rightarrow> nat rmem \<Rightarrow> rhandle cptr result \<times> nat rmem" where
  "ref_deliver c outcome m =
     (case outcome of
        None \<Rightarrow> (Inl Canceled, m)
      | Some (Some e, m') \<Rightarrow> (Inl e, m')
      | Some (None, m') \<Rightarrow>
          (case rm_results m' c of
             None \<Rightarrow> (Inr CNull, m')
           | Some r \<Rightarrow> (case rm_copy r m' of (r', m'') \<Rightarrow> (Inr (CStruct (r', 128)), m''))))"

definition ref_serve :: "capnp_method \<Rightarrow> nat \<Rightarrow> nat rmem \<Rightarrow> rhandle cptr result \<times> nat rmem" where
  "ref_serve meth a m =
     (case rm_copy a m of
        (c, m1) \<Rightarrow>
          (let m2 = m1\<lparr>rm_results := (rm_results m1)(c := None)\<rparr>
           in case map_of (API_Methods ref_mem) meth of
                None \<Rightarrow> (Inl (ErrorNew ''unimplemented''), m2)
              | Some impl \<Rightarrow> ref_deliver c (impl c m2) m2))"

definition ref_conn :: "(nat rmem, rhandle, rhandle cptr result) capnp_conn" where
  "ref_conn =
     \<lparr>cc_SendCall = (\<lambda>meth args m.
        let a = length (rm_objs m)
        in case args of
             None \<Rightarrow> ref_serve meth a (snd (rm_new 1 (0, 0) m))
           | Some (sz, place) \<Rightarrow>
               (case place (a, 128) (snd (rm_new 1 (fst sz div 8, snd sz) m)) of
                  Inl e \<Rightarrow> (Inl e, m)
                | Inr m' \<Rightarrow> ref_serve meth a m')),
      cc_Ptr = Pair,
      cc_Done = (\<lambda>f m. (None, m)),
      cc_Release = (\<lambda>f m. m)\<rparr>"

lemma ref_deliver_returns:
  assumes "ref_deliver c (Some (err, m5)) m4 = (f, m3)"
  shows "capnp_returns ref_conn rm_world fst snd 128 max_size f m3 c err m5"
proof (cases err)
  case (Some e)
  with assms show ?thesis by (auto simp: capnp_returns_def ref_deliver_def ref_conn_def)
next
  case None
  have "\<exists>h m6. cc_Ptr ref_conn f m3 = (Inr (CStruct h), m6) \<and> stored (list_heap (rm_objs m6)) (fst h) w \<and>
      128 \<le> snd h"
    if w: "rm_results m5 c = Some r" "stored (list_heap (rm_objs m5)) r w" for r w
    using assms None w rm_copy_at(2) [OF w(2)]
    by (auto simp: ref_deliver_def ref_conn_def split: prod.splits)
  with None show ?thesis by (simp add: capnp_returns_def ref_conn_def)
qed

lemma ref_serve_serves:
  assumes "stored (list_heap (rm_objs m)) a v" "ref_serve meth a m = (f, m3)"
  shows "capnp_serves ref_mem ref_conn rm_world fst snd 128 max_size meth v f m3"
proof -
  obtain c m1 where c: "rm_copy a m = (c, m1)" by fastforce
  let ?m2 = "m1\<lparr>rm_results := (rm_results m1)(c := None)\<rparr>"
  have st: "stored (list_heap (rm_objs ?m2)) c v" using rm_copy_at(2) [OF assms(1) c] by simp
  have "capnp_returns ref_conn rm_world fst snd 128 max_size f m3 c err m5"
    if "map_of (API_Methods ref_mem) meth = Some impl" "impl c ?m2 = Some (err, m5)" for impl err m5
    using assms(2) c that by (intro ref_deliver_returns [of _ _ _ ?m2]) (simp add: ref_serve_def Let_def)
  moreover have "cm_Args ref_mem c = (c, 128)" by (simp add: ref_mem_def)
  ultimately show ?thesis
    using st unfolding capnp_serves_def by (intro exI [of _ c] exI [of _ ?m2]) simp
qed

interpretation rconn: capnp_connection ref_mem rm_world fst snd 128 ref_conn max_size for max_size
proof (unfold_locales, goal_cases)
  case (1 m sz place meth)
  let ?a = "length (rm_objs m)" and ?sz = "(fst sz div 8, snd sz)"
  let ?m1 = "m\<lparr>rm_objs := rm_objs m @ [zero_obj ?sz]\<rparr>"
  have "\<exists>f m3. cc_SendCall ref_conn meth (Some (sz, place)) m = (f, m3) \<and>
      capnp_serves ref_mem ref_conn rm_world fst snd 128 max_size meth v f m3"
    if v: "place (?a, 128) ?m1 = Inr m2" "stored (list_heap (rm_objs m2)) ?a v" for m2 v
  proof -
    obtain f m3 where f: "ref_serve meth ?a m2 = (f, m3)" by fastforce
    then have "cc_SendCall ref_conn meth (Some (sz, place)) m = (f, m3)"
      using v(1) by (simp add: ref_conn_def rm_new_def)
    with ref_serve_serves [OF v(2) f] show ?thesis by blast
  qed
  then show ?case
    by (intro exI [of _ "(?a, 128)"] exI [of _ ?m1]) (simp add: rm_world_def list_heap_snoc)
next
  case (2 m meth)
  let ?a = "length (rm_objs m)"
  let ?m1 = "m\<lparr>rm_objs := rm_objs m @ [([], [])]\<rparr>"
  obtain f m3 where f: "ref_serve meth ?a ?m1 = (f, m3)" by fastforce
  have "stored (list_heap (rm_objs ?m1)) ?a (CV [] [])"
    by (simp add: stored_flat list_heap_snoc)
  from ref_serve_serves [OF this f]
  show ?case
    using f by (intro exI [of _ f] exI [of _ m3]) (simp add: ref_conn_def rm_new_def zero_obj_def)
next
  case (3 m f)
  then show ?case by simp
qed

section \<open>Properties of the handlers and the client\<close>


definition small_request :: "nat rmem" where
  "small_request =
     \<lparr>rm_objs = [([3], [CStruct 1]), ([5], [CList [2]]), ([7], [CNull])], rm_results = \<lambda>_. None\<rparr>"

lemma small_request_stored:
  "stored (list_heap (rm_objs small_request)) 0 (CV [3] [CStruct (CV [5] [CList [CV [7] [CNull]]])])"
proof -
  let ?x = "AV 1 [5] [CList [AV 2 [7] [CNull]]]"
  show ?thesis
    unfolding stored_struct
    by (intro exI [of _ ?x]) (simp add: list_heap_def small_request_def)
qed


text \<open>The go-capnp client's \<open>Nop\<close> hides failed calls: when every call fails with the error
  \<open>e\<close>, \<open>Nop\<close> answers as if nothing had failed, while \<open>Add\<close> returns \<open>e\<close>.\<close>

lemma gcp_Nop_hides_errors:
  "gcp_Nop (conn\<lparr>cc_Ptr := \<lambda>f m. (Inl e, m)\<rparr>) m = gcp_Nop conn m \<and>
   fst (gcp_Add mem (conn\<lparr>cc_Ptr := \<lambda>f m. (Inl e, m)\<rparr>) m a b) = Inl e"
  by (simp add: gcp_Nop_def gcp_Add_def API_Nop_def API_Add_def Future_Struct_def split: prod.splits)

end
