(* ===== verification/MdCapnp.thy ===== *)
theory MdCapnp
  imports Benches Capnp
begin

text \<open>
  \<open>internal/rpc/mdcapnp\<close>: the mdcapnp system. This theory has the interface of
  \<open>handwritten_api.go\<close>, the tree adapters of \<open>api_adapter.go\<close>, the handlers of
  \<open>mdcp_server.go\<close> and the two clients, \<open>mdcp_client.go\<close> and \<open>mdcp_client_level0.go\<close>. The
  library \<open>matheusd.com/mdcapnp\<close> is not part of the repository: its serializer is the
  argument \<open>ser\<close>, the calls of its client side the argument \<open>rpc\<close> and those of its server side
  the argument \<open>ctx\<close>. What the code relies on is stated in \<open>MdCapnpCorrect\<close>.
\<close>

section \<open>The library\<close>

text \<open>
  The serializer, over the state \<open>'m\<close> of all messages, a \<open>'b\<close> for a \<open>StructBuilder\<close> and an \<open>'s\<close>
  for a \<open>Struct\<close>. Data is addressed by words and a \<open>StructSize\<close> is in words. The slice
  \<open>NewDataField\<close> returns is the function that stores into it; lists are those of their
  elements, and \<open>At\<close> may panic.
\<close>

record ('m, 'b, 's) md_ser =
  ms_zero_builder :: 'b
  ms_zero_struct :: 's
  ms_SetInt64 :: "'b \<Rightarrow> nat \<Rightarrow> int64 \<Rightarrow> 'm \<Rightarrow> go_error option \<times> 'm"
  ms_SetData :: "'b \<Rightarrow> nat \<Rightarrow> byte list \<Rightarrow> 'm \<Rightarrow> go_error option \<times> 'm"
  ms_NewDataField :: "'b \<Rightarrow> nat \<Rightarrow> nat \<Rightarrow> 'm \<Rightarrow> (byte list \<Rightarrow> 'm \<Rightarrow> 'm) result \<times> 'm"
  ms_NewStructListBuilderField ::
    "'b \<Rightarrow> nat \<Rightarrow> struct_size \<Rightarrow> nat \<Rightarrow> nat \<Rightarrow> 'm \<Rightarrow> 'b list result \<times> 'm"
  ms_ListBuilderAt :: "'b list \<Rightarrow> nat \<Rightarrow> 'b result"
  ms_NewStructField :: "'b \<Rightarrow> nat \<Rightarrow> struct_size \<Rightarrow> 'm \<Rightarrow> 'b result \<times> 'm"
  ms_Reader :: "'b \<Rightarrow> 's"
  ms_Int64 :: "'m \<Rightarrow> 's \<Rightarrow> nat \<Rightarrow> int64"
  ms_Data :: "'m \<Rightarrow> 's \<Rightarrow> nat \<Rightarrow> byte list"
  ms_ReadStruct :: "'m \<Rightarrow> 's \<Rightarrow> nat \<Rightarrow> 's result"
  ms_ReadStructList :: "'m \<Rightarrow> 's \<Rightarrow> nat \<Rightarrow> 's list result"
  ms_StructWithDepthLimit :: "'s \<Rightarrow> nat \<Rightarrow> 's"
  ms_ArenaTotalSize :: "'m \<Rightarrow> 's \<Rightarrow> nat"
  ms_TotalSize :: "struct_size \<Rightarrow> nat"
  ms_StorageWordCount :: "nat \<Rightarrow> nat"

text \<open>
  The client side: a \<open>'q\<close> is a call being set up, an \<open>'f\<close> a \<open>CallFuture\<close> and an \<open>'r\<close> the
  \<open>ReturnResults\<close> of a call. \<open>RemoteCall\<close> registers the call; what its parameters hold when the
  future is waited for is sent.
\<close>

record ('m, 'b, 's, 'q, 'f, 'r) md_rpc =
  mr_SetupCallNoParams :: "'f \<Rightarrow> 64 word \<Rightarrow> 16 word \<Rightarrow> 'm \<Rightarrow> 'q \<times> 'm"
  mr_SetupCallWithStructParams ::
    "'f \<Rightarrow> nat \<Rightarrow> 64 word \<Rightarrow> 16 word \<Rightarrow> struct_size \<Rightarrow> 'm \<Rightarrow> ('q \<times> 'b) \<times> 'm"
  mr_WantShallowReturnCopy :: "'q \<Rightarrow> 'q"
  mr_RemoteCall :: "'f \<Rightarrow> 'q \<Rightarrow> 'm \<Rightarrow> 'f \<times> 'm"
  mr_VoidWait :: "'f \<Rightarrow> 'm \<Rightarrow> go_error option \<times> 'm"
  mr_WaitResults :: "'f \<Rightarrow> 'm \<Rightarrow> ('s \<times> 'r) result \<times> 'm"
  mr_Release :: "'r \<Rightarrow> 'm \<Rightarrow> 'm"

text \<open>The server side: a \<open>'c\<close> is a \<open>*CallContext\<close>.\<close>

record ('m, 'b, 's, 'c) md_ctx =
  mk_InterfaceId :: "'c \<Rightarrow> 64 word"
  mk_MethodId :: "'c \<Rightarrow> 16 word"
  mk_ParamsStruct :: "'m \<Rightarrow> 'c \<Rightarrow> 's result"
  mk_RespondAsStruct :: "'c \<Rightarrow> struct_size \<Rightarrow> nat \<Rightarrow> 'm \<Rightarrow> 'b result \<times> 'm"

section \<open>The handwritten interface\<close>

definition api_interfaceId :: "64 word" where
  "api_interfaceId = 0x1701d"

definition api_nop_methodId :: "16 word" where
  "api_nop_methodId = 0x0001"

definition api_add_methodId :: "16 word" where
  "api_add_methodId = 0x0002"

definition api_toHex_methodId :: "16 word" where
  "api_toHex_methodId = 0x0003"

definition api_multTree_methodId :: "16 word" where
  "api_multTree_methodId = 0x0004"

definition addRequestSize :: struct_size where
  "addRequestSize = (2, 0)"

definition addResponseSize :: struct_size where
  "addResponseSize = (1, 0)"

definition hexRequestSize :: struct_size where
  "hexRequestSize = (0, 1)"

definition hexResponseSize :: struct_size where
  "hexResponseSize = (0, 1)"

definition treeNode_size :: struct_size where
  "treeNode_size = (1, 1)"

definition multTreeRequest_size :: struct_size where
  "multTreeRequest_size = (1, 1)"

definition addRequestBuilder_SetA ::
  "('m, 'b, 's) md_ser \<Rightarrow> 'b \<Rightarrow> int64 \<Rightarrow> 'm \<Rightarrow> go_error option \<times> 'm" where
  "addRequestBuilder_SetA ser b v = ms_SetInt64 ser b 0 v"

definition addRequestBuilder_SetB ::
  "('m, 'b, 's) md_ser \<Rightarrow> 'b \<Rightarrow> int64 \<Rightarrow> 'm \<Rightarrow> go_error option \<times> 'm" where
  "addRequestBuilder_SetB ser b v = ms_SetInt64 ser b 1 v"

definition addRequest_A :: "('m, 'b, 's) md_ser \<Rightarrow> 'm \<Rightarrow> 's \<Rightarrow> int64" where
  "addRequest_A ser m s = ms_Int64 ser m s 0"

definition addRequest_B :: "('m, 'b, 's) md_ser \<Rightarrow> 'm \<Rightarrow> 's \<Rightarrow> int64" where
  "addRequest_B ser m s = ms_Int64 ser m s 1"

definition addResponseBuilder_SetC ::
  "('m, 'b, 's) md_ser \<Rightarrow> 'b \<Rightarrow> int64 \<Rightarrow> 'm \<Rightarrow> go_error option \<times> 'm" where
  "addResponseBuilder_SetC ser b v = ms_SetInt64 ser b 0 v"

definition addResponse_C :: "('m, 'b, 's) md_ser \<Rightarrow> 'm \<Rightarrow> 's \<Rightarrow> int64" where
  "addResponse_C ser m s = ms_Int64 ser m s 0"

definition hexRequestBuilder_SetData ::
  "('m, 'b, 's) md_ser \<Rightarrow> 'b \<Rightarrow> byte list \<Rightarrow> 'm \<Rightarrow> go_error option \<times> 'm" where
  "hexRequestBuilder_SetData ser b v = ms_SetData ser b 0 v"

definition hexRequest_Data :: "('m, 'b, 's) md_ser \<Rightarrow> 'm \<Rightarrow> 's \<Rightarrow> byte list" where
  "hexRequest_Data ser m s = ms_Data ser m s 0"

definition hexResponseBuilder_SetHexData ::
  "('m, 'b, 's) md_ser \<Rightarrow> 'b \<Rightarrow> byte list \<Rightarrow> 'm \<Rightarrow> go_error option \<times> 'm" where
  "hexResponseBuilder_SetHexData ser b v = ms_SetData ser b 0 v"

definition hexResponseBuilder_NewHexData ::
  "('m, 'b, 's) md_ser \<Rightarrow> 'b \<Rightarrow> nat \<Rightarrow> 'm \<Rightarrow> (byte list \<Rightarrow> 'm \<Rightarrow> 'm) result \<times> 'm" where
  "hexResponseBuilder_NewHexData ser b dataLen = ms_NewDataField ser b 0 dataLen"

definition hexResponse_HexData :: "('m, 'b, 's) md_ser \<Rightarrow> 'm \<Rightarrow> 's \<Rightarrow> byte list" where
  "hexResponse_HexData ser m s = ms_Data ser m s 0"

definition treeNodeBuilder_SetValue ::
  "('m, 'b, 's) md_ser \<Rightarrow> 'b \<Rightarrow> int64 \<Rightarrow> 'm \<Rightarrow> go_error option \<times> 'm" where
  "treeNodeBuilder_SetValue ser b v = ms_SetInt64 ser b 0 v"

definition treeNodeBuilder_NewChildren ::
  "('m, 'b, 's) md_ser \<Rightarrow> 'b \<Rightarrow> nat \<Rightarrow> nat \<Rightarrow> 'm \<Rightarrow> 'b list result \<times> 'm" where
  "treeNodeBuilder_NewChildren ser b listLen listCap =
     ms_NewStructListBuilderField ser b 0 treeNode_size listLen listCap"

definition treeNode_Value :: "('m, 'b, 's) md_ser \<Rightarrow> 'm \<Rightarrow> 's \<Rightarrow> int64" where
  "treeNode_Value ser m s = ms_Int64 ser m s 0"

definition treeNode_Children :: "('m, 'b, 's) md_ser \<Rightarrow> 'm \<Rightarrow> 's \<Rightarrow> 's list result" where
  "treeNode_Children ser m s = ms_ReadStructList ser m s 0"

definition multTreeRequestBuilder_SetMult ::
  "('m, 'b, 's) md_ser \<Rightarrow> 'b \<Rightarrow> int64 \<Rightarrow> 'm \<Rightarrow> go_error option \<times> 'm" where
  "multTreeRequestBuilder_SetMult ser b v = ms_SetInt64 ser b 0 v"

definition multTreeRequestBuilder_NewTree ::
  "('m, 'b, 's) md_ser \<Rightarrow> 'b \<Rightarrow> 'm \<Rightarrow> 'b result \<times> 'm" where
  "multTreeRequestBuilder_NewTree ser b = ms_NewStructField ser b 0 treeNode_size"

definition multTreeRequest_Mult :: "('m, 'b, 's) md_ser \<Rightarrow> 'm \<Rightarrow> 's \<Rightarrow> int64" where
  "multTreeRequest_Mult ser m s = ms_Int64 ser m s 0"

definition multTreeRequest_Tree :: "('m, 'b, 's) md_ser \<Rightarrow> 'm \<Rightarrow> 's \<Rightarrow> 's result" where
  "multTreeRequest_Tree ser m s = ms_ReadStruct ser m s 0"

definition treeNodeListBuilder_At :: "('m, 'b, 's) md_ser \<Rightarrow> 'b list \<Rightarrow> nat \<Rightarrow> 'b result" where
  "treeNodeListBuilder_At ser lb i = ms_ListBuilderAt ser lb i"

definition treeNodeListBuilder_Len :: "'b list \<Rightarrow> nat" where
  "treeNodeListBuilder_Len lb = length lb"

text \<open>\<open>ReadAt\<close> stores the element into the builder it is given.\<close>

definition treeNodeListBuilder_ReadAt :: "('m, 'b, 's) md_ser \<Rightarrow> 'b list \<Rightarrow> nat \<Rightarrow> 'b result" where
  "treeNodeListBuilder_ReadAt ser lb i = ms_ListBuilderAt ser lb i"

text \<open>
  The builders of parameters outside of a call, which the system does not use; \<open>new_builder\<close> is
  \<open>NewStructBuilder\<close> of the serializer on a message.
\<close>

definition newAddRequestBuilder :: "('n \<Rightarrow> struct_size \<Rightarrow> 'm \<Rightarrow> 'b result \<times> 'm) \<Rightarrow> 'n \<Rightarrow> 'm \<Rightarrow> 'b result \<times> 'm" where
  "newAddRequestBuilder new_builder serMsg = new_builder serMsg addRequestSize"

definition newHexRequestBuilder :: "('n \<Rightarrow> struct_size \<Rightarrow> 'm \<Rightarrow> 'b result \<times> 'm) \<Rightarrow> 'n \<Rightarrow> 'm \<Rightarrow> 'b result \<times> 'm" where
  "newHexRequestBuilder new_builder serMsg = new_builder serMsg hexRequestSize"

subsection \<open>Calls\<close>

text \<open>
  The setters' errors are not looked at. \<open>MultTree\<close> registers its call before the caller has
  filled the parameters.
\<close>

definition testAPI_Nop ::
  "('m, 'b, 's, 'q, 'f, 'r) md_rpc \<Rightarrow> 'f \<Rightarrow> 'm \<Rightarrow> 'f \<times> 'm" where
  "testAPI_Nop rpc api m =
     (case mr_SetupCallNoParams rpc api api_interfaceId api_nop_methodId m of
        (cs, m1) \<Rightarrow> mr_RemoteCall rpc api cs m1)"

definition testAPI_Add ::
  "('m, 'b, 's) md_ser \<Rightarrow> ('m, 'b, 's, 'q, 'f, 'r) md_rpc \<Rightarrow> 'f \<Rightarrow> int64 \<Rightarrow> int64 \<Rightarrow> 'm \<Rightarrow> 'f \<times> 'm" where
  "testAPI_Add ser rpc api a b m =
     (case mr_SetupCallWithStructParams rpc api (ms_TotalSize ser addRequestSize)
             api_interfaceId api_add_methodId addRequestSize m of
        ((cs, req), m1) \<Rightarrow>
          (let m2 = snd (addRequestBuilder_SetA ser req a m1);
               m3 = snd (addRequestBuilder_SetB ser req b m2)
           in mr_RemoteCall rpc api (mr_WantShallowReturnCopy rpc cs) m3))"

definition testAPI_ToHex ::
  "('m, 'b, 's) md_ser \<Rightarrow> ('m, 'b, 's, 'q, 'f, 'r) md_rpc \<Rightarrow> 'f \<Rightarrow> byte list \<Rightarrow> 'm \<Rightarrow> 'f \<times> 'm" where
  "testAPI_ToHex ser rpc api v m =
     (let vSerSize = ms_StorageWordCount ser (length v)
      in case mr_SetupCallWithStructParams rpc api (ms_TotalSize ser hexRequestSize + vSerSize)
             api_interfaceId api_toHex_methodId hexRequestSize m of
        ((cs, req), m1) \<Rightarrow>
          (let m2 = snd (hexRequestBuilder_SetData ser req v m1)
           in mr_RemoteCall rpc api (mr_WantShallowReturnCopy rpc cs) m2))"

definition testAPI_MultTree ::
  "('m, 'b, 's) md_ser \<Rightarrow> ('m, 'b, 's, 'q, 'f, 'r) md_rpc \<Rightarrow> 'f \<Rightarrow> nat \<Rightarrow> 'm \<Rightarrow> ('f \<times> 'b) \<times> 'm" where
  "testAPI_MultTree ser rpc api sizeHint m =
     (case mr_SetupCallWithStructParams rpc api (ms_TotalSize ser multTreeRequest_size + sizeHint)
             api_interfaceId api_multTree_methodId multTreeRequest_size m of
        ((cs, reqb), m1) \<Rightarrow>
          (case mr_RemoteCall rpc api (mr_WantShallowReturnCopy rpc cs) m1 of
             (f, m2) \<Rightarrow> ((f, reqb), m2)))"

definition futureAddResult_Wait ::
  "('m, 'b, 's) md_ser \<Rightarrow> ('m, 'b, 's, 'q, 'f, 'r) md_rpc \<Rightarrow> 'f \<Rightarrow> 'm \<Rightarrow> int64 result \<times> 'm" where
  "futureAddResult_Wait ser rpc fut m =
     (case mr_WaitResults rpc fut m of
        (Inl e, m1) \<Rightarrow> (Inl e, m1)
      | (Inr (r, rr), m1) \<Rightarrow> (Inr (addResponse_C ser m1 r), mr_Release rpc rr m1))"

definition futureHexResult_Wait ::
  "('m, 'b, 's, 'q, 'f, 'r) md_rpc \<Rightarrow> 'f \<Rightarrow> 'm \<Rightarrow> ('s \<times> 'r) result \<times> 'm" where
  "futureHexResult_Wait rpc fut = mr_WaitResults rpc fut"

definition futureMultTree_Wait ::
  "('m, 'b, 's, 'q, 'f, 'r) md_rpc \<Rightarrow> 'f \<Rightarrow> 'm \<Rightarrow> ('s \<times> 'r) result \<times> 'm" where
  "futureMultTree_Wait rpc fut = mr_WaitResults rpc fut"

section \<open>The tree adapters\<close>

text \<open>
  The slice \<open>children\<close> of an adapter is its length and its storage: an entry of the storage
  keeps the children it had when the slice is cut and grown again. The state of the messages
  goes with the adapter.
\<close>

datatype 'b tnBuilderAdapterAlt =
  TNB (tnb: 'b) (tnb_len: nat) (tnb_store: "'b tnBuilderAdapterAlt list")

fun set_tnb :: "'b \<Rightarrow> 'b tnBuilderAdapterAlt \<Rightarrow> 'b tnBuilderAdapterAlt" where
  "set_tnb b (TNB b0 n cs) = TNB b n cs"

definition tnb_SetValue ::
  "('m, 'b, 's) md_ser \<Rightarrow> int64 \<Rightarrow> 'm \<times> 'b tnBuilderAdapterAlt \<Rightarrow> ('m \<times> 'b tnBuilderAdapterAlt) result" where
  "tnb_SetValue ser v t =
     (case t of (m, b) \<Rightarrow> Inr (snd (treeNodeBuilder_SetValue ser (tnb b) v m), b))"

definition tnb_GetValue :: "('m, 'b, 's) md_ser \<Rightarrow> 'm \<times> 'b tnBuilderAdapterAlt \<Rightarrow> int64" where
  "tnb_GetValue ser t = (case t of (m, b) \<Rightarrow> ms_Int64 ser m (ms_Reader ser (tnb b)) 0)"

text \<open>The error of \<open>NewChildren\<close> is what \<open>InitChildren\<close> panics with.\<close>

definition tnb_InitChildren ::
  "('m, 'b, 's) md_ser \<Rightarrow> nat \<Rightarrow> 'm \<times> 'b tnBuilderAdapterAlt \<Rightarrow> ('m \<times> 'b tnBuilderAdapterAlt) result" where
  "tnb_InitChildren ser n t =
     (case t of (m, TNB b k cs) \<Rightarrow>
       (case treeNodeBuilder_NewChildren ser b n n m of
          (Inl err, m1) \<Rightarrow> Inl err
        | (Inr children, m1) \<Rightarrow>
            (let cs1 = if n \<le> length cs then cs else replicate n (TNB (ms_zero_builder ser) 0 [])
             in bind_result
                  (fold_result (\<lambda>i cs. bind_result (treeNodeListBuilder_At ser children i) (\<lambda>c. Inr (cs[i := set_tnb c (cs ! i)])))
                    [0..<n] cs1)
                  (\<lambda>cs2. Inr (m1, TNB b n cs2)))))"

definition tnb_ChildrenCount :: "'m \<times> 'b tnBuilderAdapterAlt \<Rightarrow> nat" where
  "tnb_ChildrenCount t = tnb_len (snd t)"

definition tnb_Child ::
  "'m \<times> 'b tnBuilderAdapterAlt \<Rightarrow> nat \<Rightarrow> ('m \<times> 'b tnBuilderAdapterAlt) result" where
  "tnb_Child t i =
     (case t of (m, TNB b n cs) \<Rightarrow>
       if i < n then Inr (m, cs ! i) else Inl (Panic ''index out of range''))"

definition tnb_PutChild ::
  "'m \<times> 'b tnBuilderAdapterAlt \<Rightarrow> nat \<Rightarrow> 'm \<times> 'b tnBuilderAdapterAlt \<Rightarrow> 'm \<times> 'b tnBuilderAdapterAlt" where
  "tnb_PutChild t i c =
     (case t of (m, TNB b n cs) \<Rightarrow> (case c of (m', c') \<Rightarrow> (m', TNB b n (cs[i := c']))))"

lemma size_take_adapter [termination_simp]:
  "x \<in> set (take n cs) \<Longrightarrow> f x < Suc (size_list f cs)"
  using size_list_estimation' [of x cs "f x" f] by (auto dest: in_set_takeD)

fun tnb_TotalNodes :: "'b tnBuilderAdapterAlt \<Rightarrow> int64" where
  "tnb_TotalNodes (TNB b n cs) = 1 + sum_list (map tnb_TotalNodes (take n cs))"

definition tnb_ops :: "('m, 'b, 's) md_ser \<Rightarrow> ('m \<times> 'b tnBuilderAdapterAlt) tree_ops" where
  "tnb_ops ser =
     \<lparr>op_SetValue = tnb_SetValue ser,
      op_GetValue = tnb_GetValue ser,
      op_InitChildren = tnb_InitChildren ser,
      op_ChildrenCount = (\<lambda>t. Inr (tnb_ChildrenCount t)),
      op_Child = tnb_Child,
      op_PutChild = tnb_PutChild,
      op_TotalNodes = (\<lambda>t. Some (Inr (tnb_TotalNodes (snd t))))\<rparr>"

datatype 's tnReaderAdapterAlt =
  TNR (tnr: 's) (tnr_len: nat) (tnr_store: "'s tnReaderAdapterAlt list")

fun set_tn :: "'s \<Rightarrow> 's tnReaderAdapterAlt \<Rightarrow> 's tnReaderAdapterAlt" where
  "set_tn s (TNR s0 n cs) = TNR s n cs"

definition tnr_GetValue :: "('m, 'b, 's) md_ser \<Rightarrow> 'm \<times> 's tnReaderAdapterAlt \<Rightarrow> int64" where
  "tnr_GetValue ser t = (case t of (m, r) \<Rightarrow> ms_Int64 ser m (tnr r) 0)"

definition tnr_ChildrenCount :: "'m \<times> 's tnReaderAdapterAlt \<Rightarrow> nat" where
  "tnr_ChildrenCount t = tnr_len (snd t)"

definition tnr_Child ::
  "'m \<times> 's tnReaderAdapterAlt \<Rightarrow> nat \<Rightarrow> ('m \<times> 's tnReaderAdapterAlt) result" where
  "tnr_Child t i =
     (case t of (m, TNR s n cs) \<Rightarrow>
       if i < n then Inr (m, cs ! i) else Inl (Panic ''index out of range''))"

fun tnr_TotalNodes :: "'s tnReaderAdapterAlt \<Rightarrow> int64" where
  "tnr_TotalNodes (TNR s n cs) = 1 + sum_list (map tnr_TotalNodes (take n cs))"

definition tnr_ops :: "('m, 'b, 's) md_ser \<Rightarrow> ('m \<times> 's tnReaderAdapterAlt) tree_ops" where
  "tnr_ops ser =
     \<lparr>op_SetValue = (\<lambda>v t. Inl (Panic ''cannot set value in reader adapter'')),
      op_GetValue = tnr_GetValue ser,
      op_InitChildren = (\<lambda>n t. Inl (Panic ''cannot init children in reader'')),
      op_ChildrenCount = (\<lambda>t. Inr (tnr_ChildrenCount t)),
      op_Child = tnr_Child,
      op_PutChild = (\<lambda>t i c. t),
      op_TotalNodes = (\<lambda>t. Some (Inr (tnr_TotalNodes (snd t))))\<rparr>"

text \<open>
  \<open>reset\<close> points the adapter's tree at the tree of a message. It follows the pointers of the
  message, so it is partial; on an error the children read so far stay.
\<close>

partial_function (option) tnr_reset ::
  "('m, 'b, 's) md_ser \<Rightarrow> 'm \<Rightarrow> 's tnReaderAdapterAlt \<Rightarrow> (go_error option \<times> 's tnReaderAdapterAlt) option"
where
  "tnr_reset ser m r =
     (case r of TNR tn n cs \<Rightarrow>
       (case treeNode_Children ser m tn of
          Inl err \<Rightarrow> Some (Some err, TNR tn n cs)
        | Inr children \<Rightarrow>
            (let childrenLen = length children;
                 cs1 = if childrenLen \<le> length cs then cs
                       else replicate childrenLen (TNR (ms_zero_struct ser) 0 [])
             in Option.bind
                  (run_opt (\<lambda>i cs.
                      Option.bind (tnr_reset ser m (set_tn (children ! i) (cs ! i)))
                        (\<lambda>(err, c). Some (err, cs[i := c])))
                    [0..<childrenLen] cs1)
                  (\<lambda>(err, cs2). Some (err, TNR tn childrenLen cs2)))))"

text \<open>\<open>newTnReaderAdapter\<close>; a \<open>reset\<close> that never returns shows as \<open>Blocked\<close>.\<close>

definition reset_result ::
  "(go_error option \<times> 's tnReaderAdapterAlt) option \<Rightarrow> 's tnReaderAdapterAlt \<Rightarrow>
     go_error option \<times> 's tnReaderAdapterAlt"
where
  "reset_result res r = (case res of None \<Rightarrow> (Some Blocked, r) | Some x \<Rightarrow> x)"

definition newTnReaderAdapter ::
  "('m, 'b, 's) md_ser \<Rightarrow> 'm \<Rightarrow> 's \<Rightarrow> go_error option \<times> 's tnReaderAdapterAlt" where
  "newTnReaderAdapter ser m tn = reset_result (tnr_reset ser m (TNR tn 0 [])) (TNR tn 0 [])"

section \<open>The server\<close>

definition md_handleAdd ::
  "('m, 'b, 's) md_ser \<Rightarrow> ('m, 'b, 's, 'c) md_ctx \<Rightarrow> 'c \<Rightarrow> 'm \<Rightarrow> go_error option \<times> 'm" where
  "md_handleAdd ser ctx cc m =
     (case mk_ParamsStruct ctx m cc of
        Inl err \<Rightarrow> (Some err, m)
      | Inr req \<Rightarrow>
          (let a = addRequest_A ser m req; b = addRequest_B ser m req
           in case mk_RespondAsStruct ctx cc addResponseSize 0 m of
                (Inl err, m1) \<Rightarrow> (Some err, m1)
              | (Inr res, m1) \<Rightarrow> (None, snd (addResponseBuilder_SetC ser res (a + b) m1))))"

partial_function (option) md_multTree ::
  "('m, 'b, 's) md_ser \<Rightarrow> int64 \<Rightarrow> 's \<Rightarrow> 'b \<Rightarrow> 'm \<Rightarrow> (go_error option \<times> 'm) option"
where
  "md_multTree ser mul inp out m =
     (let m1 = snd (treeNodeBuilder_SetValue ser out (treeNode_Value ser m inp * mul) m)
      in case treeNode_Children ser m1 inp of
           Inl err \<Rightarrow> Some (Some (wrap_v ''errored getting inChildren'' [] err), m1)
         | Inr inChildren \<Rightarrow>
             (case treeNodeBuilder_NewChildren ser out (length inChildren) (length inChildren) m1 of
                (Inl err, m2) \<Rightarrow> Some (Some err, m2)
              | (Inr outChildren, m2) \<Rightarrow>
                  run_opt (\<lambda>i m.
                      case treeNodeListBuilder_At ser outChildren i of
                        Inl err \<Rightarrow> Some (Some err, m)
                      | Inr c \<Rightarrow> md_multTree ser mul (inChildren ! i) c m)
                    [0..<length inChildren] m2))"

definition md_handleMultTree ::
  "('m, 'b, 's) md_ser \<Rightarrow> ('m, 'b, 's, 'c) md_ctx \<Rightarrow> 'c \<Rightarrow> 'm \<Rightarrow> (go_error option \<times> 'm) option" where
  "md_handleMultTree ser ctx cc m =
     (case mk_ParamsStruct ctx m cc of
        Inl err \<Rightarrow> Some (Some err, m)
      | Inr req \<Rightarrow>
          (case multTreeRequest_Tree ser m req of
             Inl err \<Rightarrow> Some (Some err, m)
           | Inr t \<Rightarrow>
               (let inTree = ms_StructWithDepthLimit ser t 100
                in case mk_RespondAsStruct ctx cc treeNode_size (ms_ArenaTotalSize ser m req) m of
                     (Inl err, m1) \<Rightarrow> Some (Some err, m1)
                   | (Inr res, m1) \<Rightarrow> md_multTree ser (multTreeRequest_Mult ser m1 req) inTree res m1)))"

definition md_handleToHex ::
  "('m, 'b, 's) md_ser \<Rightarrow> ('m, 'b, 's, 'c) md_ctx \<Rightarrow> 'c \<Rightarrow> 'm \<Rightarrow> go_error option \<times> 'm" where
  "md_handleToHex ser ctx cc m =
     (case mk_ParamsStruct ctx m cc of
        Inl err \<Rightarrow> (Some err, m)
      | Inr req \<Rightarrow>
          (let inp = hexRequest_Data ser m req
           in case mk_RespondAsStruct ctx cc hexResponseSize (ms_StorageWordCount ser (length inp * 2)) m of
                (Inl err, m1) \<Rightarrow> (Some err, m1)
              | (Inr res, m1) \<Rightarrow>
                  (case hexResponseBuilder_NewHexData ser res (length inp * 2) m1 of
                     (Inl err, m2) \<Rightarrow> (Some err, m2)
                   | (Inr out, m2) \<Rightarrow> (None, out (hex_encode inp) m2))))"

definition md_Call ::
  "('m, 'b, 's) md_ser \<Rightarrow> ('m, 'b, 's, 'c) md_ctx \<Rightarrow> 'c \<Rightarrow> 'm \<Rightarrow> (go_error option \<times> 'm) option" where
  "md_Call ser ctx cc m =
     (if mk_InterfaceId ctx cc \<noteq> api_interfaceId then Some (Some (ErrorNew ''wrong interfaceId''), m)
      else if mk_MethodId ctx cc = api_nop_methodId then Some (None, m)
      else if mk_MethodId ctx cc = api_add_methodId then Some (md_handleAdd ser ctx cc m)
      else if mk_MethodId ctx cc = api_multTree_methodId then md_handleMultTree ser ctx cc m
      else if mk_MethodId ctx cc = api_toHex_methodId then Some (md_handleToHex ser ctx cc m)
      else Some (Some (ErrorNew ''unimplemented method''), m))"

section \<open>The clients\<close>

text \<open>
  A client is its reference to the API and the state of the messages; the remote vat of
  \<open>client\<close> is not used by its calls. The two clients share the calls but \<open>MultTreeValues\<close>.
\<close>

record ('m, 'f) md_client =
  mc_api :: 'f
  mc_m :: 'm

record ('m, 'b, 's, 'f) md_clientLevel0 = "('m, 'f) md_client" +
  mc_buildTree :: "'b tnBuilderAdapterAlt"
  mc_readTree :: "'s tnReaderAdapterAlt"

definition md_Nop ::
  "('m, 'b, 's, 'q, 'f, 'r) md_rpc \<Rightarrow> ('m, 'f, 'z) md_client_scheme \<Rightarrow>
     go_error option \<times> ('m, 'f, 'z) md_client_scheme"
where
  "md_Nop rpc c =
     (case testAPI_Nop rpc (mc_api c) (mc_m c) of
        (fut, m1) \<Rightarrow>
          (case mr_VoidWait rpc fut m1 of (err, m2) \<Rightarrow> (err, c\<lparr>mc_m := m2\<rparr>)))"

definition md_Add ::
  "('m, 'b, 's) md_ser \<Rightarrow> ('m, 'b, 's, 'q, 'f, 'r) md_rpc \<Rightarrow> ('m, 'f, 'z) md_client_scheme \<Rightarrow>
     int64 \<Rightarrow> int64 \<Rightarrow> int64 result \<times> ('m, 'f, 'z) md_client_scheme"
where
  "md_Add ser rpc c a b =
     (case testAPI_Add ser rpc (mc_api c) a b (mc_m c) of
        (fut, m1) \<Rightarrow>
          (case futureAddResult_Wait ser rpc fut m1 of (res, m2) \<Rightarrow> (res, c\<lparr>mc_m := m2\<rparr>)))"

definition md_ToHex ::
  "('m, 'b, 's) md_ser \<Rightarrow> ('m, 'b, 's, 'q, 'f, 'r) md_rpc \<Rightarrow> ('m, 'f, 'z) md_client_scheme \<Rightarrow>
     byte list \<Rightarrow> byte list \<Rightarrow> go_error option \<times> byte list \<times> ('m, 'f, 'z) md_client_scheme"
where
  "md_ToHex ser rpc c inp outp =
     (case testAPI_ToHex ser rpc (mc_api c) inp (mc_m c) of
        (fut, m1) \<Rightarrow>
          (case futureHexResult_Wait rpc fut m1 of
             (Inl err, m2) \<Rightarrow> (Some err, outp, c\<lparr>mc_m := m2\<rparr>)
           | (Inr (res, rr), m2) \<Rightarrow>
               (let resHex = hexResponse_HexData ser m2 res
                in (None, take (length outp) resHex @ drop (length resHex) outp,
                    c\<lparr>mc_m := mr_Release rpc rr m2\<rparr>))))"

text \<open>\<open>client.MultTreeValues\<close>, with a new adapter per call; the reply is not released.\<close>

definition md_MultTreeValues ::
  "('m, 'b, 's) md_ser \<Rightarrow> ('m, 'b, 's, 'q, 'f, 'r) md_rpc \<Rightarrow> ('m, 'f) md_client \<Rightarrow> int64 \<Rightarrow>
     ('m \<times> 'b tnBuilderAdapterAlt \<Rightarrow> ('m \<times> 'b tnBuilderAdapterAlt) result) \<Rightarrow>
     ('m \<times> 's tnReaderAdapterAlt) result \<times> ('m, 'f) md_client"
where
  "md_MultTreeValues ser rpc c mult fillArgs =
     (case testAPI_MultTree ser rpc (mc_api c) 0 (mc_m c) of
        ((mtFuture, reqb), m1) \<Rightarrow>
          (let m2 = snd (multTreeRequestBuilder_SetMult ser reqb mult m1)
           in case multTreeRequestBuilder_NewTree ser reqb m2 of
                (Inl err, m3) \<Rightarrow> (Inl err, c\<lparr>mc_m := m3\<rparr>)
              | (Inr rootb, m3) \<Rightarrow>
                  (case fillArgs (m3, TNB rootb 0 []) of
                     Inl err \<Rightarrow> (Inl err, c\<lparr>mc_m := m3\<rparr>)
                   | Inr (m4, _) \<Rightarrow>
                       (case futureMultTree_Wait rpc mtFuture m4 of
                          (Inl err, m5) \<Rightarrow> (Inl (wrap_v ''err after Wait()'' [] err), c\<lparr>mc_m := m5\<rparr>)
                        | (Inr (reply, rr), m5) \<Rightarrow>
                            (case newTnReaderAdapter ser m5 (ms_StructWithDepthLimit ser reply 100) of
                               (Some err, r) \<Rightarrow> (Inl err, c\<lparr>mc_m := m5\<rparr>)
                             | (None, r) \<Rightarrow> (Inr (m5, r), c\<lparr>mc_m := m5\<rparr>))))))"

text \<open>\<open>clientLevel0.MultTreeValues\<close>, which keeps its two adapters from call to call.\<close>

definition md_MultTreeValues_level0 ::
  "('m, 'b, 's) md_ser \<Rightarrow> ('m, 'b, 's, 'q, 'f, 'r) md_rpc \<Rightarrow> ('m, 'b, 's, 'f) md_clientLevel0 \<Rightarrow> int64 \<Rightarrow>
     ('m \<times> 'b tnBuilderAdapterAlt \<Rightarrow> ('m \<times> 'b tnBuilderAdapterAlt) result) \<Rightarrow>
     ('m \<times> 's tnReaderAdapterAlt) result \<times> ('m, 'b, 's, 'f) md_clientLevel0"
where
  "md_MultTreeValues_level0 ser rpc c mult fillArgs =
     (let sizeHint = 65000
      in case testAPI_MultTree ser rpc (mc_api c) sizeHint (mc_m c) of
        ((mtFuture, reqb), m1) \<Rightarrow>
          (let m2 = snd (multTreeRequestBuilder_SetMult ser reqb mult m1)
           in case multTreeRequestBuilder_NewTree ser reqb m2 of
                (Inl err, m3) \<Rightarrow> (Inl err, c\<lparr>mc_m := m3\<rparr>)
              | (Inr rootb, m3) \<Rightarrow>
                  (let c1 = c\<lparr>mc_m := m3, mc_buildTree := set_tnb rootb (mc_buildTree c)\<rparr>
                   in case fillArgs (m3, mc_buildTree c1) of
                     Inl err \<Rightarrow> (Inl err, c1)
                   | Inr (m4, buildTree) \<Rightarrow>
                       (case futureMultTree_Wait rpc mtFuture m4 of
                          (Inl err, m5) \<Rightarrow>
                            (Inl (wrap_v ''err after Wait()'' [] err), c1\<lparr>mc_m := m5, mc_buildTree := buildTree\<rparr>)
                        | (Inr (res, rr), m5) \<Rightarrow>
                            (let r0 = set_tn (ms_StructWithDepthLimit ser res 100) (mc_readTree c1);
                                 (err, r1) = reset_result (tnr_reset ser m5 r0) r0;
                                 c2 = c1\<lparr>mc_m := m5, mc_buildTree := buildTree, mc_readTree := r1\<rparr>
                             in case err of
                                  Some e \<Rightarrow> (Inl (wrap_v ''resetting readTree errored'' [] e), c2)
                                | None \<Rightarrow> (Inr (m5, r1), c2))))))"

text \<open>
  The pointer \<open>&c.readTree\<close> that every call of \<open>clientLevel0.MultTreeValues\<close> returns, read
  when the client is in the state \<open>c\<close>.
\<close>

definition level0_tree :: "('m, 'b, 's, 'f) md_clientLevel0 \<Rightarrow> 'm \<times> 's tnReaderAdapterAlt" where
  "level0_tree c = (mc_m c, mc_readTree c)"

definition md_client_ops ::
  "('m, 'b, 's) md_ser \<Rightarrow> ('m, 'b, 's, 'q, 'f, 'r) md_rpc \<Rightarrow>
     (('m, 'f) md_client, 'm \<times> 'b tnBuilderAdapterAlt, 'm \<times> 's tnReaderAdapterAlt) client_ops"
where
  "md_client_ops ser rpc =
     \<lparr>cl_Nop = md_Nop rpc,
      cl_Add = md_Add ser rpc,
      cl_MultTreeValues = md_MultTreeValues ser rpc,
      cl_ToHex = md_ToHex ser rpc\<rparr>"

definition md_level0_client_ops ::
  "('m, 'b, 's) md_ser \<Rightarrow> ('m, 'b, 's, 'q, 'f, 'r) md_rpc \<Rightarrow>
     (('m, 'b, 's, 'f) md_clientLevel0, 'm \<times> 'b tnBuilderAdapterAlt, 'm \<times> 's tnReaderAdapterAlt) client_ops"
where
  "md_level0_client_ops ser rpc =
     \<lparr>cl_Nop = md_Nop rpc,
      cl_Add = md_Add ser rpc,
      cl_MultTreeValues = md_MultTreeValues_level0 ser rpc,
      cl_ToHex = md_ToHex ser rpc\<rparr>"

text \<open>
  What \<open>newClient\<close> and \<open>newclientLevel0\<close> build once the bootstrap capability is there; their
  dialling is in \<open>Factories\<close>.
\<close>

definition new_md_client :: "'f \<Rightarrow> 'm \<Rightarrow> ('m, 'f) md_client" where
  "new_md_client boot m = \<lparr>mc_api = boot, mc_m = m\<rparr>"

definition new_md_clientLevel0 ::
  "('m, 'b, 's) md_ser \<Rightarrow> 'f \<Rightarrow> 'm \<Rightarrow> ('m, 'b, 's, 'f) md_clientLevel0" where
  "new_md_clientLevel0 ser boot m =
     \<lparr>mc_api = boot, mc_m = m, mc_buildTree = TNB (ms_zero_builder ser) 0 [],
      mc_readTree = TNR (ms_zero_struct ser) 0 []\<rparr>"

end
