(* ===== verification/MdCapnpCorrect.thy ===== *)
theory MdCapnpCorrect
  imports MdCapnp
begin

text \<open>
  What the mdcapnp system relies on, as the locales \<open>md_memory\<close> (the serializer and the
  server's call context) and \<open>md_connection\<close> (calls), and the proof that with it both clients
  meet the contract of the harness. The state of the library is seen as a \<open>md_world\<close>: the
  structs, the results of the server's calls and the calls that are registered but not sent.
\<close>

section \<open>What the library promises\<close>

record ('c, 'f) md_world = "'c world" +
  w_pending :: "'f \<Rightarrow> ((64 word \<times> 16 word) \<times> nat option) option"

text \<open>
  A struct read is the struct last written, a new struct or list is made of zeroed structs
  that are nowhere else, and nothing else changes. A \<open>Struct\<close> may go down \<open>lim\<close> levels of
  pointers at least, and \<open>StructWithDepthLimit\<close> sets that.
  Allocating does not fail: the memory of a message is taken to be enough.
\<close>

locale md_memory =
  fixes ser :: "('m, 'b, 's) md_ser" and ctx :: "('m, 'b, 's, 'c) md_ctx"
    and wld :: "'m \<Rightarrow> ('c, 'f) md_world"
    and baddr :: "'b \<Rightarrow> nat" and saddr :: "'s \<Rightarrow> nat" and lim :: "'s \<Rightarrow> nat"
  assumes set_int64: "w_heap (wld m) (baddr b) = Some (d, ps) \<Longrightarrow> i < length d \<Longrightarrow>
      \<exists>m'. ms_SetInt64 ser b i v m = (None, m') \<and>
        wld m' = (wld m)\<lparr>w_heap := (w_heap (wld m))(baddr b \<mapsto> (d[i := v], ps))\<rparr>"
    and set_data: "w_heap (wld m) (baddr b) = Some (d, ps) \<Longrightarrow> i < length ps \<Longrightarrow> length bs < 2 ^ 29 \<Longrightarrow>
      \<exists>m'. ms_SetData ser b i bs m = (None, m') \<and>
        wld m' = (wld m)\<lparr>w_heap := (w_heap (wld m))(baddr b \<mapsto> (d, ps[i := CData bs]))\<rparr>"
    and new_data: "w_heap (wld m) (baddr b) = Some (d, ps) \<Longrightarrow> i < length ps \<Longrightarrow> n < 2 ^ 29 \<Longrightarrow>
      \<exists>put m'. ms_NewDataField ser b i n m = (Inr put, m') \<and>
        (\<forall>bs. length bs = n \<longrightarrow>
          wld (put bs m') = (wld m)\<lparr>w_heap := (w_heap (wld m))(baddr b \<mapsto> (d, ps[i := CData bs]))\<rparr>)"
    and new_list: "w_heap (wld m) (baddr b) = Some (d, ps) \<Longrightarrow> i < length ps \<Longrightarrow> n < 2 ^ 29 \<Longrightarrow>
      n * (fst sz + snd sz) < 2 ^ 29 \<Longrightarrow>
      \<exists>bs m'. ms_NewStructListBuilderField ser b i sz n n m = (Inr bs, m') \<and>
        length bs = n \<and> distinct (map baddr bs) \<and> set (map baddr bs) \<inter> dom (w_heap (wld m)) = {} \<and>
        wld m' = (wld m)\<lparr>w_heap := (\<lambda>a.
          if a = baddr b then Some (d, ps[i := CList (map baddr bs)])
          else if a \<in> set (map baddr bs) then Some (zero_obj sz)
          else w_heap (wld m) a)\<rparr>"
    and list_builder_at: "i < length lb \<Longrightarrow> ms_ListBuilderAt ser lb i = Inr (lb ! i)"
    and new_struct: "w_heap (wld m) (baddr b) = Some (d, ps) \<Longrightarrow> i < length ps \<Longrightarrow>
      \<exists>b' m'. ms_NewStructField ser b i sz m = (Inr b', m') \<and> baddr b' \<notin> dom (w_heap (wld m)) \<and>
        wld m' = (wld m)\<lparr>w_heap := (w_heap (wld m))(baddr b' \<mapsto> zero_obj sz,
                                  baddr b \<mapsto> (d, ps[i := CStruct (baddr b')]))\<rparr>"
    and int64: "w_heap (wld m) (saddr s) = Some (d, ps) \<Longrightarrow> i < length d \<Longrightarrow> ms_Int64 ser m s i = d ! i"
    and data: "w_heap (wld m) (saddr s) = Some (d, ps) \<Longrightarrow> i < length ps \<Longrightarrow> ps ! i = CData bs \<Longrightarrow>
      0 < lim s \<Longrightarrow> ms_Data ser m s i = bs"
    and read_struct: "w_heap (wld m) (saddr s) = Some (d, ps) \<Longrightarrow> i < length ps \<Longrightarrow> ps ! i = CStruct a \<Longrightarrow>
      0 < lim s \<Longrightarrow> \<exists>s'. ms_ReadStruct ser m s i = Inr s' \<and> saddr s' = a"
    and read_list: "w_heap (wld m) (saddr s) = Some (d, ps) \<Longrightarrow> i < length ps \<Longrightarrow> listy (ps ! i) \<Longrightarrow>
      0 < lim s \<Longrightarrow> \<exists>ss. ms_ReadStructList ser m s i = Inr ss \<and> map saddr ss = elems (ps ! i) \<and>
        (\<forall>s' \<in> set ss. lim s - 1 \<le> lim s')"
    and depth: "saddr (ms_StructWithDepthLimit ser s n) = saddr s" "lim (ms_StructWithDepthLimit ser s n) = n"
    and respond: "w_results (wld m) c = None \<Longrightarrow>
      \<exists>b m'. mk_RespondAsStruct ctx c sz hint m = (Inr b, m') \<and> baddr b \<notin> dom (w_heap (wld m)) \<and>
        wld m' = (wld m)\<lparr>w_heap := (w_heap (wld m))(baddr b \<mapsto> zero_obj sz),
                         w_results := (w_results (wld m))(c \<mapsto> baddr b)\<rparr>"

text \<open>
  A call that is waited for: the server's \<open>Call\<close> runs on a copy of the parameters, and both
  forms of \<open>Wait\<close> give a copy of the results it set, or an error if it returned one.
\<close>

definition md_returns ::
  "('m, 'b, 's, 'q, 'f, 'r) md_rpc \<Rightarrow> ('m \<Rightarrow> ('c, 'f) md_world) \<Rightarrow> ('s \<Rightarrow> nat) \<Rightarrow> ('s \<Rightarrow> nat) \<Rightarrow> nat \<Rightarrow>
     'f \<Rightarrow> 'm \<Rightarrow> 'c \<Rightarrow> go_error option \<Rightarrow> 'm \<Rightarrow> bool"
where
  "md_returns rpc wld saddr lim max_size f m c err m' \<longleftrightarrow>
     (case err of
        Some e \<Rightarrow> (\<exists>e' m1. mr_VoidWait rpc f m = (Some e', m1) \<and> w_up (wld m1)) \<and>
                  (\<exists>e' m1. mr_WaitResults rpc f m = (Inl e', m1) \<and> w_up (wld m1))
      | None \<Rightarrow> (\<exists>m1. mr_VoidWait rpc f m = (None, m1) \<and> w_up (wld m1)) \<and>
          (\<forall>r w. w_results (wld m') c = Some r \<longrightarrow> stored (w_heap (wld m')) r w \<longrightarrow> csize w \<le> max_size \<longrightarrow>
             (\<exists>s rr m1. mr_WaitResults rpc f m = (Inr (s, rr), m1) \<and> stored (w_heap (wld m1)) (saddr s) w \<and>
                0 < lim s \<and> w_up (wld m1))))"

definition md_serves ::
  "('m, 'b, 's) md_ser \<Rightarrow> ('m, 'b, 's, 'c) md_ctx \<Rightarrow> ('m, 'b, 's, 'q, 'f, 'r) md_rpc \<Rightarrow>
     ('m \<Rightarrow> ('c, 'f) md_world) \<Rightarrow> ('s \<Rightarrow> nat) \<Rightarrow> ('s \<Rightarrow> nat) \<Rightarrow> nat \<Rightarrow> 64 word \<times> 16 word \<Rightarrow> cval \<Rightarrow> 'f \<Rightarrow> 'm \<Rightarrow> bool"
where
  "md_serves ser ctx rpc wld saddr lim max_size meth v f m \<longleftrightarrow>
     (\<exists>c m' req. w_up (wld m') \<and> w_results (wld m') c = None \<and>
        (mk_InterfaceId ctx c, mk_MethodId ctx c) = meth \<and>
        mk_ParamsStruct ctx m' c = Inr req \<and> stored (w_heap (wld m')) (saddr req) v \<and> 0 < lim req \<and>
        (\<forall>err m''. md_Call ser ctx c m' = Some (err, m'') \<longrightarrow> w_up (wld m'') \<longrightarrow>
           md_returns rpc wld saddr lim max_size f m c err m''))"

locale md_connection = md_memory ser ctx wld baddr saddr lim
  for ser :: "('m, 'b, 's) md_ser" and ctx :: "('m, 'b, 's, 'c) md_ctx"
    and wld :: "'m \<Rightarrow> ('c, 'f) md_world"
    and baddr :: "'b \<Rightarrow> nat" and saddr :: "'s \<Rightarrow> nat" and lim :: "'s \<Rightarrow> nat" +
  fixes rpc :: "('m, 'b, 's, 'q, 'f, 'r) md_rpc" and boot :: 'f and max_size :: nat
  assumes setup_no_params: "w_up (wld m) \<Longrightarrow>
      \<exists>q m1. mr_SetupCallNoParams rpc boot iid mid m = (q, m1) \<and> wld m1 = wld m \<and>
        (\<forall>m2. w_up (wld m2) \<longrightarrow>
          (\<exists>f m3. mr_RemoteCall rpc boot q m2 = (f, m3) \<and>
             wld m3 = (wld m2)\<lparr>w_pending := (w_pending (wld m2))(f \<mapsto> ((iid, mid), None))\<rparr>))"
    and setup_params: "w_up (wld m) \<Longrightarrow>
      \<exists>q b m1. mr_SetupCallWithStructParams rpc boot hint iid mid sz m = ((q, b), m1) \<and>
        baddr b \<notin> dom (w_heap (wld m)) \<and>
        wld m1 = (wld m)\<lparr>w_heap := (w_heap (wld m))(baddr b \<mapsto> zero_obj sz)\<rparr> \<and>
        (\<forall>m2. w_up (wld m2) \<longrightarrow>
          (\<exists>f m3. mr_RemoteCall rpc boot (mr_WantShallowReturnCopy rpc q) m2 = (f, m3) \<and>
             wld m3 = (wld m2)\<lparr>w_pending := (w_pending (wld m2))(f \<mapsto> ((iid, mid), Some (baddr b)))\<rparr>))"
    and wait_no_params: "w_up (wld m) \<Longrightarrow> w_pending (wld m) f = Some (meth, None) \<Longrightarrow>
      md_serves ser ctx rpc wld saddr lim max_size meth (CV [] []) f m"
    and wait: "w_up (wld m) \<Longrightarrow> w_pending (wld m) f = Some (meth, Some a) \<Longrightarrow>
      stored (w_heap (wld m)) a v \<Longrightarrow> csize v \<le> max_size \<Longrightarrow>
      md_serves ser ctx rpc wld saddr lim max_size meth v f m"
    and release: "w_up (wld m) \<Longrightarrow> w_up (wld (mr_Release rpc rr m))"

section \<open>Filling the parameters\<close>

definition md_start ::
  "('m \<Rightarrow> ('c, 'f) md_world) \<Rightarrow> ('b \<Rightarrow> nat) \<Rightarrow> 'm \<times> 'b tnBuilderAdapterAlt \<Rightarrow> bool" where
  "md_start wld baddr t \<longleftrightarrow>
     (\<exists>w q. w_heap (wld (fst t)) (baddr (tnb (snd t))) = Some ([w], [q]))"

definition md_filled ::
  "('m \<Rightarrow> ('c, 'f) md_world) \<Rightarrow> ('b \<Rightarrow> nat) \<Rightarrow>
     'm \<times> 'b tnBuilderAdapterAlt \<Rightarrow> 'm \<times> 'b tnBuilderAdapterAlt \<Rightarrow> vtree \<Rightarrow> bool" where
  "md_filled wld baddr t t' vt \<longleftrightarrow>
     (\<exists>H'. wld (fst t') = (wld (fst t))\<lparr>w_heap := H'\<rparr> \<and>
        built (w_heap (wld (fst t))) (baddr (tnb (snd t))) vt H')"

lemma tnb_set_tnb [simp]: "tnb (set_tnb b t) = b"
  by (cases t) simp

context md_memory
begin

lemma At_at: "i < length bs \<Longrightarrow> treeNodeListBuilder_At ser bs i = Inr (bs ! i)"
  by (simp add: treeNodeListBuilder_At_def list_builder_at)

text \<open>After \<open>InitChildren\<close> each child is the adapter of its new struct, whatever it was before.\<close>

lemma link_children:
  assumes "n \<le> length cs" "length bs = n"
  shows "\<exists>cs'. fold_result (\<lambda>i cs. bind_result (treeNodeListBuilder_At ser bs i) (\<lambda>c. Inr (cs[i := set_tnb c (cs ! i)])))
      [0..<n] cs = Inr cs' \<and> length cs' = length cs \<and> (\<forall>j < n. tnb (cs' ! j) = bs ! j)"
proof -
  let ?f = "\<lambda>i cs. bind_result (treeNodeListBuilder_At ser bs i) (\<lambda>c. Inr (cs[i := set_tnb c (cs ! i)]))"
  let ?I = "\<lambda>i s. length s = length cs \<and> (\<forall>j < i. tnb (s ! j) = bs ! j)"
  have "\<exists>s'. ?f i s = Inr s' \<and> ?I (Suc i) s'" if "i < n" "?I i s" for i s
    using that assms by (auto simp: At_at less_Suc_eq nth_list_update)
  then show ?thesis
    using fold_result_upt_inv [where f = ?f and I = ?I and n = n and m = 0 and s = cs] by auto
qed

lemma SetValue_at:
  "w_heap (wld m) (baddr b) = Some ([v], ps) \<Longrightarrow>
     \<exists>m'. treeNodeBuilder_SetValue ser b w m = (None, m') \<and>
       wld m' = (wld m)\<lparr>w_heap := (w_heap (wld m))(baddr b \<mapsto> ([w], ps))\<rparr>"
  using set_int64 [of m b "[v]" ps 0 w] by (simp add: treeNodeBuilder_SetValue_def)

lemma NewChildren_at:
  assumes "w_heap (wld m) (baddr b) = Some ([v], [p])" "n < 2 ^ 28"
  shows "\<exists>bs m'. treeNodeBuilder_NewChildren ser b n n m = (Inr bs, m') \<and> length bs = n \<and>
    distinct (map baddr bs) \<and> set (map baddr bs) \<inter> dom (w_heap (wld m)) = {} \<and>
    wld m' = (wld m)\<lparr>w_heap := new_children (w_heap (wld m)) (baddr b) v (map baddr bs)\<rparr>"
proof -
  have "n < 2 ^ 29" "n * (fst treeNode_size + snd treeNode_size) < 2 ^ 29"
    using assms(2) by (simp_all add: treeNode_size_def)
  from new_list [OF assms(1) _ this, of 0]
  obtain bs m' where "ms_NewStructListBuilderField ser b 0 treeNode_size n n m = (Inr bs, m')"
      "length bs = n" "distinct (map baddr bs)" "set (map baddr bs) \<inter> dom (w_heap (wld m)) = {}"
      "wld m' = (wld m)\<lparr>w_heap := (\<lambda>a. if a = baddr b then Some ([v], [p][0 := CList (map baddr bs)])
         else if a \<in> set (map baddr bs) then Some (zero_obj treeNode_size) else w_heap (wld m) a)\<rparr>"
    by auto
  moreover have "zero_obj treeNode_size = ([0], [CNull])" by (simp add: zero_obj_def treeNode_size_def)
  ultimately show ?thesis
    by (simp add: treeNodeBuilder_NewChildren_def new_children_def cong: if_cong)
qed

text \<open>Data set from a slice, and data asked for and written in place, leave the same message.\<close>

lemma hex_data_either_way:
  assumes "w_heap (wld m) (baddr b) = Some (d, [p])" "length bs < 2 ^ 29"
  shows "\<exists>m1 put m2. hexResponseBuilder_SetHexData ser b bs m = (None, m1) \<and>
    hexResponseBuilder_NewHexData ser b (length bs) m = (Inr put, m2) \<and> wld (put bs m2) = wld m1"
  using set_data [OF assms(1) _ assms(2), of 0] new_data [OF assms(1) _ assms(2), of 0]
  by (auto simp: hexResponseBuilder_SetHexData_def hexResponseBuilder_NewHexData_def)

lemma InitChildren_at:
  assumes "w_heap (wld m) (baddr (tnb t)) = Some ([v], [p])" "n < 2 ^ 28"
  shows "\<exists>m' bs cs. tnb_InitChildren ser n (m, t) = Inr (m', TNB (tnb t) n cs) \<and> n \<le> length cs \<and>
    (\<forall>j < n. tnb (cs ! j) = bs ! j) \<and> length bs = n \<and>
    distinct (map baddr bs) \<and> set (map baddr bs) \<inter> dom (w_heap (wld m)) = {} \<and>
    wld m' = (wld m)\<lparr>w_heap := new_children (w_heap (wld m)) (baddr (tnb t)) v (map baddr bs)\<rparr>"
proof -
  obtain b k cs0 where t: "t = TNB b k cs0" by (cases t)
  obtain bs m' where bs: "treeNodeBuilder_NewChildren ser b n n m = (Inr bs, m')" "length bs = n"
      "distinct (map baddr bs)" "set (map baddr bs) \<inter> dom (w_heap (wld m)) = {}"
      "wld m' = (wld m)\<lparr>w_heap := new_children (w_heap (wld m)) (baddr b) v (map baddr bs)\<rparr>"
    using NewChildren_at [of m b v p n] assms t by auto
  let ?cs1 = "if n \<le> length cs0 then cs0 else replicate n (TNB (ms_zero_builder ser) 0 [])"
  have "n \<le> length ?cs1" by simp
  from link_children [OF this bs(2)]
  obtain cs where "fold_result (\<lambda>i cs. bind_result (treeNodeListBuilder_At ser bs i) (\<lambda>c. Inr (cs[i := set_tnb c (cs ! i)])))
      [0..<n] ?cs1 = Inr cs" "length cs = length ?cs1" "\<forall>j < n. tnb (cs ! j) = bs ! j"
    by blast
  with bs t show ?thesis
    by (intro exI [of _ m'] exI [of _ bs] exI [of _ cs]) (simp add: tnb_InitChildren_def Let_def)
qed

end

context md_memory
begin

text \<open>The harness's \<open>copyTree\<close> builds its tree in a zeroed node, whatever the adapter was used for.\<close>

lemma copyTree_built:
  assumes "w_heap (wld m) (baddr (tnb t)) = Some ([w], [q])" "vnodes (tn_view from) < 2 ^ 28"
  shows "\<exists>m' t' H'. copyTree (tnb_ops ser) from (m, t) = Inr (m', t') \<and> tnb t' = tnb t \<and>
    wld m' = (wld m)\<lparr>w_heap := H'\<rparr> \<and> built (w_heap (wld m)) (baddr (tnb t)) (tn_view from) H'"
  using assms
proof (induction "from" arbitrary: m t w q)
  case (TreeNodeImpl v n cs)
  let ?xs = "take n cs" and ?H = "w_heap (wld m)" and ?b = "baddr (tnb t)"
  obtain m1 where m1: "treeNodeBuilder_SetValue ser (tnb t) v m = (None, m1)"
      "wld m1 = (wld m)\<lparr>w_heap := ?H(?b \<mapsto> ([v], [q]))\<rparr>"
    using SetValue_at [OF TreeNodeImpl.prems(1)] by blast
  note small = tn_children_small [OF TreeNodeImpl.prems(2)]
  obtain m2 bs ks where bs: "tnb_InitChildren ser (length ?xs) (m1, t) = Inr (m2, TNB (tnb t) (length ?xs) ks)"
      "length ?xs \<le> length ks" "\<forall>j < length ?xs. tnb (ks ! j) = bs ! j" "length bs = length ?xs"
      "distinct (map baddr bs)" "set (map baddr bs) \<inter> dom ?H = {}"
      "wld m2 = (wld m)\<lparr>w_heap := new_children ?H ?b v (map baddr bs)\<rparr>"
    using InitChildren_at [of m1 t v q "length ?xs"] m1(2) small(1) TreeNodeImpl.prems(1) by auto
  let ?as = "map baddr bs" and ?vs = "map tn_view ?xs"
  let ?R = "\<lambda>s H'. \<exists>m' ks'. s = (m', TNB (tnb t) (length ?xs) ks') \<and> length ?xs \<le> length ks' \<and>
      (\<forall>j < length ?xs. tnb (ks' ! j) = bs ! j) \<and> wld m' = (wld m)\<lparr>w_heap := H'\<rparr>"
  let ?body = "\<lambda>i. with_child (tnb_ops ser) i (copyTree (tnb_ops ser) (?xs ! i))"
  have b: "?b \<in> dom ?H" using TreeNodeImpl.prems(1) by blast
  have step: "\<exists>s' H''. ?body i s = Inr s' \<and> ?R s' H'' \<and> built H' (?as ! i) (?vs ! i) H''"
    if i: "i < length ?as" and R: "?R s H'" and U: "built_upto (new_children ?H ?b v ?as) ?as ?vs i H'" for i s H'
  proof -
    obtain m' ks' where s: "s = (m', TNB (tnb t) (length ?xs) ks')" "length ?xs \<le> length ks'"
        "\<forall>j < length ?xs. tnb (ks' ! j) = bs ! j" "wld m' = (wld m)\<lparr>w_heap := H'\<rparr>"
      using R by blast
    have i': "i < length ?xs" using i bs(4) by simp
    note i' = i' less_le_trans [OF i' s(2)]
    have "w_heap (wld m') (baddr (tnb (ks' ! i))) = Some ([0], [CNull])"
      using built_upto_new(2) [OF U b bs(6,5) i] s(3,4) i' bs(4) by simp
    then obtain m'' k H'' where m'': "copyTree (tnb_ops ser) (?xs ! i) (m', ks' ! i) = Inr (m'', k)"
        "tnb k = tnb (ks' ! i)" "wld m'' = (wld m')\<lparr>w_heap := H''\<rparr>"
        "built H' (?as ! i) (tn_view (?xs ! i)) H''"
      using TreeNodeImpl.IH [of "?xs ! i" m' "ks' ! i" 0 CNull] nth_mem [OF i'(1)] s(3,4) small(2) i i'
      by (auto dest: in_set_takeD)
    have "?body i s = Inr (m'', TNB (tnb t) (length ?xs) (ks'[i := k]))"
      using s(1) i' m''(1) by (simp add: with_child_def tnb_ops_def tnb_Child_def tnb_PutChild_def)
    moreover have "tnb (ks'[i := k] ! j) = bs ! j" if "j < length ?xs" for j
      using that m''(2) s(3) i' by (cases "j = i") simp_all
    ultimately show ?thesis using m''(3,4) s(2,4) i' by auto
  qed
  have len: "length ?vs = length ?as"
    and start: "?R (m2, TNB (tnb t) (length ?xs) ks) (new_children ?H ?b v ?as)"
    using bs(2-4,7) by auto
  have "\<exists>s H3. fold_result ?body [0..<length ?as] (m2, TNB (tnb t) (length ?xs) ks) = Inr s \<and> ?R s H3 \<and>
      built ?H ?b (VT v ?vs) H3"
    by (rule fold_result_built [where R = ?R, OF b bs(5,6) len step start])
  then obtain m3 ks3 H3 where m3: "fold_result ?body [0..<length ?as] (m2, TNB (tnb t) (length ?xs) ks) =
        Inr (m3, TNB (tnb t) (length ?xs) ks3)"
      "wld m3 = (wld m)\<lparr>w_heap := H3\<rparr>" "built ?H ?b (VT v ?vs) H3" by blast
  have "copyTree (tnb_ops ser) (TreeNodeImpl v n cs) (m, t) = Inr (m3, TNB (tnb t) (length ?xs) ks3)"
    using m1(1) bs(1,4) m3(1) by (simp add: fold_result_enumerate tnb_ops_def tnb_SetValue_def)
  with m3(2,3) show ?case by auto
qed

lemma md_filler:
  assumes "n < 2 ^ 28"
  shows "tree_filler (tnb_ops ser) (md_start wld baddr) (md_filled wld baddr) n l"
proof unfold_locales
  fix "to" and "from" :: TreeNodeImpl
  assume start: "md_start wld baddr to" and within: "vwithin n l (tn_view from)"
  obtain m t where t: "to = (m, t)" by (cases "to")
  obtain w q where "w_heap (wld m) (baddr (tnb t)) = Some ([w], [q])"
    using start t by (auto simp: md_start_def)
  with within assms copyTree_built [of m t w q "from"] t
  show "\<exists>to'. copyTree (tnb_ops ser) from to = Inr to' \<and> md_filled wld baddr to to' (tn_view from)"
    by (auto simp: vwithin_def md_filled_def)
qed

end

section \<open>Reading the reply\<close>

fun tnr_view :: "('m, 'b, 's) md_ser \<Rightarrow> 'm \<Rightarrow> 's tnReaderAdapterAlt \<Rightarrow> vtree" where
  "tnr_view ser m (TNR s n cs) = VT (ms_Int64 ser m s 0) (map (tnr_view ser m) (take n cs))"

fun tnr_wf :: "'s tnReaderAdapterAlt \<Rightarrow> bool" where
  "tnr_wf (TNR s n cs) \<longleftrightarrow> n \<le> length cs \<and> (\<forall>c \<in> set (take n cs). tnr_wf c)"

lemma md_reader:
  fixes ser :: "('m, 'b, 's) md_ser"
  shows "tree_reader (tnr_ops ser) (\<lambda>(m, r). tnr_view ser m r) (\<lambda>(m, r). tnr_wf r)"
proof unfold_locales
  fix t :: "'m \<times> 's tnReaderAdapterAlt"
  assume ok: "case t of (m, r) \<Rightarrow> tnr_wf r"
  obtain m s n cs where t: "t = (m, TNR s n cs)" by (metis prod.exhaust tnReaderAdapterAlt.exhaust)
  show "op_GetValue (tnr_ops ser) t = vvalue (case t of (m, r) \<Rightarrow> tnr_view ser m r)"
    by (simp add: t tnr_ops_def tnr_GetValue_def)
  show "op_ChildrenCount (tnr_ops ser) t = Inr (length (vchildren (case t of (m, r) \<Rightarrow> tnr_view ser m r)))"
    using ok by (simp add: t tnr_ops_def tnr_ChildrenCount_def)
  fix i assume "i < length (vchildren (case t of (m, r) \<Rightarrow> tnr_view ser m r))"
  then have "i < n" "i < length (take n cs)" by (simp_all add: t)
  moreover from this have "cs ! i \<in> set (take n cs)" by (metis nth_mem nth_take)
  ultimately show "\<exists>c. op_Child (tnr_ops ser) t i = Inr c \<and> (case c of (m, r) \<Rightarrow> tnr_wf r) \<and>
      (case c of (m, r) \<Rightarrow> tnr_view ser m r) = vchildren (case t of (m, r) \<Rightarrow> tnr_view ser m r) ! i"
    using ok by (simp add: t tnr_ops_def tnr_Child_def)
qed

lemma tnr_set_tn [simp]: "tnr (set_tn s r) = s"
  by (cases r) simp

context md_memory
begin

lemma Children_at:
  assumes "w_heap (wld m) (saddr s) = Some (d, [p])" "listy p" "0 < lim s"
  shows "\<exists>ss. treeNode_Children ser m s = Inr ss \<and> map saddr ss = elems p \<and>
    (\<forall>s' \<in> set ss. lim s - 1 \<le> lim s')"
  using read_list [OF assms(1), of 0] assms(2,3) by (simp add: treeNode_Children_def)

lemma Value_at: "w_heap (wld m) (saddr s) = Some ([v], ps) \<Longrightarrow> treeNode_Value ser m s = v"
  using int64 [of m s "[v]" ps 0] by (simp add: treeNode_Value_def)

text \<open>\<open>reset\<close> makes an adapter show the tree of a message, whatever tree it showed before.\<close>

lemma tnr_reset_ok:
  assumes "holds (w_heap (wld m)) x" "tree_cv (cvalue x)" "root x = saddr (tnr r)"
    and "vlow k (avt x)" "k < lim (tnr r)"
  shows "\<exists>r'. tnr_reset ser m r = Some (None, r') \<and> tnr_wf r' \<and> tnr_view ser m r' = avt x"
  using assms
proof (induction x arbitrary: r k rule: aval_induct)
  case (AV a d ps)
  obtain tn n0 cs0 where r: "r = TNR tn n0 cs0" by (cases r)
  from AV.prems(2) obtain a' v p where "AV a d ps = AV a' [v] [p]" "listy p"
      "\<forall>y \<in> set (elems p). tree_cv (cvalue y)"
    by (rule tree_cvE)
  then have eq: "d = [v]" "ps = [p]" "listy p" "\<forall>y \<in> set (elems p). tree_cv (cvalue y)" by simp_all
  let ?xs = "elems p"
  have at: "w_heap (wld m) (saddr tn) = Some ([v], [map_cptr root p])"
    using AV.prems(1,3) eq r by auto
  obtain ss where ss: "treeNode_Children ser m tn = Inr ss" "map saddr ss = map root ?xs"
      "\<forall>s' \<in> set ss. lim tn - 1 \<le> lim s'"
    using Children_at [OF at] eq(3) AV.prems(5) r by auto
  have n: "length ss = length ?xs" using ss(2) by (metis length_map)
  let ?n = "length ss" and ?ok = "\<lambda>c y. tnr_wf c \<and> tnr_view ser m c = avt y"
  let ?cs1 = "if ?n \<le> length cs0 then cs0 else replicate ?n (TNR (ms_zero_struct ser) 0 [])"
  let ?body = "\<lambda>i cs. Option.bind (tnr_reset ser m (set_tn (ss ! i) (cs ! i))) (\<lambda>(err, c). Some (err, cs[i := c]))"
  let ?I = "\<lambda>i s. ?n \<le> length s \<and> (\<forall>j < i. ?ok (s ! j) (?xs ! j))"
  have step: "\<exists>s'. ?body i s = Some (None, s') \<and> ?I (Suc i) s'" if i: "i < ?n" and I: "?I i s" for i s
  proof -
    have y: "?xs ! i \<in> set ?xs" "?xs ! i \<in> set (all_elems ps)" using nth_mem [of i ?xs] i n eq by simp_all
    obtain k' where k': "k = Suc k'" "vlow k' (avt (?xs ! i))" using vlow_child [OF AV.prems(4) y(2)] by blast
    have "holds (w_heap (wld m)) (?xs ! i)" using AV.prems(1) y(1) eq by auto
    moreover have "root (?xs ! i) = saddr (ss ! i)" using ss(2) i n by (metis nth_map)
    moreover have "lim tn - 1 \<le> lim (ss ! i)" using ss(3) i by simp
    then have "k' < lim (ss ! i)" using AV.prems(5) k'(1) r by simp
    ultimately obtain c where c: "tnr_reset ser m (set_tn (ss ! i) (s ! i)) = Some (None, c)" "?ok c (?xs ! i)"
      using AV.IH [OF y(2), of "set_tn (ss ! i) (s ! i)" k'] eq(4) y(1) k'(2) by auto
    moreover have "?I (Suc i) (s[i := c])"
      using I c(2) less_le_trans [OF i conjunct1 [OF I]] by (auto simp: nth_list_update less_Suc_eq)
    ultimately show ?thesis by simp
  qed
  have "?I 0 ?cs1" by simp
  then obtain cs where cs: "run_opt ?body [0..<?n] ?cs1 = Some (None, cs)" "?I ?n cs"
    using run_opt_upt_inv [where I = ?I and f = ?body and n = ?n and m = 0 and s = ?cs1, OF step] by blast
  have "tnr_reset ser m r = Some (None, TNR tn ?n cs)"
    using r ss(1) cs(1) by (subst tnr_reset.simps) (simp add: Let_def)
  moreover have "map (tnr_view ser m) (take ?n cs) = map (\<lambda>y. avt y) ?xs"
    using cs(2) n by (intro nth_equalityI) simp_all
  moreover have "\<forall>c \<in> set (take ?n cs). tnr_wf c" using cs(2) by (auto simp: in_set_conv_nth)
  ultimately show ?case
    using cs(2) eq int64 [OF at, of 0] by (simp add: o_def)
qed

text \<open>The handler's \<open>multTree\<close> builds the multiplied tree in the results.\<close>

lemma md_multTree_built:
  assumes "holds (w_heap (wld m)) x" "tree_cv (cvalue x)" "root x = saddr inp"
    and "vlow k (avt x)" "k < lim inp" "vnodes (avt x) < 2 ^ 28"
    and "w_heap (wld m) (baddr out) = Some ([w], [q])" "baddr out \<notin> set (addrs x)"
  shows "\<exists>m' H'. md_multTree ser mul inp out m = Some (None, m') \<and> wld m' = (wld m)\<lparr>w_heap := H'\<rparr> \<and>
    built (w_heap (wld m)) (baddr out) (vmult mul (avt x)) H'"
  using assms
proof (induction x arbitrary: inp out m k w q rule: aval_induct)
  case (AV a d ps)
  from AV.prems(2) obtain a' v p where "AV a d ps = AV a' [v] [p]" "listy p"
      "\<forall>y \<in> set (elems p). tree_cv (cvalue y)"
    by (rule tree_cvE)
  then have eq: "d = [v]" "ps = [p]" "listy p" "\<forall>y \<in> set (elems p). tree_cv (cvalue y)" by simp_all
  let ?H = "w_heap (wld m)" and ?xs = "elems p" and ?b = "baddr out" and ?v = "v * mul"
  have at: "?H (saddr inp) = Some ([v], [map_cptr root p])" and ne: "saddr inp \<noteq> ?b"
    using AV.prems(1,3,8) eq by auto
  obtain m1 where m1: "treeNodeBuilder_SetValue ser out ?v m = (None, m1)"
      "wld m1 = (wld m)\<lparr>w_heap := ?H(?b \<mapsto> ([?v], [q]))\<rparr>"
    using SetValue_at [OF AV.prems(7)] by blast
  obtain hs where hs: "treeNode_Children ser m1 inp = Inr hs" "map saddr hs = map root ?xs"
      "\<forall>h' \<in> set hs. lim inp - 1 \<le> lim h'"
    using Children_at [of m1 inp "[v]" "map_cptr root p"] m1(2) at ne eq(3) AV.prems(5) by auto
  have n: "length hs = length ?xs" using hs(2) by (metis length_map)
  have small: "length ?xs < 2 ^ 28" "\<forall>y \<in> set ?xs. vnodes (avt y) < 2 ^ 28"
    using tree_children_small [OF AV.prems(6)] eq by simp_all
  obtain ts m2 where ts: "treeNodeBuilder_NewChildren ser out (length hs) (length hs) m1 = (Inr ts, m2)"
      "length ts = length hs" "distinct (map baddr ts)" "set (map baddr ts) \<inter> dom ?H = {}"
      "wld m2 = (wld m)\<lparr>w_heap := new_children ?H ?b ?v (map baddr ts)\<rparr>"
    using NewChildren_at [of m1 out ?v q "length hs"] m1(2) small(1) n AV.prems(7) by auto
  let ?body = "\<lambda>i m. case treeNodeListBuilder_At ser ts i of Inl err \<Rightarrow> Some (Some err, m)
      | Inr c \<Rightarrow> md_multTree ser mul (hs ! i) c m"
  have copy: "\<exists>s' H'. md_multTree ser mul h t s = Some (None, s') \<and> wld s' = (wld s)\<lparr>w_heap := H'\<rparr> \<and>
      built (w_heap (wld s)) (baddr t) (vmult mul (avt y)) H'"
    if y: "y \<in> set ?xs" "h \<in> set hs" "root y = saddr h" "holds (w_heap (wld s)) y"
      "w_heap (wld s) (baddr t) = Some ([0], [CNull])" "baddr t \<notin> set (addrs y)" for y h t s
  proof -
    have mem: "y \<in> set (all_elems ps)" using y(1) eq by simp
    then obtain k' where k': "k = Suc k'" "vlow k' (avt y)" using vlow_child [OF AV.prems(4)] by blast
    have "lim inp - 1 \<le> lim h" using hs(3) y(2) by blast
    then have "k' < lim h" using AV.prems(5) k'(1) by linarith
    then show ?thesis
      using AV.IH [OF mem y(4) _ y(3), of k' t] y k'(2) eq(4) small(2) by auto
  qed
  have b: "?b \<in> dom ?H" using AV.prems(7) by blast
  have xs: "\<forall>y \<in> set ?xs. holds ?H y \<and> ?b \<notin> set (addrs y)" using AV.prems(1,8) eq by auto
  have body: "?body i s = md_multTree ser mul (hs ! i) (ts ! i) s" if "i < length hs" for i s
    using that ts(2) by (simp add: At_at)
  have "\<exists>m3 H3. run_opt ?body [0..<length hs] m2 = Some (None, m3) \<and> wld m3 = (wld m)\<lparr>w_heap := H3\<rparr> \<and>
      built ?H ?b (VT ?v (map (\<lambda>y. vmult mul (avt y)) ?xs)) H3"
    by (rule copy_children [OF b ts(3,4,2) hs(2) xs copy body ts(5)])
  then obtain m3 H3 where m3: "run_opt ?body [0..<length hs] m2 = Some (None, m3)"
      "wld m3 = (wld m)\<lparr>w_heap := H3\<rparr>" "built ?H ?b (VT ?v (map (\<lambda>y. vmult mul (avt y)) ?xs)) H3" by blast
  have "md_multTree ser mul inp out m = Some (None, m3)"
    using m1(1) hs(1) ts(1) m3(1) Value_at [OF at] by (subst md_multTree.simps) (simp add: Let_def)
  with m3(2,3) eq show ?case by (auto simp: o_def)
qed

end

section \<open>The server\<close>

lemma method_ids [simp]:
  "api_nop_methodId \<noteq> api_add_methodId" "api_nop_methodId \<noteq> api_toHex_methodId"
  "api_nop_methodId \<noteq> api_multTree_methodId" "api_add_methodId \<noteq> api_nop_methodId"
  "api_add_methodId \<noteq> api_toHex_methodId" "api_add_methodId \<noteq> api_multTree_methodId"
  "api_toHex_methodId \<noteq> api_nop_methodId" "api_toHex_methodId \<noteq> api_add_methodId"
  "api_toHex_methodId \<noteq> api_multTree_methodId" "api_multTree_methodId \<noteq> api_nop_methodId"
  "api_multTree_methodId \<noteq> api_add_methodId" "api_multTree_methodId \<noteq> api_toHex_methodId"
  by (simp_all add: api_nop_methodId_def api_add_methodId_def api_toHex_methodId_def api_multTree_methodId_def)

lemma md_Call_dispatch:
  assumes "mk_InterfaceId ctx c = api_interfaceId"
  shows "mk_MethodId ctx c = api_nop_methodId \<Longrightarrow> md_Call ser ctx c m = Some (None, m)"
    and "mk_MethodId ctx c = api_add_methodId \<Longrightarrow> md_Call ser ctx c m = Some (md_handleAdd ser ctx c m)"
    and "mk_MethodId ctx c = api_multTree_methodId \<Longrightarrow> md_Call ser ctx c m = md_handleMultTree ser ctx c m"
    and "mk_MethodId ctx c = api_toHex_methodId \<Longrightarrow> md_Call ser ctx c m = Some (md_handleToHex ser ctx c m)"
  using assms by (simp_all add: md_Call_def)

context md_memory
begin

lemma md_handleAdd_ok:
  assumes "mk_ParamsStruct ctx m c = Inr req" "stored (w_heap (wld m)) (saddr req) (CV [a, b] [])"
    and "w_results (wld m) c = None"
  shows "\<exists>m' r. md_handleAdd ser ctx c m = (None, m') \<and> w_up (wld m') = w_up (wld m) \<and>
    w_results (wld m') c = Some r \<and> stored (w_heap (wld m')) r (CV [a + b] [])"
proof -
  have args: "w_heap (wld m) (saddr req) = Some ([a, b], [])"
    using assms(2) by (simp add: stored_flat)
  obtain s m1 where m1: "mk_RespondAsStruct ctx c addResponseSize 0 m = (Inr s, m1)"
      "wld m1 = (wld m)\<lparr>w_heap := (w_heap (wld m))(baddr s \<mapsto> ([0], [])),
        w_results := (w_results (wld m))(c \<mapsto> baddr s)\<rparr>"
    using respond [OF assms(3), of addResponseSize 0] by (auto simp: zero_obj_def addResponseSize_def)
  obtain m2 where m2: "addResponseBuilder_SetC ser s (a + b) m1 = (None, m2)"
      "wld m2 = (wld m1)\<lparr>w_heap := (w_heap (wld m1))(baddr s \<mapsto> ([a + b], []))\<rparr>"
    using set_int64 [of m1 s "[0]" "[]" 0 "a + b"] m1(2) by (auto simp: addResponseBuilder_SetC_def)
  have "addRequest_A ser m req = a" "addRequest_B ser m req = b"
    using int64 [OF args, of 0] int64 [OF args, of 1] by (simp_all add: addRequest_A_def addRequest_B_def)
  with assms(1) m1(1) m2(1) have "md_handleAdd ser ctx c m = (None, m2)"
    by (simp add: md_handleAdd_def)
  with m1(2) m2(2) show ?thesis by (auto simp: stored_flat)
qed

lemma md_handleToHex_ok:
  assumes "mk_ParamsStruct ctx m c = Inr req" "stored (w_heap (wld m)) (saddr req) (CV [] [CData p])"
    and "w_results (wld m) c = None" "0 < lim req" "2 * length p < 2 ^ 29"
  shows "\<exists>m' r. md_handleToHex ser ctx c m = (None, m') \<and> w_up (wld m') = w_up (wld m) \<and>
    w_results (wld m') c = Some r \<and> stored (w_heap (wld m')) r (CV [] [CData (hex_encode p)])"
proof -
  have args: "w_heap (wld m) (saddr req) = Some ([], [CData p])"
    using assms(2) by (simp add: stored_data)
  have inp: "hexRequest_Data ser m req = p"
    using data [OF args, of 0] assms(4) by (simp add: hexRequest_Data_def)
  obtain s m1 where m1: "mk_RespondAsStruct ctx c hexResponseSize (ms_StorageWordCount ser (length p * 2)) m = (Inr s, m1)"
      "wld m1 = (wld m)\<lparr>w_heap := (w_heap (wld m))(baddr s \<mapsto> ([], [CNull])),
        w_results := (w_results (wld m))(c \<mapsto> baddr s)\<rparr>"
    using respond [OF assms(3), of hexResponseSize] by (force simp: zero_obj_def hexResponseSize_def)
  have "w_heap (wld m1) (baddr s) = Some ([], [CNull])" using m1(2) by simp
  from new_data [OF this, of 0 "length p * 2"] assms(5)
  obtain out m2 where m2: "hexResponseBuilder_NewHexData ser s (length p * 2) m1 = (Inr out, m2)"
      "\<And>bs. length bs = length p * 2 \<Longrightarrow>
        wld (out bs m2) = (wld m1)\<lparr>w_heap := (w_heap (wld m1))(baddr s \<mapsto> ([], [CData bs]))\<rparr>"
    by (auto simp: hexResponseBuilder_NewHexData_def mult.commute)
  have "md_handleToHex ser ctx c m = (None, out (hex_encode p) m2)"
    using assms(1) inp m1(1) m2(1) by (simp add: md_handleToHex_def Let_def)
  moreover have "wld (out (hex_encode p) m2) =
      (wld m1)\<lparr>w_heap := (w_heap (wld m1))(baddr s \<mapsto> ([], [CData (hex_encode p)]))\<rparr>"
    by (rule m2(2)) simp
  ultimately show ?thesis using m1(2) by (auto simp: stored_data)
qed

lemma md_handleMultTree_ok:
  assumes "mk_ParamsStruct ctx m c = Inr req" "0 < lim req"
    and "stored (w_heap (wld m)) (saddr req) (CV [mult] [CStruct t])" "tree_cv t"
    and "w_results (wld m) c = None" "vlow k (vt_of t)" "k < 100" "vnodes (vt_of t) < 2 ^ 28"
  shows "\<exists>m' r t'. md_handleMultTree ser ctx c m = Some (None, m') \<and> w_up (wld m') = w_up (wld m) \<and>
    w_results (wld m') c = Some r \<and> stored (w_heap (wld m')) r t' \<and>
    tree_cv t' \<and> vt_of t' = vmult mult (vt_of t)"
proof -
  let ?H = "w_heap (wld m)"
  obtain x where x: "cvalue x = t" "?H (saddr req) = Some ([mult], [CStruct (root x)])" "holds ?H x"
    using assms(3) by (auto simp: stored_struct)
  obtain h where h: "multTreeRequest_Tree ser m req = Inr h" "saddr h = root x"
    using read_struct [OF x(2), of 0] assms(2) by (auto simp: multTreeRequest_Tree_def)
  let ?in = "ms_StructWithDepthLimit ser h 100" and ?hint = "ms_ArenaTotalSize ser m req"
  obtain s m1 where m1: "mk_RespondAsStruct ctx c treeNode_size ?hint m = (Inr s, m1)" "baddr s \<notin> dom ?H"
      "wld m1 = (wld m)\<lparr>w_heap := ?H(baddr s \<mapsto> ([0], [CNull])), w_results := (w_results (wld m))(c \<mapsto> baddr s)\<rparr>"
    using respond [OF assms(5), of treeNode_size ?hint] by (auto simp: zero_obj_def treeNode_size_def)
  have fresh: "baddr s \<notin> set (addrs x)" using holds_addrs [OF x(3)] m1(2) by auto
  have "baddr s \<noteq> saddr req" using x(2) m1(2) by auto
  then have mult: "multTreeRequest_Mult ser m1 req = mult"
    using int64 [of m1 req "[mult]" "[CStruct (root x)]" 0] m1(3) x(2) by (simp add: multTreeRequest_Mult_def)
  have "holds (w_heap (wld m1)) x = holds ?H x" using m1(3) fresh by (intro holds_cong) auto
  then obtain m2 H2 where m2: "md_multTree ser mult ?in s m1 = Some (None, m2)"
      "wld m2 = (wld m1)\<lparr>w_heap := H2\<rparr>" "built (w_heap (wld m1)) (baddr s) (vmult mult (avt x)) H2"
    using md_multTree_built [of m1 x ?in k s 0 CNull mult] assms(4,6-8) x h(2) depth [of h 100] m1(3) fresh
    by auto
  then obtain y where y: "root y = baddr s" "avt y = vmult mult (avt x)" "tree_in H2 y"
    unfolding built_def by blast
  then have "stored H2 (baddr s) (cvalue y)" "tree_cv (cvalue y)" by (auto simp: stored_def tree_in_def)
  moreover have "md_handleMultTree ser ctx c m = Some (None, m2)"
    using assms(1) h(1) m1(1) mult m2(1) by (simp add: md_handleMultTree_def Let_def)
  ultimately show ?thesis using m1(3) m2(2) y(2) x(1) by auto
qed

end

section \<open>The clients over a connection to this server\<close>

definition md_up ::
  "('m \<Rightarrow> ('c, 'f) md_world) \<Rightarrow> 'f \<Rightarrow> ('m, 'f, 'z) md_client_scheme \<Rightarrow> bool" where
  "md_up wld boot c \<longleftrightarrow> w_up (wld (mc_m c)) \<and> mc_api c = boot"

lemma md_up_update: "md_up wld boot c \<Longrightarrow> md_up wld boot (c\<lparr>mc_m := m\<rparr>) = w_up (wld m)"
  by (simp add: md_up_def)

context md_connection
begin

text \<open>Waiting for a registered call, once its handler is known.\<close>

lemma served:
  assumes "w_up (wld m)" "w_pending (wld m) f = Some ((api_interfaceId, mid), Some a)"
    and "stored (w_heap (wld m)) a v" "csize v \<le> max_size"
    and handler: "\<And>c m' req. mk_InterfaceId ctx c = api_interfaceId \<Longrightarrow> mk_MethodId ctx c = mid \<Longrightarrow>
      mk_ParamsStruct ctx m' c = Inr req \<Longrightarrow> stored (w_heap (wld m')) (saddr req) v \<Longrightarrow> 0 < lim req \<Longrightarrow>
      w_results (wld m') c = None \<Longrightarrow>
      \<exists>m'' r w. md_Call ser ctx c m' = Some (None, m'') \<and> w_up (wld m'') = w_up (wld m') \<and>
        w_results (wld m'') c = Some r \<and> stored (w_heap (wld m'')) r w \<and> csize w \<le> max_size \<and> P w"
  shows "\<exists>s rr m1 w. mr_WaitResults rpc f m = (Inr (s, rr), m1) \<and> stored (w_heap (wld m1)) (saddr s) w \<and>
    P w \<and> 0 < lim s \<and> w_up (wld m1)"
proof -
  have "md_serves ser ctx rpc wld saddr lim max_size (api_interfaceId, mid) v f m"
    using wait [OF assms(1-4)] .
  then obtain c m' req where c: "w_up (wld m')" "w_results (wld m') c = None"
      "mk_InterfaceId ctx c = api_interfaceId" "mk_MethodId ctx c = mid"
      "mk_ParamsStruct ctx m' c = Inr req" "stored (w_heap (wld m')) (saddr req) v" "0 < lim req"
      "\<forall>err m''. md_Call ser ctx c m' = Some (err, m'') \<longrightarrow> w_up (wld m'') \<longrightarrow>
         md_returns rpc wld saddr lim max_size f m c err m''"
    unfolding md_serves_def by auto
  obtain m'' r w where r: "md_Call ser ctx c m' = Some (None, m'')" "w_up (wld m'') = w_up (wld m')"
      "w_results (wld m'') c = Some r" "stored (w_heap (wld m'')) r w" "csize w \<le> max_size" "P w"
    using handler [OF c(3-7,2)] by blast
  then have "md_returns rpc wld saddr lim max_size f m c None m''" using c(1,8) by blast
  with r(3-6) show ?thesis unfolding md_returns_def option.case by blast
qed

lemma md_Nop_ok:
  assumes "md_up wld boot c"
  shows "\<exists>m. md_Nop rpc c = (None, c\<lparr>mc_m := m\<rparr>) \<and> md_up wld boot (c\<lparr>mc_m := m\<rparr>)"
proof -
  have up: "w_up (wld (mc_m c))" using assms by (simp add: md_up_def)
  obtain q m1 where q: "mr_SetupCallNoParams rpc boot api_interfaceId api_nop_methodId (mc_m c) = (q, m1)"
      "wld m1 = wld (mc_m c)"
    and call: "\<forall>m2. w_up (wld m2) \<longrightarrow> (\<exists>f m3. mr_RemoteCall rpc boot q m2 = (f, m3) \<and>
      wld m3 = (wld m2)\<lparr>w_pending := (w_pending (wld m2))(f \<mapsto> ((api_interfaceId, api_nop_methodId), None))\<rparr>)"
    using setup_no_params [OF up, of api_interfaceId api_nop_methodId] by blast
  have up1: "w_up (wld m1)" using q(2) up by simp
  obtain f m3 where f: "mr_RemoteCall rpc boot q m1 = (f, m3)" "w_up (wld m3)"
      "w_pending (wld m3) f = Some ((api_interfaceId, api_nop_methodId), None)"
    using call [rule_format, OF up1] up1 by auto
  obtain k m' where k: "w_up (wld m')" "mk_InterfaceId ctx k = api_interfaceId"
      "mk_MethodId ctx k = api_nop_methodId"
      "\<forall>err m''. md_Call ser ctx k m' = Some (err, m'') \<longrightarrow> w_up (wld m'') \<longrightarrow>
         md_returns rpc wld saddr lim max_size f m3 k err m''"
    using wait_no_params [OF f(2,3)] unfolding md_serves_def by auto
  then have "md_returns rpc wld saddr lim max_size f m3 k None m'"
    using md_Call_dispatch(1) [OF k(2,3)] by blast
  then obtain m4 where "mr_VoidWait rpc f m3 = (None, m4)" "w_up (wld m4)"
    unfolding md_returns_def by auto
  with q(1) f(1) assms show ?thesis
    by (auto simp: md_Nop_def testAPI_Nop_def md_up_def)
qed

text \<open>Setting a call up, filling its parameters and registering it.\<close>

lemma setup_at:
  assumes "w_up (wld m)"
  shows "\<exists>q b m1. mr_SetupCallWithStructParams rpc boot hint iid mid sz m = ((q, b), m1) \<and>
    wld m1 = (wld m)\<lparr>w_heap := (w_heap (wld m))(baddr b \<mapsto> zero_obj sz)\<rparr> \<and> w_up (wld m1) \<and>
    (\<forall>m2. w_up (wld m2) \<longrightarrow>
      (\<exists>f m3. mr_RemoteCall rpc boot (mr_WantShallowReturnCopy rpc q) m2 = (f, m3) \<and>
         w_pending (wld m3) f = Some ((iid, mid), Some (baddr b)) \<and> w_heap (wld m3) = w_heap (wld m2) \<and>
         w_up (wld m3)))"
proof -
  obtain q b m1 where q: "mr_SetupCallWithStructParams rpc boot hint iid mid sz m = ((q, b), m1)"
      "wld m1 = (wld m)\<lparr>w_heap := (w_heap (wld m))(baddr b \<mapsto> zero_obj sz)\<rparr>"
    and call: "\<forall>m2. w_up (wld m2) \<longrightarrow>
      (\<exists>f m3. mr_RemoteCall rpc boot (mr_WantShallowReturnCopy rpc q) m2 = (f, m3) \<and>
         wld m3 = (wld m2)\<lparr>w_pending := (w_pending (wld m2))(f \<mapsto> ((iid, mid), Some (baddr b)))\<rparr>)"
    using setup_params [OF assms, of hint iid mid sz] by blast
  have "\<exists>f m3. mr_RemoteCall rpc boot (mr_WantShallowReturnCopy rpc q) m2 = (f, m3) \<and>
      w_pending (wld m3) f = Some ((iid, mid), Some (baddr b)) \<and> w_heap (wld m3) = w_heap (wld m2) \<and>
      w_up (wld m3)" if up: "w_up (wld m2)" for m2
    using call [rule_format, OF up] up by auto
  with q assms show ?thesis by auto
qed

lemma md_Add_ok:
  assumes "md_up wld boot c" "1 \<le> max_size"
  shows "\<exists>m. md_Add ser rpc c a b = (Inr (a + b), c\<lparr>mc_m := m\<rparr>) \<and> md_up wld boot (c\<lparr>mc_m := m\<rparr>)"
proof -
  let ?m = "mc_m c"
  have up: "w_up (wld ?m)" "mc_api c = boot" using assms(1) by (simp_all add: md_up_def)
  obtain q req m1 where q: "mr_SetupCallWithStructParams rpc boot (ms_TotalSize ser addRequestSize)
        api_interfaceId api_add_methodId addRequestSize ?m = ((q, req), m1)"
      "wld m1 = (wld ?m)\<lparr>w_heap := (w_heap (wld ?m))(baddr req \<mapsto> ([0, 0], []))\<rparr>"
    and call: "\<forall>m2. w_up (wld m2) \<longrightarrow>
      (\<exists>f m3. mr_RemoteCall rpc boot (mr_WantShallowReturnCopy rpc q) m2 = (f, m3) \<and>
         w_pending (wld m3) f = Some ((api_interfaceId, api_add_methodId), Some (baddr req)) \<and>
         w_heap (wld m3) = w_heap (wld m2) \<and> w_up (wld m3))"
    using setup_at [OF up(1), of "ms_TotalSize ser addRequestSize" api_interfaceId api_add_methodId addRequestSize]
    by (auto simp: zero_obj_def addRequestSize_def numeral_2_eq_2)
  obtain m2 where m2: "addRequestBuilder_SetA ser req a m1 = (None, m2)"
      "wld m2 = (wld ?m)\<lparr>w_heap := (w_heap (wld ?m))(baddr req \<mapsto> ([a, 0], []))\<rparr>"
    using set_int64 [of m1 req "[0, 0]" "[]" 0 a] q(2) by (auto simp: addRequestBuilder_SetA_def)
  obtain m3 where m3: "addRequestBuilder_SetB ser req b m2 = (None, m3)"
      "wld m3 = (wld ?m)\<lparr>w_heap := (w_heap (wld ?m))(baddr req \<mapsto> ([a, b], []))\<rparr>"
    using set_int64 [of m2 req "[a, 0]" "[]" 1 b] m2(2) by (auto simp: addRequestBuilder_SetB_def)
  have up3: "w_up (wld m3)" using m3(2) up(1) by simp
  obtain f m4 where f: "mr_RemoteCall rpc boot (mr_WantShallowReturnCopy rpc q) m3 = (f, m4)"
      "w_pending (wld m4) f = Some ((api_interfaceId, api_add_methodId), Some (baddr req))"
      "w_heap (wld m4) = w_heap (wld m3)" "w_up (wld m4)"
    using call [rule_format, OF up3] by blast
  have st: "stored (w_heap (wld m4)) (baddr req) (CV [a, b] [])" "csize (CV [a, b] []) \<le> max_size"
    using f(3) m3(2) assms(2) by (simp_all add: stored_flat)
  have "\<exists>s rr m5 w. mr_WaitResults rpc f m4 = (Inr (s, rr), m5) \<and> stored (w_heap (wld m5)) (saddr s) w \<and>
      w = CV [a + b] [] \<and> 0 < lim s \<and> w_up (wld m5)"
  proof (rule served [OF f(4,2) st])
    fix k m' req
    assume "mk_InterfaceId ctx k = api_interfaceId" "mk_MethodId ctx k = api_add_methodId"
      "mk_ParamsStruct ctx m' k = Inr req" "stored (w_heap (wld m')) (saddr req) (CV [a, b] [])"
      "w_results (wld m') k = None"
    then show "\<exists>m'' r w. md_Call ser ctx k m' = Some (None, m'') \<and> w_up (wld m'') = w_up (wld m') \<and>
        w_results (wld m'') k = Some r \<and> stored (w_heap (wld m'')) r w \<and> csize w \<le> max_size \<and> w = CV [a + b] []"
      using md_handleAdd_ok [of m' k req a b] assms(2) by (auto simp: md_Call_dispatch)
  qed
  then obtain s rr m5 where s: "mr_WaitResults rpc f m4 = (Inr (s, rr), m5)"
      "w_heap (wld m5) (saddr s) = Some ([a + b], [])" "w_up (wld m5)"
    by (auto simp: stored_flat)
  have "addResponse_C ser m5 s = a + b" using int64 [OF s(2), of 0] by (simp add: addResponse_C_def)
  with q(1) m2(1) m3(1) f(1) s(1,3) up release [of m5 rr] show ?thesis
    by (auto simp: md_Add_def testAPI_Add_def futureAddResult_Wait_def md_up_def)
qed

lemma md_ToHex_ok:
  assumes "md_up wld boot c" "2 * length p < 2 ^ 29" "Suc (2 * length p) \<le> max_size" "length z = 2 * length p"
  shows "\<exists>m. md_ToHex ser rpc c p z = (None, hex_encode p, c\<lparr>mc_m := m\<rparr>) \<and> md_up wld boot (c\<lparr>mc_m := m\<rparr>)"
proof -
  let ?m = "mc_m c" and ?hint = "ms_TotalSize ser hexRequestSize + ms_StorageWordCount ser (length p)"
  have up: "w_up (wld ?m)" "mc_api c = boot" using assms(1) by (simp_all add: md_up_def)
  obtain q req m1 where q: "mr_SetupCallWithStructParams rpc boot ?hint
        api_interfaceId api_toHex_methodId hexRequestSize ?m = ((q, req), m1)"
      "wld m1 = (wld ?m)\<lparr>w_heap := (w_heap (wld ?m))(baddr req \<mapsto> ([], [CNull]))\<rparr>"
    and call: "\<forall>m2. w_up (wld m2) \<longrightarrow>
      (\<exists>f m3. mr_RemoteCall rpc boot (mr_WantShallowReturnCopy rpc q) m2 = (f, m3) \<and>
         w_pending (wld m3) f = Some ((api_interfaceId, api_toHex_methodId), Some (baddr req)) \<and>
         w_heap (wld m3) = w_heap (wld m2) \<and> w_up (wld m3))"
    using setup_at [OF up(1), of ?hint api_interfaceId api_toHex_methodId hexRequestSize]
    by (auto simp: zero_obj_def hexRequestSize_def)
  obtain m2 where m2: "hexRequestBuilder_SetData ser req p m1 = (None, m2)"
      "wld m2 = (wld ?m)\<lparr>w_heap := (w_heap (wld ?m))(baddr req \<mapsto> ([], [CData p]))\<rparr>"
    using set_data [of m1 req "[]" "[CNull]" 0 p] q(2) assms(2) by (auto simp: hexRequestBuilder_SetData_def)
  have up2: "w_up (wld m2)" using m2(2) up(1) by simp
  obtain f m4 where f: "mr_RemoteCall rpc boot (mr_WantShallowReturnCopy rpc q) m2 = (f, m4)"
      "w_pending (wld m4) f = Some ((api_interfaceId, api_toHex_methodId), Some (baddr req))"
      "w_heap (wld m4) = w_heap (wld m2)" "w_up (wld m4)"
    using call [rule_format, OF up2] by blast
  have st: "stored (w_heap (wld m4)) (baddr req) (CV [] [CData p])" "csize (CV [] [CData p]) \<le> max_size"
    using f(3) m2(2) assms(3) by (simp_all add: stored_data)
  have "\<exists>s rr m5 w. mr_WaitResults rpc f m4 = (Inr (s, rr), m5) \<and> stored (w_heap (wld m5)) (saddr s) w \<and>
      w = CV [] [CData (hex_encode p)] \<and> 0 < lim s \<and> w_up (wld m5)"
  proof (rule served [OF f(4,2) st])
    fix k m' req
    assume "mk_InterfaceId ctx k = api_interfaceId" "mk_MethodId ctx k = api_toHex_methodId"
      "mk_ParamsStruct ctx m' k = Inr req" "stored (w_heap (wld m')) (saddr req) (CV [] [CData p])"
      "w_results (wld m') k = None" "0 < lim req"
    then show "\<exists>m'' r w. md_Call ser ctx k m' = Some (None, m'') \<and> w_up (wld m'') = w_up (wld m') \<and>
        w_results (wld m'') k = Some r \<and> stored (w_heap (wld m'')) r w \<and> csize w \<le> max_size \<and>
        w = CV [] [CData (hex_encode p)]"
      using md_handleToHex_ok [of m' k req p] assms(2,3) by (auto simp: md_Call_dispatch)
  qed
  then obtain s rr m5 where s: "mr_WaitResults rpc f m4 = (Inr (s, rr), m5)"
      "w_heap (wld m5) (saddr s) = Some ([], [CData (hex_encode p)])" "w_up (wld m5)" "0 < lim s"
    by (auto simp: stored_data)
  have "hexResponse_HexData ser m5 s = hex_encode p"
    using data [OF s(2), of 0] s(4) by (simp add: hexResponse_HexData_def)
  with q(1) m2(1) f(1) s(1,3) up release [of m5 rr] assms(4) show ?thesis
    by (auto simp: md_ToHex_def testAPI_ToHex_def futureHexResult_Wait_def md_up_def Let_def)
qed

end

context md_connection
begin

text \<open>The parameters of \<open>MultTree\<close>, up to the tree the caller fills.\<close>

lemma tree_params:
  assumes "w_up (wld m)"
  shows "\<exists>f reqb m1 m2 rb m3. testAPI_MultTree ser rpc boot hint m = ((f, reqb), m1) \<and>
    multTreeRequestBuilder_SetMult ser reqb mult m1 = (None, m2) \<and>
    multTreeRequestBuilder_NewTree ser reqb m2 = (Inr rb, m3) \<and> w_up (wld m3) \<and>
    w_pending (wld m3) f = Some ((api_interfaceId, api_multTree_methodId), Some (baddr reqb)) \<and>
    w_heap (wld m3) (baddr reqb) = Some ([mult], [CStruct (baddr rb)]) \<and>
    w_heap (wld m3) (baddr rb) = Some ([0], [CNull]) \<and> baddr reqb \<noteq> baddr rb"
proof -
  let ?hint = "ms_TotalSize ser multTreeRequest_size + hint"
  obtain q reqb n where q: "mr_SetupCallWithStructParams rpc boot ?hint
        api_interfaceId api_multTree_methodId multTreeRequest_size m = ((q, reqb), n)"
      "wld n = (wld m)\<lparr>w_heap := (w_heap (wld m))(baddr reqb \<mapsto> ([0], [CNull]))\<rparr>" "w_up (wld n)"
    and call: "\<forall>m2. w_up (wld m2) \<longrightarrow>
      (\<exists>f m3. mr_RemoteCall rpc boot (mr_WantShallowReturnCopy rpc q) m2 = (f, m3) \<and>
         w_pending (wld m3) f = Some ((api_interfaceId, api_multTree_methodId), Some (baddr reqb)) \<and>
         w_heap (wld m3) = w_heap (wld m2) \<and> w_up (wld m3))"
    using setup_at [OF assms, of ?hint api_interfaceId api_multTree_methodId multTreeRequest_size]
    by (auto simp: zero_obj_def multTreeRequest_size_def)
  obtain f m1 where f: "mr_RemoteCall rpc boot (mr_WantShallowReturnCopy rpc q) n = (f, m1)"
      "w_pending (wld m1) f = Some ((api_interfaceId, api_multTree_methodId), Some (baddr reqb))"
      "w_heap (wld m1) = w_heap (wld n)" "w_up (wld m1)"
    using call [rule_format, OF q(3)] by blast
  obtain m2 where m2: "multTreeRequestBuilder_SetMult ser reqb mult m1 = (None, m2)"
      "wld m2 = (wld m1)\<lparr>w_heap := (w_heap (wld m1))(baddr reqb \<mapsto> ([mult], [CNull]))\<rparr>"
    using set_int64 [of m1 reqb "[0]" "[CNull]" 0 mult] f(3) q(2) by (auto simp: multTreeRequestBuilder_SetMult_def)
  have at: "w_heap (wld m2) (baddr reqb) = Some ([mult], [CNull])" using m2(2) by simp
  obtain rb m3 where m3: "multTreeRequestBuilder_NewTree ser reqb m2 = (Inr rb, m3)"
      "baddr rb \<notin> dom (w_heap (wld m2))"
      "wld m3 = (wld m2)\<lparr>w_heap := (w_heap (wld m2))(baddr rb \<mapsto> ([0], [CNull]),
                                                    baddr reqb \<mapsto> ([mult], [CStruct (baddr rb)]))\<rparr>"
    using new_struct [OF at, of 0 treeNode_size]
    by (auto simp: multTreeRequestBuilder_NewTree_def zero_obj_def treeNode_size_def)
  have ne: "baddr reqb \<noteq> baddr rb" using at m3(2) by (auto simp: domI)
  have "testAPI_MultTree ser rpc boot hint m = ((f, reqb), m1)"
    using q(1) f(1) by (simp add: testAPI_MultTree_def)
  with m2 m3 f(2,4) ne show ?thesis
    by (intro exI [of _ f] exI [of _ reqb] exI [of _ m1] exI [of _ m2] exI [of _ rb] exI [of _ m3]) simp
qed

text \<open>What comes back when the filled parameters are sent.\<close>

lemma tree_reply:
  assumes "w_up (wld m)"
    and "w_pending (wld m) f = Some ((api_interfaceId, api_multTree_methodId), Some (baddr reqb))"
    and "w_heap (wld m) (baddr reqb) = Some ([mult], [CStruct (baddr rb)])" "baddr reqb \<noteq> baddr rb"
    and "wld m4 = (wld m)\<lparr>w_heap := H\<rparr>" "built (w_heap (wld m)) (baddr rb) vt H"
    and vt: "vnodes vt \<le> n" "vlow l vt" "l < 100" "n < 2 ^ 28" "Suc n \<le> max_size"
  shows "\<exists>s rr m5 x. futureMultTree_Wait rpc f m4 = (Inr (s, rr), m5) \<and> holds (w_heap (wld m5)) x \<and>
    tree_cv (cvalue x) \<and> root x = saddr s \<and> avt x = vmult mult vt \<and> w_up (wld m5)"
proof -
  obtain t where t: "stored H (baddr reqb) (CV [mult] [CStruct t])" "tree_cv t" "vt_of t = vt"
    using built_below [OF assms(6,3,4)] by blast
  have m4: "w_up (wld m4)" "w_heap (wld m4) = H"
      "w_pending (wld m4) f = Some ((api_interfaceId, api_multTree_methodId), Some (baddr reqb))"
    using assms(1,2,5) by simp_all
  have st: "stored (w_heap (wld m4)) (baddr reqb) (CV [mult] [CStruct t])"
      "csize (CV [mult] [CStruct t]) \<le> max_size"
    using t m4(2) csize_tree [OF t(2)] vt(1,5) by simp_all
  have "\<exists>s rr m5 w. mr_WaitResults rpc f m4 = (Inr (s, rr), m5) \<and> stored (w_heap (wld m5)) (saddr s) w \<and>
      (tree_cv w \<and> vt_of w = vmult mult vt) \<and> 0 < lim s \<and> w_up (wld m5)"
  proof (rule served [OF m4(1,3) st])
    fix k m' req
    assume k: "mk_InterfaceId ctx k = api_interfaceId" "mk_MethodId ctx k = api_multTree_methodId"
      "mk_ParamsStruct ctx m' k = Inr req" "stored (w_heap (wld m')) (saddr req) (CV [mult] [CStruct t])"
      "0 < lim req" "w_results (wld m') k = None"
    obtain m'' r t' where r: "md_handleMultTree ser ctx k m' = Some (None, m'')" "w_up (wld m'') = w_up (wld m')"
        "w_results (wld m'') k = Some r" "stored (w_heap (wld m'')) r t'" "tree_cv t'" "vt_of t' = vmult mult vt"
      using md_handleMultTree_ok [OF k(3,5,4) t(2) k(6), of l] t(3) vt by auto
    have "csize t' \<le> max_size"
      using csize_tree [OF r(5)] r(6) vnodes_vmult [of mult vt] vt(1,5) by simp
    with r k(1,2) show "\<exists>m'' r w. md_Call ser ctx k m' = Some (None, m'') \<and> w_up (wld m'') = w_up (wld m') \<and>
        w_results (wld m'') k = Some r \<and> stored (w_heap (wld m'')) r w \<and> csize w \<le> max_size \<and>
        (tree_cv w \<and> vt_of w = vmult mult vt)"
      by (auto simp: md_Call_dispatch)
  qed
  then show ?thesis by (auto simp: futureMultTree_Wait_def stored_def)
qed

text \<open>The reply read through an adapter, new or used before.\<close>

lemma reply_adapter:
  assumes "holds (w_heap (wld m)) x" "tree_cv (cvalue x)" "root x = saddr s" "vlow l (avt x)" "l < 100"
    and "tnr r = ms_StructWithDepthLimit ser s 100"
  shows "\<exists>r'. reset_result (tnr_reset ser m r) r = (None, r') \<and> tnr_wf r' \<and> tnr_view ser m r' = avt x"
  using tnr_reset_ok [OF assms(1,2), of r l] assms(3-) depth [of s 100] by (auto simp: reset_result_def)

lemma md_MultTreeValues_ok:
  assumes "md_up wld boot c" and fill: "\<And>t. md_start wld baddr t \<Longrightarrow> \<exists>t'. fill t = Inr t' \<and> md_filled wld baddr t t' vt"
    and "vwithin n l vt" "l < 100" "n < 2 ^ 28" "Suc n \<le> max_size"
  shows "\<exists>m r c'. md_MultTreeValues ser rpc c mult fill = (Inr (m, r), c') \<and> tnr_wf r \<and>
    tnr_view ser m r = vmult mult vt \<and> md_up wld boot c'"
proof -
  have up: "w_up (wld (mc_m c))" "mc_api c = boot" using assms(1) by (simp_all add: md_up_def)
  have vt: "vnodes vt \<le> n" "vlow l vt" using assms(3) by (simp_all add: vwithin_def)
  obtain f reqb m1 m2 rb m3 where p: "testAPI_MultTree ser rpc boot 0 (mc_m c) = ((f, reqb), m1)"
      "multTreeRequestBuilder_SetMult ser reqb mult m1 = (None, m2)"
      "multTreeRequestBuilder_NewTree ser reqb m2 = (Inr rb, m3)" "w_up (wld m3)"
      "w_pending (wld m3) f = Some ((api_interfaceId, api_multTree_methodId), Some (baddr reqb))"
      "w_heap (wld m3) (baddr reqb) = Some ([mult], [CStruct (baddr rb)])"
      "w_heap (wld m3) (baddr rb) = Some ([0], [CNull])" "baddr reqb \<noteq> baddr rb"
    using tree_params [OF up(1), of 0 mult] by blast
  obtain m4 b H where b: "fill (m3, TNB rb 0 []) = Inr (m4, b)" "wld m4 = (wld m3)\<lparr>w_heap := H\<rparr>"
      "built (w_heap (wld m3)) (baddr rb) vt H"
    using fill [of "(m3, TNB rb 0 [])"] p(7) by (auto simp: md_start_def md_filled_def)
  obtain s rr m5 x where s: "futureMultTree_Wait rpc f m4 = (Inr (s, rr), m5)" "holds (w_heap (wld m5)) x"
      "tree_cv (cvalue x)" "root x = saddr s" "avt x = vmult mult vt" "w_up (wld m5)"
    using tree_reply [OF p(4-6,8) b(2,3) vt assms(4-6)] by blast
  let ?tn = "ms_StructWithDepthLimit ser s 100"
  obtain r where "reset_result (tnr_reset ser m5 (TNR ?tn 0 [])) (TNR ?tn 0 []) = (None, r)" "tnr_wf r"
      "tnr_view ser m5 r = vmult mult vt"
    using reply_adapter [OF s(2-4), of l "TNR ?tn 0 []"] s(5) vt(2) assms(4) by (auto simp: vlow_vmult)
  with p(1-3) b(1) s(1,6) up show ?thesis
    by (simp add: md_MultTreeValues_def newTnReaderAdapter_def md_up_def)
qed

lemma md_MultTreeValues_level0_ok:
  assumes "md_up wld boot c" and fill: "\<And>t. md_start wld baddr t \<Longrightarrow> \<exists>t'. fill t = Inr t' \<and> md_filled wld baddr t t' vt"
    and "vwithin n l vt" "l < 100" "n < 2 ^ 28" "Suc n \<le> max_size"
  shows "\<exists>m r c'. md_MultTreeValues_level0 ser rpc c mult fill = (Inr (m, r), c') \<and> tnr_wf r \<and>
    tnr_view ser m r = vmult mult vt \<and> md_up wld boot c'"
proof -
  have up: "w_up (wld (mc_m c))" "mc_api c = boot" using assms(1) by (simp_all add: md_up_def)
  have vt: "vnodes vt \<le> n" "vlow l vt" using assms(3) by (simp_all add: vwithin_def)
  obtain f reqb m1 m2 rb m3 where p: "testAPI_MultTree ser rpc boot 65000 (mc_m c) = ((f, reqb), m1)"
      "multTreeRequestBuilder_SetMult ser reqb mult m1 = (None, m2)"
      "multTreeRequestBuilder_NewTree ser reqb m2 = (Inr rb, m3)" "w_up (wld m3)"
      "w_pending (wld m3) f = Some ((api_interfaceId, api_multTree_methodId), Some (baddr reqb))"
      "w_heap (wld m3) (baddr reqb) = Some ([mult], [CStruct (baddr rb)])"
      "w_heap (wld m3) (baddr rb) = Some ([0], [CNull])" "baddr reqb \<noteq> baddr rb"
    using tree_params [OF up(1), of 65000 mult] by blast
  let ?b0 = "set_tnb rb (mc_buildTree c)"
  obtain m4 b H where b: "fill (m3, ?b0) = Inr (m4, b)" "wld m4 = (wld m3)\<lparr>w_heap := H\<rparr>"
      "built (w_heap (wld m3)) (baddr rb) vt H"
    using fill [of "(m3, ?b0)"] p(7) by (auto simp: md_start_def md_filled_def)
  obtain s rr m5 x where s: "futureMultTree_Wait rpc f m4 = (Inr (s, rr), m5)" "holds (w_heap (wld m5)) x"
      "tree_cv (cvalue x)" "root x = saddr s" "avt x = vmult mult vt" "w_up (wld m5)"
    using tree_reply [OF p(4-6,8) b(2,3) vt assms(4-6)] by blast
  let ?r0 = "set_tn (ms_StructWithDepthLimit ser s 100) (mc_readTree c)"
  obtain r where "reset_result (tnr_reset ser m5 ?r0) ?r0 = (None, r)" "tnr_wf r"
      "tnr_view ser m5 r = vmult mult vt"
    using reply_adapter [OF s(2-4), of l ?r0] s(5) vt(2) assms(4) by (auto simp: vlow_vmult)
  with p(1-3) b(1) s(1,6) up show ?thesis
    by (simp add: md_MultTreeValues_level0_def md_up_def Let_def)
qed

text \<open>Both clients meet the contract of the harness; they differ in \<open>MultTreeValues\<close> alone.\<close>

lemma md_system:
  fixes cl :: "(('m, 'f, 'z) md_client_scheme, 'm \<times> 'b tnBuilderAdapterAlt, 'm \<times> 's tnReaderAdapterAlt) client_ops"
  assumes ops: "cl_Nop cl = md_Nop rpc" "cl_Add cl = md_Add ser rpc" "cl_ToHex cl = md_ToHex ser rpc"
    and mult: "\<And>c vt mult fill. md_up wld boot c \<Longrightarrow>
      (\<And>t. md_start wld baddr t \<Longrightarrow> \<exists>t'. fill t = Inr t' \<and> md_filled wld baddr t t' vt) \<Longrightarrow>
      vwithin n l vt \<Longrightarrow>
      \<exists>m r c'. cl_MultTreeValues cl c mult fill = (Inr (m, r), c') \<and> tnr_wf r \<and>
        tnr_view ser m r = vmult mult vt \<and> md_up wld boot c'"
    and bounds: "n < 2 ^ 28" "Suc n \<le> max_size" "2 * k < 2 ^ 29" "Suc (2 * k) \<le> max_size"
  shows "rpc_system cl (md_up wld boot)
    (tnb_ops ser) (md_start wld baddr) (md_filled wld baddr)
    (tnr_ops ser) (\<lambda>(m, r). tnr_view ser m r) (\<lambda>(m, r). tnr_wf r) n l k"
proof (rule rpc_system.intro)
  show "tree_filler (tnb_ops ser) (md_start wld baddr) (md_filled wld baddr) n l"
    using bounds(1) by (rule md_filler)
  show "tree_reader (tnr_ops ser) (\<lambda>(m, r). tnr_view ser m r) (\<lambda>(m, r). tnr_wf r)"
    by (rule md_reader)
next
  fix c :: "('m, 'f, 'z) md_client_scheme" and a b assume up: "md_up wld boot c"
  show "\<exists>c'. cl_Nop cl c = (None, c') \<and> md_up wld boot c'"
    using md_Nop_ok [OF up] ops by auto
  show "\<exists>c'. cl_Add cl c a b = (Inr (a + b), c') \<and> md_up wld boot c'"
    using md_Add_ok [OF up, of a b] bounds(2) ops by auto
next
  fix c :: "('m, 'f, 'z) md_client_scheme" and vt m
    and fill :: "'m \<times> 'b tnBuilderAdapterAlt \<Rightarrow> ('m \<times> 'b tnBuilderAdapterAlt) result"
  assume "md_up wld boot c" "vwithin n l vt"
    "\<And>t. md_start wld baddr t \<Longrightarrow> \<exists>t'. fill t = Inr t' \<and> md_filled wld baddr t t' vt"
  then show "\<exists>res c'. cl_MultTreeValues cl c m fill = (Inr res, c') \<and>
      (case res of (m, r) \<Rightarrow> tnr_wf r) \<and> (case res of (m, r) \<Rightarrow> tnr_view ser m r) = vmult m vt \<and>
      md_up wld boot c'"
    using mult [of c fill vt m] by auto
next
  fix c :: "('m, 'f, 'z) md_client_scheme" and p q :: "byte list"
  assume "md_up wld boot c" "length p \<le> k" "length q = 2 * length p"
  then show "\<exists>c'. cl_ToHex cl c p q = (None, hex_encode p, c') \<and> md_up wld boot c'"
    using md_ToHex_ok [of c p q] bounds(3,4) ops by auto
qed

lemma md_rpc_system:
  assumes "l < 100" "n < 2 ^ 28" "Suc n \<le> max_size" "2 * k < 2 ^ 29" "Suc (2 * k) \<le> max_size"
  shows "rpc_system (md_client_ops ser rpc) (md_up wld boot)
    (tnb_ops ser) (md_start wld baddr) (md_filled wld baddr)
    (tnr_ops ser) (\<lambda>(m, r). tnr_view ser m r) (\<lambda>(m, r). tnr_wf r) n l k"
  using assms md_MultTreeValues_ok by (intro md_system) (simp_all add: md_client_ops_def)

lemma md_level0_rpc_system:
  assumes "l < 100" "n < 2 ^ 28" "Suc n \<le> max_size" "2 * k < 2 ^ 29" "Suc (2 * k) \<le> max_size"
  shows "rpc_system (md_level0_client_ops ser rpc) (md_up wld boot)
    (tnb_ops ser) (md_start wld baddr) (md_filled wld baddr)
    (tnr_ops ser) (\<lambda>(m, r). tnr_view ser m r) (\<lambda>(m, r). tnr_wf r) n l k"
  using assms md_MultTreeValues_level0_ok by (intro md_system) (simp_all add: md_level0_client_ops_def)

end

lemma level0_returns_its_tree:
  "md_MultTreeValues_level0 ser rpc c mult fill = (Inr t, c') \<Longrightarrow> t = level0_tree c'"
  by (auto simp: md_MultTreeValues_level0_def level0_tree_def Let_def split: prod.splits sum.splits option.splits)

context md_connection
begin

lemma level0_reuse:
  assumes "w_up (wld (mc_m c))" "mc_api c = boot"
    and "vlow 99 (tn_view from)" "vnodes (tn_view from) < 2 ^ 28" "vnodes (tn_view from) < max_size"
  shows "\<exists>m1 r1 c1 m2 r2 c2.
    md_MultTreeValues_level0 ser rpc c mult (copyTree (tnb_ops ser) from) = (Inr (m1, r1), c1) \<and>
    md_MultTreeValues ser rpc (new_md_client boot (mc_m c)) mult (copyTree (tnb_ops ser) from) = (Inr (m2, r2), c2) \<and>
    tnr_view ser m1 r1 = vmult mult (tn_view from) \<and> tnr_view ser m2 r2 = vmult mult (tn_view from)"
proof -
  let ?n = "vnodes (tn_view from)" and ?fill = "copyTree (tnb_ops ser) from"
  have within: "vwithin ?n 99 (tn_view from)" using assms(3) by (simp add: vwithin_def)
  have fill: "\<exists>t'. ?fill t = Inr t' \<and> md_filled wld baddr t t' (tn_view from)" if "md_start wld baddr t" for t
    using tree_filler.copyTree_filled [OF md_filler [OF assms(4)] that within] .
  have up: "md_up wld boot c" "md_up wld boot (new_md_client boot (mc_m c))"
    using assms(1,2) by (simp_all add: md_up_def new_md_client_def)
  from md_MultTreeValues_level0_ok [OF up(1) fill within _ assms(4), of mult]
    md_MultTreeValues_ok [OF up(2) fill within _ assms(4), of mult] assms(5)
  show ?thesis by fastforce
qed

text \<open>Two calls of a client: the pointer the first one returned shows the tree of the second.\<close>

lemma level0_shares_tree:
  assumes "md_up wld boot c" "\<forall>from \<in> {from1, from2}. vlow 99 (tn_view from) \<and>
      vnodes (tn_view from) < 2 ^ 28 \<and> vnodes (tn_view from) < max_size"
  shows "\<exists>c1 c2.
    md_MultTreeValues_level0 ser rpc c mult1 (copyTree (tnb_ops ser) from1) = (Inr (level0_tree c1), c1) \<and>
    md_MultTreeValues_level0 ser rpc c1 mult2 (copyTree (tnb_ops ser) from2) = (Inr (level0_tree c2), c2) \<and>
    (\<lambda>(m, r). tnr_view ser m r) (level0_tree c1) = vmult mult1 (tn_view from1) \<and>
    (\<lambda>(m, r). tnr_view ser m r) (level0_tree c2) = vmult mult2 (tn_view from2)"
proof -
  have call: "\<exists>c'. md_MultTreeValues_level0 ser rpc c mult (copyTree (tnb_ops ser) src) = (Inr (level0_tree c'), c') \<and>
      (\<lambda>(m, r). tnr_view ser m r) (level0_tree c') = vmult mult (tn_view src) \<and> md_up wld boot c'"
    if up: "md_up wld boot c" and from_in: "src \<in> {from1, from2}" for c mult src
  proof -
    let ?n = "vnodes (tn_view src)"
    have bounds: "?n < 2 ^ 28" "Suc ?n \<le> max_size" "vwithin ?n 99 (tn_view src)"
      using assms(2) from_in by (auto simp: vwithin_def)
    have fill: "\<exists>t'. copyTree (tnb_ops ser) src t = Inr t' \<and> md_filled wld baddr t t' (tn_view src)"
      if "md_start wld baddr t" for t
      using tree_filler.copyTree_filled [OF md_filler [OF bounds(1)] that bounds(3)] .
    obtain m r c' where c': "md_MultTreeValues_level0 ser rpc c mult (copyTree (tnb_ops ser) src) = (Inr (m, r), c')"
        "tnr_view ser m r = vmult mult (tn_view src)" "md_up wld boot c'"
      using md_MultTreeValues_level0_ok [OF up fill bounds(3) _ bounds(1,2), of mult] by auto
    moreover have "(m, r) = level0_tree c'" using c'(1) by (rule level0_returns_its_tree)
    ultimately show ?thesis by (intro exI [of _ c']) (auto dest: sym)
  qed
  from call [OF assms(1), of from1 mult1] call [of _ from2 mult2] show ?thesis by blast
qed

end

end
