(* ===== verification/MdCapnpRef.thy ===== *)
theory MdCapnpRef
  imports MdCapnpCorrect CapnpRef
begin

text \<open>
  An instance of what the mdcapnp system asks of its library, on the reference memory: a
  registered call is its method and the address of its parameters, and waiting for it runs
  the server's \<open>Call\<close> on a copy of them. It shows that the laws of \<open>md_memory\<close> and
  \<open>md_connection\<close> can hold together.
\<close>

section \<open>Messages\<close>

type_synonym md_id = "(64 word \<times> 16 word) \<times> nat option"

type_synonym md_cc = "(64 word \<times> 16 word) \<times> nat"

type_synonym md_state = "md_cc rmem \<times> (md_id \<Rightarrow> md_id option)"

definition md_ref_world :: "md_state \<Rightarrow> (md_cc, md_id) md_world" where
  "md_ref_world m =
     \<lparr>w_heap = list_heap (rm_objs (fst m)), w_results = rm_results (fst m), w_up = True,
      w_pending = snd m\<rparr>"

definition md_bad_field :: go_error where
  "md_bad_field = ErrorNew ''field outside of the struct''"

definition md_set :: "(md_cc rmem \<Rightarrow> md_cc rmem option) \<Rightarrow> md_state \<Rightarrow> go_error option \<times> md_state" where
  "md_set f m = (case f (fst m) of None \<Rightarrow> (Some md_bad_field, m) | Some r \<Rightarrow> (None, (r, snd m)))"

definition md_ref_ser :: "(md_state, rhandle, rhandle) md_ser" where
  "md_ref_ser =
     \<lparr>ms_zero_builder = (0, 0),
      ms_zero_struct = (0, 0),
      ms_SetInt64 = (\<lambda>b i v. md_set (rm_set_word b i v)),
      ms_SetData = (\<lambda>b i bs. md_set (rm_set_ptr b i (CData bs))),
      ms_NewDataField = (\<lambda>b i n m.
        case md_set (rm_set_ptr b i (CData (replicate n 0))) m of
          (Some e, m') \<Rightarrow> (Inl e, m')
        | (None, m') \<Rightarrow> (Inr (\<lambda>bs m. snd (md_set (rm_set_ptr b i (CData bs)) m)), m')),
      ms_NewStructListBuilderField = (\<lambda>b i sz n cap m.
        case rm_new n sz (fst m) of
          (hs, r) \<Rightarrow>
            (case md_set (rm_set_ptr b i (CList (map fst hs))) (r, snd m) of
               (Some e, m') \<Rightarrow> (Inl e, m')
             | (None, m') \<Rightarrow> (Inr hs, m'))),
      ms_ListBuilderAt = (\<lambda>bs i. if i < length bs then Inr (bs ! i) else Inl md_bad_field),
      ms_NewStructField = (\<lambda>b i sz m.
        case rm_new 1 sz (fst m) of
          (hs, r) \<Rightarrow>
            (case md_set (rm_set_ptr b i (CStruct (fst (hd hs)))) (r, snd m) of
               (Some e, m') \<Rightarrow> (Inl e, m')
             | (None, m') \<Rightarrow> (Inr (hd hs), m'))),
      ms_Reader = (\<lambda>b. b),
      ms_Int64 = (\<lambda>m s i. rm_word (fst m) s i),
      ms_Data = (\<lambda>m s i. case rm_ptr (fst m) s i of Some (CData bs) \<Rightarrow> bs | _ \<Rightarrow> []),
      ms_ReadStruct = (\<lambda>m s i.
        case rm_ptr (fst m) s i of Some (CStruct h) \<Rightarrow> Inr h | _ \<Rightarrow> Inl md_bad_field),
      ms_ReadStructList = (\<lambda>m s i.
        case rm_ptr (fst m) s i of
          Some (CList hs) \<Rightarrow> Inr hs
        | Some CNull \<Rightarrow> Inr []
        | _ \<Rightarrow> Inl md_bad_field),
      ms_StructWithDepthLimit = (\<lambda>s n. (fst s, n)),
      ms_ArenaTotalSize = (\<lambda>m s. length (rm_objs (fst m))),
      ms_TotalSize = (\<lambda>sz. fst sz + snd sz),
      ms_StorageWordCount = (\<lambda>n. (n + 7) div 8)\<rparr>"

definition md_ref_ctx :: "(md_state, rhandle, rhandle, md_cc) md_ctx" where
  "md_ref_ctx =
     \<lparr>mk_InterfaceId = (\<lambda>c. fst (fst c)),
      mk_MethodId = (\<lambda>c. snd (fst c)),
      mk_ParamsStruct = (\<lambda>m c. Inr (snd c, 128)),
      mk_RespondAsStruct = (\<lambda>c sz hint m.
        case rm_new_results c sz (fst m) of (h, r) \<Rightarrow> (Inr h, (r, snd m)))\<rparr>"

lemma md_ref_world_sel [simp]:
  "w_heap (md_ref_world m) = list_heap (rm_objs (fst m))"
  "w_results (md_ref_world m) = rm_results (fst m)"
  "w_up (md_ref_world m)"
  "w_pending (md_ref_world m) = snd m"
  by (simp_all add: md_ref_world_def)

lemma md_ref_world_heap:
  "rm_world r' = (rm_world r)\<lparr>w_heap := H\<rparr> \<Longrightarrow>
     md_ref_world (r', p) = (md_ref_world (r, p))\<lparr>w_heap := H\<rparr>"
  by (simp add: rm_world_def md_ref_world_def)

lemma md_set_word_at:
  assumes "list_heap (rm_objs (fst m)) (fst h) = Some (d, ps)" "i < length d"
  shows "\<exists>m'. md_set (rm_set_word h i v) m = (None, m') \<and>
    md_ref_world m' = (md_ref_world m)\<lparr>w_heap := (list_heap (rm_objs (fst m)))(fst h \<mapsto> (d[i := v], ps))\<rparr>"
  using rm_set_word_at [OF assms, of v] md_ref_world_heap [where r = "fst m" and p = "snd m"]
  by (fastforce simp: md_set_def)

lemma md_set_ptr_at:
  assumes "list_heap (rm_objs (fst m)) (fst h) = Some (d, ps)" "i < length ps"
  shows "\<exists>m'. md_set (rm_set_ptr h i q) m = (None, m') \<and>
    md_ref_world m' = (md_ref_world m)\<lparr>w_heap := (list_heap (rm_objs (fst m)))(fst h \<mapsto> (d, ps[i := q]))\<rparr>"
  using rm_set_ptr_at [OF assms, of q] md_ref_world_heap [where r = "fst m" and p = "snd m"]
  by (fastforce simp: md_set_def)

interpretation md_ref_memory: md_memory md_ref_ser md_ref_ctx md_ref_world fst fst snd
proof (unfold_locales, goal_cases)
  case (1 m b d ps i v)
  then show ?case using md_set_word_at [of m b d ps i v] by (simp add: md_ref_ser_def)
next
  case (2 m b d ps i bs)
  then show ?case using md_set_ptr_at [of m b d ps i "CData bs"] by (simp add: md_ref_ser_def)
next
  case (3 m b d ps i n)
  let ?z = "CData (replicate n 0)" and ?H = "list_heap (rm_objs (fst m))"
  obtain m1 where m1: "md_set (rm_set_ptr b i ?z) m = (None, m1)"
      "md_ref_world m1 = (md_ref_world m)\<lparr>w_heap := ?H(fst b \<mapsto> (d, ps[i := ?z]))\<rparr>"
    using md_set_ptr_at [of m b d ps i ?z] 3 by auto
  have "list_heap (rm_objs (fst m1)) = ?H(fst b \<mapsto> (d, ps[i := ?z]))"
    using arg_cong [OF m1(2), of w_heap] by simp
  then have "md_ref_world (snd (md_set (rm_set_ptr b i (CData bs)) m1)) =
      (md_ref_world m)\<lparr>w_heap := ?H(fst b \<mapsto> (d, ps[i := CData bs]))\<rparr>" for bs
    using md_set_ptr_at [of m1 b d "ps[i := ?z]" i "CData bs"] 3 m1(2) by auto
  with m1(1) show ?case by (simp add: md_ref_ser_def)
next
  case (4 m b d ps i n sz)
  let ?H = "\<lambda>hs a. if a = fst b then Some (d, ps[i := CList (map fst hs)])
      else if a \<in> set (map fst hs) then Some (zero_obj sz) else list_heap (rm_objs (fst m)) a"
  obtain hs m1 m2 where hs: "rm_new n sz (fst m) = (hs, m1)" "rm_set_ptr b i (CList (map fst hs)) m1 = Some m2"
      "length hs = n" "distinct (map fst hs)" "set (map fst hs) \<inter> dom (list_heap (rm_objs (fst m))) = {}"
      "rm_world m2 = (rm_world (fst m))\<lparr>w_heap := ?H hs\<rparr>"
    using rm_new_list_at [of "fst m" b d ps i n sz] 4(1,2) by (auto cong: if_cong)
  have "md_ref_world (m2, snd m) = (md_ref_world m)\<lparr>w_heap := ?H hs\<rparr>"
    using md_ref_world_heap [OF hs(6), of "snd m"] by simp
  with hs(1-5) show ?case
    by (intro exI [of _ hs] exI [of _ "(m2, snd m)"]) (simp add: md_ref_ser_def md_set_def cong: if_cong)
next
  case (5 i bs)
  then show ?case by (simp add: md_ref_ser_def)
next
  case (6 m b d ps i sz)
  then show ?case
    using rm_new_struct_at [of "fst m" b d ps i sz] md_ref_world_heap [where r = "fst m" and p = "snd m"]
    by (fastforce simp: md_ref_ser_def md_set_def)
next
  case (7 m s d ps i)
  then show ?case by (simp add: md_ref_ser_def rm_word_at)
next
  case (8 m s d ps i bs)
  then obtain q where "rm_ptr (fst m) s i = Some q" "map_cptr fst q = CData bs"
    using rm_ptr_at [of "fst m" s d ps i] by auto
  then show ?case by (cases q) (auto simp: md_ref_ser_def)
next
  case (9 m s d ps i a)
  then obtain q where "rm_ptr (fst m) s i = Some q" "map_cptr fst q = CStruct a"
    using rm_ptr_at [of "fst m" s d ps i] by auto
  then show ?case by (cases q) (auto simp: md_ref_ser_def)
next
  case (10 m s d ps i)
  then obtain q where "rm_ptr (fst m) s i = Some q" "map_cptr fst q = ps ! i"
      "\<forall>h' \<in> set_cptr q. snd h' = snd s - 1"
    using rm_ptr_at [of "fst m" s d ps i] by auto
  then show ?case using 10(3) by (cases q) (auto simp: md_ref_ser_def dest: sym)
next
  case (11 s n)
  then show ?case by (simp add: md_ref_ser_def)
next
  case (12 s n)
  then show ?case by (simp add: md_ref_ser_def)
next
  case (13 m c sz hint)
  then show ?case
    using rm_new_results_at [of c sz "fst m"]
    by (fastforce simp: md_ref_ctx_def rm_world_def md_ref_world_def)
qed

section \<open>Calls\<close>

text \<open>A \<open>Call\<close> that does not return is given an error, as if the context had ended.\<close>

definition md_ref_outcome :: "md_id \<Rightarrow> md_state \<Rightarrow> (go_error option \<times> md_cc) \<times> md_state" where
  "md_ref_outcome f m =
     (let q = (case snd m f of Some q \<Rightarrow> q | None \<Rightarrow> f);
          (a, r1) = (case snd q of
            Some a \<Rightarrow> (a, fst m)
          | None \<Rightarrow> (length (rm_objs (fst m)), snd (rm_new 1 (0, 0) (fst m))));
          (b, r2) = rm_copy a r1;
          c = (fst q, b);
          m2 = (r2\<lparr>rm_results := (rm_results r2)(c := None)\<rparr>, snd m)
      in case md_Call md_ref_ser md_ref_ctx c m2 of
           None \<Rightarrow> ((Some Canceled, c), m2)
         | Some (err, m3) \<Rightarrow> ((err, c), m3))"

definition md_ref_rpc :: "(md_state, rhandle, rhandle, md_id, md_id, unit) md_rpc" where
  "md_ref_rpc =
     \<lparr>mr_SetupCallNoParams = (\<lambda>api iid mid m. (((iid, mid), None), m)),
      mr_SetupCallWithStructParams = (\<lambda>api hint iid mid sz m.
        case rm_new 1 sz (fst m) of (hs, r) \<Rightarrow> ((((iid, mid), Some (fst (hd hs))), hd hs), (r, snd m))),
      mr_WantShallowReturnCopy = (\<lambda>q. q),
      mr_RemoteCall = (\<lambda>api q m. (q, (fst m, (snd m)(q \<mapsto> q)))),
      mr_VoidWait = (\<lambda>f m. case md_ref_outcome f m of ((err, c), m') \<Rightarrow> (err, m')),
      mr_WaitResults = (\<lambda>f m.
        case md_ref_outcome f m of
          ((Some e, c), m') \<Rightarrow> (Inl e, m')
        | ((None, c), m') \<Rightarrow>
            (case rm_results (fst m') c of
               None \<Rightarrow> (Inl md_bad_field, m')
             | Some r \<Rightarrow> (case rm_copy r (fst m') of (b, r') \<Rightarrow> (Inr ((b, 128), ()), (r', snd m'))))),
      mr_Release = (\<lambda>rr m. m)\<rparr>"

lemma md_ref_outcome_returns:
  assumes "md_ref_outcome f m = ((err, c), m3)" "md_Call md_ref_ser md_ref_ctx c m2 = Some (err, m3)"
  shows "md_returns md_ref_rpc md_ref_world fst snd max_size f m c err m3"
proof (cases err)
  case (Some e)
  with assms(1) show ?thesis by (auto simp: md_returns_def md_ref_rpc_def)
next
  case None
  have "\<exists>s rr m1. mr_WaitResults md_ref_rpc f m = (Inr (s, rr), m1) \<and>
      stored (list_heap (rm_objs (fst m1))) (fst s) w \<and> 0 < snd s"
    if w: "rm_results (fst m3) c = Some r" "stored (list_heap (rm_objs (fst m3))) r w" for r w
    using assms(1) None w rm_copy_at(2) [OF w(2)]
    by (auto simp: md_ref_rpc_def split: prod.splits)
  with assms(1) None show ?thesis by (simp add: md_returns_def md_ref_rpc_def)
qed

lemma md_ref_serves:
  assumes "snd m f = Some (meth, p)"
    and "case p of Some a' \<Rightarrow> a = a' \<and> r1 = fst m
      | None \<Rightarrow> a = length (rm_objs (fst m)) \<and> r1 = snd (rm_new 1 (0, 0) (fst m))"
    and "stored (list_heap (rm_objs r1)) a v"
  shows "md_serves md_ref_ser md_ref_ctx md_ref_rpc md_ref_world fst snd max_size meth v f m"
proof -
  obtain b r2 where b: "rm_copy a r1 = (b, r2)" by fastforce
  let ?c = "(meth, b)"
  let ?m2 = "(r2\<lparr>rm_results := (rm_results r2)(?c := None)\<rparr>, snd m)"
  have out: "md_ref_outcome f m = (case md_Call md_ref_ser md_ref_ctx ?c ?m2 of
      None \<Rightarrow> ((Some Canceled, ?c), ?m2) | Some (err, m3) \<Rightarrow> ((err, ?c), m3))"
    using assms(1,2) b by (cases p) (simp_all add: md_ref_outcome_def Let_def cong: option.case_cong)
  have "md_returns md_ref_rpc md_ref_world fst snd max_size f m ?c err m3"
    if "md_Call md_ref_ser md_ref_ctx ?c ?m2 = Some (err, m3)" for err m3
    using out that by (intro md_ref_outcome_returns [of _ _ _ _ _ ?m2]) simp_all
  moreover have "stored (list_heap (rm_objs (fst ?m2))) b v"
    using rm_copy_at(2) [OF assms(3) b] by simp
  ultimately show ?thesis
    unfolding md_serves_def
    by (intro exI [of _ ?c] exI [of _ ?m2] exI [of _ "(b, 128)"]) (simp add: md_ref_ctx_def)
qed

interpretation md_ref: md_connection md_ref_ser md_ref_ctx md_ref_world fst fst snd md_ref_rpc boot max_size
  for boot max_size
proof (unfold_locales, goal_cases)
  case (1 m iid mid)
  then show ?case by (simp add: md_ref_rpc_def md_ref_world_def)
next
  case (2 m hint iid mid sz)
  let ?n = "length (rm_objs (fst m))"
  show ?case
    by (intro exI [of _ "((iid, mid), Some ?n)"] exI [of _ "(?n, 128)"]
          exI [of _ "(snd (rm_new 1 sz (fst m)), snd m)"])
      (simp add: md_ref_rpc_def md_ref_world_def rm_new_def list_heap_snoc)
next
  case (3 m f meth)
  let ?r = "snd (rm_new 1 (0, 0) (fst m))"
  have "stored (list_heap (rm_objs ?r)) (length (rm_objs (fst m))) (CV [] [])"
    by (simp add: stored_flat rm_new_def list_heap_snoc zero_obj_def)
  with 3 show ?case
    by (intro md_ref_serves [of _ _ _ None "length (rm_objs (fst m))" ?r]) simp_all
next
  case (4 m f meth a v)
  then show ?case by (intro md_ref_serves [of _ _ _ "Some a" a "fst m"]) simp_all
next
  case (5 m rr)
  then show ?case by simp
qed

section \<open>Properties of the server and the clients\<close>

text \<open>A call of another interface, or of a method the interface does not have, is answered
  with an error that says which of the two it was; no results are set and no message changes.\<close>

lemma md_Call_unknown:
  assumes "mk_InterfaceId ctx c \<noteq> 0x1701d \<or> mk_MethodId ctx c \<notin> {1, 2, 3, 4}"
  shows "md_Call ser ctx c m =
    Some (Some (ErrorNew (if mk_InterfaceId ctx c = 0x1701d then ''unimplemented method''
                          else ''wrong interfaceId'')), m)"
  using assms
  by (auto simp: md_Call_def api_interfaceId_def api_nop_methodId_def api_add_methodId_def
      api_toHex_methodId_def api_multTree_methodId_def)

definition md_no_messages :: md_state where
  "md_no_messages = (\<lparr>rm_objs = [], rm_results = \<lambda>_. None\<rparr>, \<lambda>_. None)"

lemma md_Call_unknown_witness:
  "md_Call md_ref_ser md_ref_ctx ((0x1701d, 5), 0) md_no_messages =
     Some (Some (ErrorNew ''unimplemented method''), md_no_messages)"
  using md_Call_unknown [of md_ref_ctx "((0x1701d, 5), 0)" md_ref_ser md_no_messages]
  by (simp add: md_ref_ctx_def)

text \<open>A level 0 client answers \<open>MultTreeValues\<close> like a client with new adapters, with the
  multiplied tree, whatever trees its two adapters were used for before: the storage they keep
  does not show.\<close>

lemma md_level0_reuse:
  assumes "md_connection ser ctx wld baddr saddr lim rpc boot max_size"
    and "w_up (wld (mc_m c))" "mc_api c = boot"
    and "vlow 99 (tn_view from)" "vnodes (tn_view from) < 2 ^ 28" "vnodes (tn_view from) < max_size"
  shows "\<exists>m1 r1 c1 m2 r2 c2.
    md_MultTreeValues_level0 ser rpc c mult (copyTree (tnb_ops ser) from) = (Inr (m1, r1), c1) \<and>
    md_MultTreeValues ser rpc (new_md_client boot (mc_m c)) mult (copyTree (tnb_ops ser) from) = (Inr (m2, r2), c2) \<and>
    tnr_view ser m1 r1 = vmult mult (tn_view from) \<and> tnr_view ser m2 r2 = vmult mult (tn_view from)"
  using assms by (rule md_connection.level0_reuse)

text \<open>A client whose adapters still hold an old tree of three nodes each.\<close>

definition md_used_client :: "(md_state, rhandle, rhandle, md_id) md_clientLevel0" where
  "md_used_client =
     \<lparr>mc_api = ((0, 0), None), mc_m = md_no_messages,
      mc_buildTree = TNB (8, 1) 2 [TNB (9, 1) 0 [], TNB (7, 1) 0 []],
      mc_readTree = TNR (8, 1) 2 [TNR (9, 1) 0 [], TNR (7, 1) 0 []]\<rparr>"

lemma md_level0_reuse_witness:
  "\<exists>m1 r1 c1 m2 r2 c2.
    md_MultTreeValues_level0 md_ref_ser md_ref_rpc md_used_client 3
      (copyTree (tnb_ops md_ref_ser) (TreeNodeImpl 5 1 [TreeNodeImpl 7 0 []])) = (Inr (m1, r1), c1) \<and>
    md_MultTreeValues md_ref_ser md_ref_rpc (new_md_client ((0, 0), None) md_no_messages) 3
      (copyTree (tnb_ops md_ref_ser) (TreeNodeImpl 5 1 [TreeNodeImpl 7 0 []])) = (Inr (m2, r2), c2) \<and>
    tnr_view md_ref_ser m1 r1 = VT 15 [VT 21 []] \<and> tnr_view md_ref_ser m2 r2 = VT 15 [VT 21 []]"
proof -
  have "vlow 99 (tn_view (TreeNodeImpl 5 1 [TreeNodeImpl 7 0 []]))"
    by (rule vlow_mono [of "Suc 0"]) simp_all
  from md_level0_reuse [OF md_ref.md_connection_axioms [of "((0, 0), None)" 8] _ _ this, of md_used_client 3]
  show ?thesis by (simp add: md_used_client_def)
qed

text \<open>C35: The tree a level 0 client returns is right when the call returns, and is changed by a second
  \<open>MultTreeValues\<close> of the client: both calls return the same pointer, which after the second call
  shows the second answer. (The comment in \<open>MultTreeValues\<close> says more, that the next call of any
  kind reuses the storage behind the tree; that storage is the library's.)\<close>

theorem md_level0_tree_overwritten:
  assumes "md_connection ser ctx wld baddr saddr lim rpc boot max_size" "md_up wld boot c"
    and "\<forall>from \<in> {from1, from2}. vlow 99 (tn_view from) \<and>
      vnodes (tn_view from) < 2 ^ 28 \<and> vnodes (tn_view from) < max_size"
  shows "\<exists>c1 c2.
    md_MultTreeValues_level0 ser rpc c mult1 (copyTree (tnb_ops ser) from1) = (Inr (level0_tree c1), c1) \<and>
    md_MultTreeValues_level0 ser rpc c1 mult2 (copyTree (tnb_ops ser) from2) = (Inr (level0_tree c2), c2) \<and>
    (\<lambda>(m, r). tnr_view ser m r) (level0_tree c1) = vmult mult1 (tn_view from1) \<and>
    (\<lambda>(m, r). tnr_view ser m r) (level0_tree c2) = vmult mult2 (tn_view from2)"
  using assms by (rule md_connection.level0_shares_tree)

lemma md_level0_tree_overwritten_witness:
  "\<exists>c1 c2 t.
    md_MultTreeValues_level0 md_ref_ser md_ref_rpc md_used_client 3
      (copyTree (tnb_ops md_ref_ser) (TreeNodeImpl 5 1 [TreeNodeImpl 7 0 []])) = (Inr (level0_tree c1), c1) \<and>
    md_MultTreeValues_level0 md_ref_ser md_ref_rpc c1 2
      (copyTree (tnb_ops md_ref_ser) (TreeNodeImpl 4 0 [])) = (Inr t, c2) \<and>
    (\<lambda>(m, r). tnr_view md_ref_ser m r) (level0_tree c1) = VT 15 [VT 21 []] \<and>
    (\<lambda>(m, r). tnr_view md_ref_ser m r) (level0_tree c2) = VT 8 []"
proof -
  have "vlow 99 (tn_view (TreeNodeImpl 5 1 [TreeNodeImpl 7 0 []]))"
    by (rule vlow_mono [of "Suc 0"]) simp_all
  moreover have "vlow 99 (tn_view (TreeNodeImpl 4 0 []))"
    by (rule vlow_mono [of "Suc 0"]) simp_all
  ultimately have "\<forall>from \<in> {TreeNodeImpl 5 1 [TreeNodeImpl 7 0 []], TreeNodeImpl 4 0 []}.
      vlow 99 (tn_view from) \<and> vnodes (tn_view from) < 2 ^ 28 \<and> vnodes (tn_view from) < 8"
    by simp
  moreover have "md_up md_ref_world ((0, 0), None) md_used_client"
    by (simp add: md_up_def md_used_client_def)
  ultimately show ?thesis
    using md_level0_tree_overwritten [OF md_ref.md_connection_axioms [of "((0, 0), None)" 8], of md_used_client
        "TreeNodeImpl 5 1 [TreeNodeImpl 7 0 []]" "TreeNodeImpl 4 0 []" 3 2]
    by (fastforce simp del: split_paired_Ex)
qed

end
