(* ===== verification/Factories.thy ===== *)
theory Factories
  imports ServerRun VatRun ServeRun Parallel Http1 Websocket Grpc GoCapnpRef MdCapnpRef
begin

text \<open>
  The factories of the systems: the constructors of the servers and clients in the
  directories of internal/rpc. What is outside of the repository is an argument: how a
  connection is made, by the address and the number of the client, and what the libraries
  answer while a client is set up. A connection that carries bytes is the list of the sizes
  of its pieces, as in the theories of the systems.
\<close>

section \<open>TCP\<close>

record 'l tcpServer =
  tcs_l :: 'l
  tcs_skipLog :: bool

definition newTCPServer :: "'l \<Rightarrow> 'l tcpServer" where
  "newTCPServer l = \<lparr>tcs_l = l, tcs_skipLog = True\<rparr>"

definition tcp_NewClient ::
  "(string \<Rightarrow> nat \<Rightarrow> nat list result) \<Rightarrow> string \<Rightarrow> nat \<Rightarrow> (tcpClient \<times> tcp_link) result" where
  "tcp_NewClient dial addr i = bind_result (dial addr i) (\<lambda>cuts. Inr (tcp_connected cuts))"

definition tcpFactory ::
  "(string \<Rightarrow> nat \<Rightarrow> nat list result) \<Rightarrow> ('l, 'l tcpServer, tcpClient \<times> tcp_link) rpc_factory" where
  "tcpFactory dial =
     \<lparr>fac_NewServer = (\<lambda>l. Inr (newTCPServer l)), fac_NewClient = tcp_NewClient dial\<rparr>"

section \<open>HTTP\<close>

record 'l http1Server =
  hs_l :: 'l
  hs_skipLog :: bool
  hs_mux :: "(string \<times> (response_writer \<Rightarrow> http_request \<Rightarrow> response_writer)) list"

definition newHttp1Server :: "'l \<Rightarrow> 'l http1Server" where
  "newHttp1Server l = \<lparr>hs_l = l, hs_skipLog = True, hs_mux = http1_mux\<rparr>"

text \<open>A client connects with its first request, so making it cannot fail.\<close>

definition http1Factory ::
  "(string \<Rightarrow> nat \<Rightarrow> nat list) \<Rightarrow> ('l, 'l http1Server, http1Client \<times> nat list) rpc_factory" where
  "http1Factory cuts =
     \<lparr>fac_NewServer = (\<lambda>l. Inr (newHttp1Server l)),
      fac_NewClient = (\<lambda>addr i. Inr (newHttp1Client addr, cuts addr i))\<rparr>"

section \<open>Websockets\<close>

record 'l wsServer =
  wss_l :: 'l
  wss_skipLog :: bool
  wss_ReadBufferSize :: nat
  wss_WriteBufferSize :: nat

definition newWSServer :: "'l \<Rightarrow> 'l wsServer" where
  "newWSServer l =
     \<lparr>wss_l = l, wss_skipLog = True, wss_ReadBufferSize = MaxHexEncodeSize * 2,
      wss_WriteBufferSize = MaxHexEncodeSize * 2\<rparr>"

text \<open>\<open>dial url header i\<close> is what the package's dialer answers: the client's end of a connection.\<close>

definition ws_NewClient ::
  "(string \<Rightarrow> (string \<times> string) list \<Rightarrow> nat \<Rightarrow> 'n result) \<Rightarrow> bool \<Rightarrow> string \<Rightarrow> nat \<Rightarrow> (wsClient \<times> 'n) result"
where
  "ws_NewClient dial isJson addr i =
     (let url = ''ws://'' @ addr;
          header = (if isJson then [(''Content-Type'', ''text/json'')] else [])
      in bind_result (dial url header i) (\<lambda>conn. Inr (newWSClient isJson, conn)))"

definition wsFactory ::
  "(string \<Rightarrow> (string \<times> string) list \<Rightarrow> nat \<Rightarrow> 'n result) \<Rightarrow> bool \<Rightarrow>
     ('l, 'l wsServer, wsClient \<times> 'n) rpc_factory"
where
  "wsFactory dial isJson =
     \<lparr>fac_NewServer = (\<lambda>l. Inr (newWSServer l)), fac_NewClient = ws_NewClient dial isJson\<rparr>"

section \<open>gRPC\<close>

text \<open>\<open>register\<close> is \<open>RegisterAPIServer\<close> with the server's handlers on a new \<open>grpc.Server\<close>.\<close>

record ('l, 'g) grpcServer =
  gs_gs :: 'g
  gs_l :: 'l

definition newGRPCServer :: "'g \<Rightarrow> ('g \<Rightarrow> 'g) \<Rightarrow> 'l \<Rightarrow> ('l, 'g) grpcServer" where
  "newGRPCServer new_server register l = \<lparr>gs_gs = register new_server, gs_l = l\<rparr>"

definition grpc_NewClient ::
  "(string \<Rightarrow> nat \<Rightarrow> 'n result) \<Rightarrow> string \<Rightarrow> nat \<Rightarrow> (grpcClient \<times> 'n) result" where
  "grpc_NewClient new_conn addr i = bind_result (new_conn addr i) (\<lambda>conn. Inr (newGRPCClient, conn))"

definition grpcFactory ::
  "'g \<Rightarrow> ('g \<Rightarrow> 'g) \<Rightarrow> (string \<Rightarrow> nat \<Rightarrow> 'n result) \<Rightarrow> ('l, ('l, 'g) grpcServer, grpcClient \<times> 'n) rpc_factory"
where
  "grpcFactory new_server register new_conn =
     \<lparr>fac_NewServer = (\<lambda>l. Inr (newGRPCServer new_server register l)),
      fac_NewClient = grpc_NewClient new_conn\<rparr>"

section \<open>go-capnp\<close>

record 'l gocapnpServer =
  cs_l :: 'l
  cs_skipLog :: bool

definition newGoCapnpServer :: "'l \<Rightarrow> 'l gocapnpServer result" where
  "newGoCapnpServer l = Inr \<lparr>cs_l = l, cs_skipLog = True\<rparr>"

text \<open>
  A client is its side of the connection, once \<open>Resolve\<close> on the capability from \<open>Bootstrap\<close> has
  returned; \<open>resolve\<close> is the library's part of that.
\<close>

definition gocapnp_NewClient ::
  "(string \<Rightarrow> nat \<Rightarrow> 'm result) \<Rightarrow> ('m \<Rightarrow> go_error option \<times> 'm) \<Rightarrow> string \<Rightarrow> nat \<Rightarrow> 'm result"
where
  "gocapnp_NewClient dial resolve addr i =
     bind_result (dial addr i) (\<lambda>m.
       case resolve m of (Some e, m') \<Rightarrow> Inl e | (None, m') \<Rightarrow> Inr m')"

definition gocapnpFactory ::
  "(string \<Rightarrow> nat \<Rightarrow> 'm result) \<Rightarrow> ('m \<Rightarrow> go_error option \<times> 'm) \<Rightarrow> ('l, 'l gocapnpServer, 'm) rpc_factory"
where
  "gocapnpFactory dial resolve =
     \<lparr>fac_NewServer = newGoCapnpServer, fac_NewClient = gocapnp_NewClient dial resolve\<rparr>"

section \<open>mdcapnp\<close>

record ('l, 'v) mdServer =
  mds_v :: 'v
  mds_l :: 'l

text \<open>\<open>new_vat\<close> is \<open>rpc.NewVat\<close> with the options of the server.\<close>

definition md_newServer :: "'v \<Rightarrow> 'l \<Rightarrow> ('l, 'v) mdServer" where
  "md_newServer new_vat l = \<lparr>mds_v = new_vat, mds_l = l\<rparr>"

text \<open>\<open>boot_wait\<close> is \<open>Wait\<close> on the future of the vat's \<open>Bootstrap\<close>.\<close>

definition md_newClient ::
  "(string \<Rightarrow> nat \<Rightarrow> 'm result) \<Rightarrow> ('m \<Rightarrow> 'f result \<times> 'm) \<Rightarrow> string \<Rightarrow> nat \<Rightarrow> ('m, 'f) md_client result"
where
  "md_newClient dial boot_wait addr i =
     bind_result (dial addr i) (\<lambda>m.
       case boot_wait m of (Inl e, m') \<Rightarrow> Inl e | (Inr boot, m') \<Rightarrow> Inr (new_md_client boot m'))"

definition md_newclientLevel0 ::
  "('m, 'b, 's) md_ser \<Rightarrow> (string \<Rightarrow> nat \<Rightarrow> 'm result) \<Rightarrow> ('m \<Rightarrow> 'f result \<times> 'm) \<Rightarrow> string \<Rightarrow> nat \<Rightarrow>
     ('m, 'b, 's, 'f) md_clientLevel0 result"
where
  "md_newclientLevel0 ser dial boot_wait addr i =
     bind_result (dial addr i) (\<lambda>m.
       case boot_wait m of (Inl e, m') \<Rightarrow> Inl e | (Inr boot, m') \<Rightarrow> Inr (new_md_clientLevel0 ser boot m'))"

text \<open>
  One Go factory makes both clients, by its field \<open>level0\<close>; their states have different types,
  so here it is one factory for each value of the field.
\<close>

definition mdcapFactory ::
  "'v \<Rightarrow> (string \<Rightarrow> nat \<Rightarrow> 'm result) \<Rightarrow> ('m \<Rightarrow> 'f result \<times> 'm) \<Rightarrow> ('l, ('l, 'v) mdServer, ('m, 'f) md_client) rpc_factory"
where
  "mdcapFactory new_vat dial boot_wait =
     \<lparr>fac_NewServer = (\<lambda>l. Inr (md_newServer new_vat l)), fac_NewClient = md_newClient dial boot_wait\<rparr>"

definition mdcapFactory_level0 ::
  "'v \<Rightarrow> ('m, 'b, 's) md_ser \<Rightarrow> (string \<Rightarrow> nat \<Rightarrow> 'm result) \<Rightarrow> ('m \<Rightarrow> 'f result \<times> 'm) \<Rightarrow>
     ('l, ('l, 'v) mdServer, ('m, 'b, 's, 'f) md_clientLevel0) rpc_factory"
where
  "mdcapFactory_level0 new_vat ser dial boot_wait =
     \<lparr>fac_NewServer = (\<lambda>l. Inr (md_newServer new_vat l)),
      fac_NewClient = md_newclientLevel0 ser dial boot_wait\<rparr>"

section \<open>What the factories make\<close>

lemmas factory_defs = tcpFactory_def http1Factory_def wsFactory_def grpcFactory_def gocapnpFactory_def
  mdcapFactory_def mdcapFactory_level0_def newGoCapnpServer_def

lemma factories_make_servers:
  "\<exists>s. fac_NewServer (tcpFactory dial) l = Inr s"
  "\<exists>s. fac_NewServer (http1Factory cuts) l = Inr s"
  "\<exists>s. fac_NewServer (wsFactory dial_ws isJson) l = Inr s"
  "\<exists>s. fac_NewServer (grpcFactory new_server register new_conn) l = Inr s"
  "\<exists>s. fac_NewServer (gocapnpFactory dial_m resolve) l = Inr s"
  "\<exists>s. fac_NewServer (mdcapFactory new_vat dial_m boot_wait) l = Inr s"
  "\<exists>s. fac_NewServer (mdcapFactory_level0 new_vat ser dial_m boot_wait) l = Inr s"
  by (simp_all add: factory_defs)

lemma tcp_NewClient_ok:
  "\<exists>cuts. dial addr i = Inr cuts \<Longrightarrow> \<exists>c. fac_NewClient (tcpFactory dial) addr i = Inr c \<and> tcp_idle c"
  using tcp_idle_connected by (auto simp: tcpFactory_def tcp_NewClient_def simp del: split_paired_Ex)

lemma http1_NewClient_ok: "\<exists>c. fac_NewClient (http1Factory cuts) addr i = Inr c \<and> http1_ready addr c"
  by (simp add: http1Factory_def http1_ready_def tn_zero_def newHttp1Client_def)

lemma ws_NewClient_ok:
  "\<exists>conn. dial (''ws://'' @ addr) (if isJson then [(''Content-Type'', ''text/json'')] else []) i = Inr conn \<and>
     rest isJson conn \<Longrightarrow>
   \<exists>c. fac_NewClient (wsFactory dial isJson) addr i = Inr c \<and> ws_idle rest isJson c"
  using ws_idle_new [of rest]
  by (auto simp: wsFactory_def ws_NewClient_def Let_def simp del: append.simps split_paired_Ex)

lemma grpc_NewClient_ok:
  "\<exists>conn. new_conn addr i = Inr conn \<and> ok conn \<Longrightarrow>
   \<exists>c. fac_NewClient (grpcFactory new_server register new_conn) addr i = Inr c \<and> grpc_ready ok c"
  by (auto simp: grpcFactory_def grpc_NewClient_def grpc_ready_def newGRPCClient_def pb_new_def pb_ok_def)

lemma gocapnp_NewClient_ok:
  "\<exists>m m'. dial addr i = Inr m \<and> resolve m = (None, m') \<and> up m' \<Longrightarrow>
   \<exists>c. fac_NewClient (gocapnpFactory dial resolve) addr i = Inr c \<and> up c"
  by (auto simp: gocapnpFactory_def gocapnp_NewClient_def)

lemma md_NewClient_ok:
  "\<exists>m m'. dial addr i = Inr m \<and> boot_wait m = (Inr boot, m') \<and> w_up (wld m') \<Longrightarrow>
   \<exists>c. fac_NewClient (mdcapFactory new_vat dial boot_wait) addr i = Inr c \<and> md_up wld boot c"
  by (auto simp: mdcapFactory_def md_newClient_def md_up_def new_md_client_def)

lemma md_NewClient_level0_ok:
  "\<exists>m m'. dial addr i = Inr m \<and> boot_wait m = (Inr boot, m') \<and> w_up (wld m') \<Longrightarrow>
   \<exists>c. fac_NewClient (mdcapFactory_level0 new_vat ser dial boot_wait) addr i = Inr c \<and> md_up wld boot c"
  by (auto simp: mdcapFactory_level0_def md_newclientLevel0_def md_up_def new_md_clientLevel0_def)

end
