(* ===== verification/GoCapnpDepth.thy ===== *)
theory GoCapnpDepth
  imports GoCapnpRef
begin

text \<open>
  The depth limit of the go-capnp system. gocapnp_client.go and gocapnp_server.go set none, so
  it is the one the library documents; this theory shows what the handler of
  gocapnp_server.go does with trees of any depth, under any limit. Its \<open>multTree\<close> stops
  silently where the limit is reached, so the answer rests on \<open>copyTree\<close> to notice.
\<close>

section \<open>Messages with a limit\<close>

text \<open>
  What a limit means: a handle that has used it up reads no pointer but a null one, the
  elements of a list have less left than the struct the list was read from, and following a
  pointer to a struct gains nothing.
\<close>

locale capnp_limited = capnp_memory mem wld addr lim lmax
  for mem :: "('m, 'h, 'c) capnp_mem" and wld :: "'m \<Rightarrow> 'c world"
    and addr :: "'h \<Rightarrow> nat" and lim :: "'h \<Rightarrow> nat" and lmax :: nat +
  assumes at_limit: "w_heap (wld m) (addr h) = Some (d, ps) \<Longrightarrow> i < length ps \<Longrightarrow> lim h = 0 \<Longrightarrow>
      cm_Ptr mem m h i = Inr p \<Longrightarrow> p = CNull \<and> ps ! i = CNull"
    and list_limit: "w_heap (wld m) (addr h) = Some (d, ps) \<Longrightarrow> i < length ps \<Longrightarrow> 0 < lim h \<Longrightarrow>
      cm_Ptr mem m h i = Inr (CList hs) \<Longrightarrow> g \<in> set hs \<Longrightarrow> lim g < lim h"
    and struct_limit: "w_heap (wld m) (addr h) = Some (d, ps) \<Longrightarrow> i < length ps \<Longrightarrow>
      cm_Ptr mem m h i = Inr (CStruct g) \<Longrightarrow> lim g \<le> lim h"

text \<open>The tree at \<open>x\<close> with every value multiplied down to level \<open>l\<close>.\<close>

fun amult_upto :: "int64 \<Rightarrow> nat \<Rightarrow> aval \<Rightarrow> aval" where
  "amult_upto m 0 (AV a d ps) = AV a (map (\<lambda>v. v * m) d) ps"
| "amult_upto m (Suc l) (AV a d ps) = AV a (map (\<lambda>v. v * m) d) (map (map_cptr (amult_upto m l)) ps)"

lemma root_amult_upto [simp]: "root (amult_upto m l x) = root x"
  by (cases l; cases x) simp_all

lemma addrs_amult_upto [simp]: "addrs (amult_upto m l x) = addrs x"
proof (induction m l x rule: amult_upto.induct)
  case (2 m l a d ps)
  then have "map (addrs \<circ> amult_upto m l) (all_elems ps) = map addrs (all_elems ps)"
    by (intro map_cong) auto
  then show ?case by (simp del: map_map add: map_map [symmetric])
qed simp

lemma map_cptr_empty: "elems p = [] \<Longrightarrow> map_cptr f p = p"
  by (cases p) simp_all

lemma tree_amult_upto:
  assumes "tree_cv (cvalue x)"
  shows "tree_cv (cvalue (amult_upto m l x)) \<and> vlayout (avt (amult_upto m l x)) = vlayout (avt x) \<and>
    (vlow l (avt x) \<longrightarrow> amult_upto m l x = amult m x)"
  using assms
proof (induction m l x rule: amult_upto.induct)
  case (1 m a d ps)
  then obtain v p where eq: "d = [v]" "ps = [p]" "listy p" by (auto simp: length_Suc_conv)
  then show ?case using 1 map_cptr_empty [of p "amult m"] by (auto simp: o_def)
next
  case (2 m l a d ps)
  then obtain v p where eq: "d = [v]" "ps = [p]" "listy p" by (auto simp: length_Suc_conv)
  have IH: "tree_cv (cvalue (amult_upto m l y))" "vlayout (avt (amult_upto m l y)) = vlayout (avt y)"
      "vlow l (avt y) \<longrightarrow> amult_upto m l y = amult m y" if "y \<in> set (elems p)" for y
    using 2 eq that by auto
  have "map_cptr (amult_upto m l) p = map_cptr (amult m) p" if "vlow (Suc l) (avt (AV a d ps))"
    using that eq IH(3) by (intro cptr.map_cong0) auto
  with eq IH(1,2) show ?case by (auto simp: o_def)
qed

context capnp_limited
begin

lemma Children_either:
  assumes "w_heap (wld m) (addr h) = Some (d, [p])" "listy p"
  shows "(\<exists>e. TreeNode_Children mem m h = Inl e) \<or>
    (\<exists>hs. TreeNode_Children mem m h = Inr hs \<and> map addr hs = elems p \<and>
       (\<forall>g \<in> set hs. lim h = Suc (lim g)))"
proof (cases "cm_Ptr mem m h 0")
  case (Inl e)
  then show ?thesis by (simp add: TreeNode_Children_def)
next
  case (Inr q)
  show ?thesis
  proof (cases "lim h")
    case 0
    then have "q = CNull" "p = CNull" using at_limit [OF assms(1) _ _ Inr] by simp_all
    with Inr show ?thesis by (simp add: TreeNode_Children_def ptr_List_def)
  next
    case (Suc l)
    obtain hs where hs: "TreeNode_Children mem m h = Inr hs" "map addr hs = elems p"
        "\<forall>g \<in> set hs. lim h - 1 \<le> lim g"
      using Children_at [OF assms] Suc by auto
    have "lim g < lim h" if "g \<in> set hs" for g
    proof (cases q)
      case (CList gs)
      then have "hs = gs" using hs(1) Inr by (simp add: TreeNode_Children_def ptr_List_def)
      then show ?thesis using list_limit [OF assms(1) _ _ Inr [unfolded CList]] Suc that by simp
    qed (use hs(1) Inr that in \<open>auto simp: TreeNode_Children_def ptr_List_def\<close>)
    with hs Suc show ?thesis by (fastforce simp: le_less_Suc_eq)
  qed
qed

text \<open>The handler's \<open>multTree\<close> returns on every tree, having multiplied down to the limit.\<close>

lemma multTree_upto:
  assumes "holds (w_heap (wld m)) x" "tree_cv (cvalue x)" "distinct (addrs x)" "root x = addr h"
  shows "\<exists>m' H'. gcp_multTree mem mult h m = Some (None, m') \<and> wld m' = (wld m)\<lparr>w_heap := H'\<rparr> \<and>
    (\<forall>a. a \<notin> set (addrs x) \<longrightarrow> H' a = w_heap (wld m) a) \<and> holds H' (amult_upto mult (lim h) x)"
  using assms
proof (induction x arbitrary: h m rule: aval_induct)
  case (AV a d ps)
  from AV.prems(2) obtain a' v p where "AV a d ps = AV a' [v] [p]" "listy p"
      "\<forall>y \<in> set (elems p). tree_cv (cvalue y)"
    by (rule tree_cvE)
  then have eq: "d = [v]" "ps = [p]" "listy p" "\<forall>y \<in> set (elems p). tree_cv (cvalue y)" by simp_all
  let ?H = "w_heap (wld m)" and ?xs = "elems p"
  let ?H1 = "?H(addr h \<mapsto> ([v * mult], [map_cptr root p]))"
  have at: "?H (addr h) = Some ([v], [map_cptr root p])"
    and out: "addr h \<notin> set (concat (map addrs ?xs))" "distinct (concat (map addrs ?xs))"
    using AV.prems(1,3,4) eq by simp_all
  obtain m1 where m1: "TreeNode_SetValue mem h (v * mult) m = Inr m1" "wld m1 = (wld m)\<lparr>w_heap := ?H1\<rparr>"
    using SetValue_at [OF at] by blast
  have mult: "gcp_multTree mem mult h m = (case TreeNode_Children mem m1 h of Inl e \<Rightarrow> Some (None, m1)
      | Inr children \<Rightarrow> run_opt (gcp_multTree mem mult) children m1)"
    using m1(1) Value_at [OF at] by (subst gcp_multTree.simps) simp
  have kept: "holds (w_heap (wld m1)) y" if y: "y \<in> set ?xs" for y
  proof -
    have "holds ?H1 y = holds ?H y" using out(1) y by (intro holds_cong) auto
    then show ?thesis using m1(2) AV.prems(1) eq y by simp
  qed
  show ?case
  proof (cases "lim h")
    case 0
    have "holds ?H1 (amult_upto mult 0 (AV a d ps))" using kept m1(2) AV.prems(4) eq by simp
    moreover have "gcp_multTree mem mult h m = Some (None, m1)"
    proof (cases "TreeNode_Children mem m1 h")
      case (Inr hs)
      then have "\<forall>g \<in> set hs. lim h = Suc (lim g)"
        using Children_either [of m1 h "[v * mult]" "map_cptr root p"] m1(2) eq(3) by simp
      then have "hs = []" using 0 by (cases hs) auto
      with Inr mult show ?thesis by simp
    qed (simp add: mult)
    moreover have "?H1 b = ?H b" if "b \<notin> set (addrs (AV a d ps))" for b
      using that AV.prems(4) by auto
    ultimately show ?thesis
      unfolding 0 using m1(2) by (intro exI [of _ m1] exI [of _ ?H1]) blast
  next
    case (Suc l)
    obtain hs where hs: "TreeNode_Children mem m1 h = Inr hs" "map addr hs = map root ?xs"
      using Children_at [of m1 h "[v * mult]" "map_cptr root p"] m1(2) eq(3) Suc by auto
    then have lims: "\<forall>g \<in> set hs. lim g = l"
      using Children_either [of m1 h "[v * mult]" "map_cptr root p"] m1(2) eq(3) Suc by auto
    have step: "\<exists>n' H'. gcp_multTree mem mult g n = Some (None, n') \<and> wld n' = (wld n)\<lparr>w_heap := H'\<rparr> \<and>
        (\<forall>b. b \<notin> set (addrs y) \<longrightarrow> H' b = w_heap (wld n) b) \<and> holds H' (amult_upto mult l y)"
      if y: "y \<in> set ?xs" "addr g = root y" "lim g = l" "holds (w_heap (wld n)) y" for y g n
    proof -
      have "y \<in> set (all_elems ps)" using y(1) eq by simp
      moreover have "distinct (addrs y)" using out(2) y(1) by (auto simp: distinct_concat_iff)
      ultimately show ?thesis
        using AV.IH [of y n g] y eq(4) by simp
    qed
    obtain m2 H2 where m2: "run_opt (gcp_multTree mem mult) hs m1 = Some (None, m2)"
        "wld m2 = (wld m1)\<lparr>w_heap := H2\<rparr>"
        "\<forall>b. b \<notin> set (concat (map addrs ?xs)) \<longrightarrow> H2 b = w_heap (wld m1) b"
        "\<forall>y \<in> set ?xs. holds H2 (amult_upto mult l y)"
      using run_opt_in_place [of ?xs "\<lambda>g. lim g = l" "gcp_multTree mem mult" "amult_upto mult l" hs m1] step
        hs(2) lims out(2) kept by auto
    have "H2 a = Some ([v * mult], [map_cptr root p])"
      using m2(3) m1(2) AV.prems(4) out(1) by simp
    then have "holds H2 (amult_upto mult (lim h) (AV a d ps))"
      using m2(4) eq Suc by (auto simp: cptr.map_comp o_def)
    moreover have "H2 b = ?H b" if "b \<notin> set (addrs (AV a d ps))" for b
      using that m2(3) m1(2) eq AV.prems(4) by auto
    moreover have "gcp_multTree mem mult h m = Some (None, m2)" using mult hs(1) m2(1) by simp
    ultimately show ?thesis
      using m1(2) m2(2) by (intro exI [of _ m2] exI [of _ H2]) simp
  qed
qed

text \<open>\<open>copyTree\<close> returns on every tree: with the copy of a tree within the limit, or with an error.\<close>

lemma copyTree_either:
  assumes "holds (w_heap (wld m)) x" "tree_cv (cvalue x)" "root x = addr src" "vnodes (avt x) < 2 ^ 28"
    and "w_heap (wld m) (addr tgt) = Some ([w], [q])" "addr tgt \<notin> set (addrs x)"
  shows "(\<exists>m' H'. gcp_copyTree mem src tgt m = Some (None, m') \<and> wld m' = (wld m)\<lparr>w_heap := H'\<rparr> \<and>
      built (w_heap (wld m)) (addr tgt) (avt x) H' \<and> vlow (lim src) (avt x)) \<or>
    (\<exists>e m'. gcp_copyTree mem src tgt m = Some (Some e, m') \<and> True)"
  using assms
proof (induction x arbitrary: src tgt m w q rule: aval_induct)
  case (AV a d ps)
  from AV.prems(2) obtain a' v p where "AV a d ps = AV a' [v] [p]" "listy p"
      "\<forall>y \<in> set (elems p). tree_cv (cvalue y)"
    by (rule tree_cvE)
  then have eq: "d = [v]" "ps = [p]" "listy p" "\<forall>y \<in> set (elems p). tree_cv (cvalue y)" by simp_all
  let ?H = "w_heap (wld m)" and ?xs = "elems p" and ?b = "addr tgt"
  have at: "?H (addr src) = Some ([v], [map_cptr root p])" and ne: "addr src \<noteq> ?b"
    using AV.prems(1,3,6) eq by auto
  obtain m1 where m1: "TreeNode_SetValue mem tgt v m = Inr m1"
      "wld m1 = (wld m)\<lparr>w_heap := ?H(?b \<mapsto> ([v], [q]))\<rparr>"
    using SetValue_at [OF AV.prems(5)] by blast
  have at1: "w_heap (wld m1) (addr src) = Some ([v], [map_cptr root p])" using m1(2) at ne by simp
  from eq(3) have "listy (map_cptr root p)" by simp
  from Children_either [OF at1 this] show ?case
  proof (elim disjE exE conjE, goal_cases)
    case (1 e)
    then have "gcp_copyTree mem src tgt m = Some (Some e, m1)"
      using m1(1) Value_at [OF at] by (subst gcp_copyTree.simps) simp
    then show ?case by blast
  next
    case (2 hs)
    then have hs: "TreeNode_Children mem m1 src = Inr hs" "map addr hs = map root ?xs"
        "\<forall>g \<in> set hs. lim src = Suc (lim g)" by simp_all
    have n: "length hs = length ?xs" using hs(2) by (metis length_map)
    have small: "length ?xs < 2 ^ 28" "\<forall>y \<in> set ?xs. vnodes (avt y) < 2 ^ 28"
      using tree_children_small [OF AV.prems(4)] eq by simp_all
    obtain ts m2 where ts: "TreeNode_NewChildren mem tgt (word_of_nat (length hs)) m1 = (Inr ts, m2)"
        "length ts = length hs" "distinct (map addr ts)" "set (map addr ts) \<inter> dom ?H = {}"
        "wld m2 = (wld m)\<lparr>w_heap := new_children ?H ?b v (map addr ts)\<rparr>"
      using NewChildren_at [of m1 tgt v q "length hs"] m1(2) small(1) n AV.prems(5) by auto
    let ?body = "\<lambda>i m. case list_at ts i of Inl e \<Rightarrow> Some (Some e, m)
        | Inr t \<Rightarrow> gcp_copyTree mem (hs ! i) t m"
    have copy: "(\<exists>s' H'. gcp_copyTree mem h t s = Some (None, s') \<and> wld s' = (wld s)\<lparr>w_heap := H'\<rparr> \<and>
          built (w_heap (wld s)) (addr t) (avt y) H' \<and> vlow (lim src - 1) (avt y)) \<or>
        (\<exists>e s'. gcp_copyTree mem h t s = Some (Some e, s') \<and> True)"
      if y: "y \<in> set ?xs" "h \<in> set hs" "root y = addr h" "holds (w_heap (wld s)) y"
        "w_heap (wld s) (addr t) = Some ([0], [CNull])" "addr t \<notin> set (addrs y)" for y h t s
    proof -
      have "y \<in> set (all_elems ps)" using y(1) eq by simp
      moreover have "lim src - 1 = lim h" using hs(3) y(2) by simp
      ultimately show ?thesis using AV.IH [of y s h t 0 CNull] y eq(4) small(2) by simp
    qed
    have b: "?b \<in> dom ?H" using AV.prems(5) by blast
    have xs: "\<forall>y \<in> set ?xs. holds ?H y \<and> ?b \<notin> set (addrs y)" using AV.prems(1,6) eq by auto
    have body: "?body i s = gcp_copyTree mem (hs ! i) (ts ! i) s" if "i < length hs" for i s
      using that ts(2) by (simp add: list_at_def)
    have "(\<exists>m3 H3. run_opt ?body [0..<length hs] m2 = Some (None, m3) \<and> wld m3 = (wld m)\<lparr>w_heap := H3\<rparr> \<and>
          built ?H ?b (VT v (map (\<lambda>y. avt y) ?xs)) H3 \<and> (\<forall>y \<in> set ?xs. vlow (lim src - 1) (avt y))) \<or>
        (\<exists>e m3. run_opt ?body [0..<length hs] m2 = Some (Some e, m3) \<and> True)"
      by (rule copy_children_either [OF b ts(3,4,2) hs(2) xs copy body ts(5)])
    moreover have "gcp_copyTree mem src tgt m = run_opt ?body [0..<length hs] m2"
      using m1(1) hs(1) ts(1) Value_at [OF at] by (subst gcp_copyTree.simps) simp
    moreover have "vlow (lim src) (avt (AV a d ps))" if "\<forall>y \<in> set ?xs. vlow (lim src - 1) (avt y)"
    proof (cases hs)
      case Nil
      then have "?xs = []" using n by simp
      then show ?thesis using eq by (simp add: o_def)
    next
      case (Cons g gs)
      then have "lim src = Suc (lim src - 1)" using hs(3) by simp
      then show ?thesis using that eq by (cases "lim src") (auto simp: o_def)
    qed
    ultimately show ?case using eq by (auto simp: o_def)
  qed
qed

lemma srv_MultTree_either:
  assumes "stored (w_heap (wld m)) (addr (cm_Args mem c)) (CV [mult] [CStruct t])" "tree_cv t"
    and "w_results (wld m) c = None" "vnodes (vt_of t) < 2 ^ 28"
  shows "(\<exists>m' r t'. gcp_srv_MultTree mem c m = Some (None, m') \<and> w_results (wld m') c = Some r \<and>
      stored (w_heap (wld m')) r (CV [] [CStruct t']) \<and> tree_cv t' \<and> vt_of t' = vmult mult (vt_of t) \<and>
      vlow (lim (cm_Args mem c)) (vt_of t)) \<or>
    (\<exists>e m'. gcp_srv_MultTree mem c m = Some (Some e, m'))"
proof (cases "cm_Ptr mem m (cm_Args mem c) 0")
  case (Inl e)
  then show ?thesis by (simp add: gcp_srv_MultTree_def API_multTree_Params_Tree_def)
next
  case (Inr q)
  let ?A = "cm_Args mem c" and ?H = "w_heap (wld m)"
  obtain x where x: "cvalue x = t" "?H (addr ?A) = Some ([mult], [CStruct (root x)])" "holds ?H x"
      "distinct (addrs x)" "addr ?A \<notin> set (addrs x)"
    using assms(1) by (auto simp: stored_struct)
  have "0 < lim ?A" using at_limit [OF x(2) _ _ Inr] by (cases "lim ?A") simp_all
  then obtain h where h: "cm_Ptr mem m ?A 0 = Inr (CStruct h)" "addr h = root x"
    using PtrStruct_at [OF x(2)] by blast
  have low: "lim h \<le> lim ?A" using struct_limit [OF x(2) _ h(1)] by simp
  have mult: "API_multTree_Params_Mult mem m ?A = mult"
    using uint64 [OF x(2), of 0] by (simp add: API_multTree_Params_Mult_def)
  let ?y = "amult_upto mult (lim h) x"
  obtain m1 H1 where m1: "gcp_multTree mem mult h m = Some (None, m1)" "wld m1 = (wld m)\<lparr>w_heap := H1\<rparr>"
      "holds H1 ?y"
    using multTree_upto [OF x(3) _ x(4), of h mult] assms(2) x(1) h(2) by auto
  obtain r m2 where m2: "cm_AllocResults mem c (0, 1) m1 = (Inr r, m2)" "addr r \<notin> dom H1"
      "wld m2 = (wld m)\<lparr>w_heap := H1(addr r \<mapsto> ([], [CNull])), w_results := (w_results (wld m))(c \<mapsto> addr r)\<rparr>"
    using alloc_results [of m1 c "(0, 1)"] m1(2) assms(3) by (auto simp: zero_obj_def)
  obtain g m3 where m3: "API_multTree_Results_NewRes mem r m2 = (Inr g, m3)"
      "addr g \<notin> dom (H1(addr r \<mapsto> ([], [CNull])))"
      "wld m3 = (wld m2)\<lparr>w_heap := H1(addr r \<mapsto> ([], [CNull]), addr g \<mapsto> ([0], [CNull]),
                                     addr r \<mapsto> ([], [CStruct (addr g)]))\<rparr>"
    using NewTree_at [of m2 r "[]" CNull] m2(3) by auto
  let ?H3 = "w_heap (wld m3)"
  have fresh: "addr r \<notin> set (addrs ?y)" "addr g \<notin> set (addrs ?y)" "addr g \<noteq> addr r"
    using holds_addrs [OF m1(3)] m2(2) m3(2) by auto
  then have "holds ?H3 ?y = holds H1 ?y" using m3(3) by (intro holds_cong) auto
  moreover have y: "tree_cv (cvalue ?y)" "vlayout (avt ?y) = vlayout (vt_of t)"
      "vlow (lim h) (vt_of t) \<longrightarrow> ?y = amult mult x"
    using tree_amult_upto [of x mult "lim h"] assms(2) x(1) by simp_all
  moreover have "vnodes (avt ?y) < 2 ^ 28" using assms(4) y(2) by (metis vnodes_vlayout)
  ultimately have "(\<exists>m4 H4. gcp_copyTree mem h g m3 = Some (None, m4) \<and> wld m4 = (wld m3)\<lparr>w_heap := H4\<rparr> \<and>
        built ?H3 (addr g) (avt ?y) H4 \<and> vlow (lim h) (avt ?y)) \<or>
      (\<exists>e m4. gcp_copyTree mem h g m3 = Some (Some e, m4) \<and> True)"
    using m1(3) h(2) fresh m3(3) by (intro copyTree_either [where w = 0 and q = CNull]) simp_all
  moreover have srv: "gcp_srv_MultTree mem c m = gcp_copyTree mem h g m3"
    using h(1) mult m1(1) m2(1) m3(1)
    by (simp add: gcp_srv_MultTree_def API_multTree_Params_Tree_def ptr_Struct_def API_multTree_AllocResults_def)
  ultimately show ?thesis
  proof (elim disjE exE conjE)
    fix m4 H4 assume m4: "gcp_copyTree mem h g m3 = Some (None, m4)" "wld m4 = (wld m3)\<lparr>w_heap := H4\<rparr>"
      "built ?H3 (addr g) (avt ?y) H4" "vlow (lim h) (avt ?y)"
    have low_t: "vlow (lim h) (vt_of t)" using m4(4) y(2) by (metis vlow_vlayout)
    then have "avt ?y = vmult mult (vt_of t)" using y(3) tree_amult [of x mult] assms(2) x(1) by simp
    moreover obtain t' where "stored H4 (addr r) (CV [] [CStruct t'])" "tree_cv t'" "vt_of t' = avt ?y"
      using built_below [OF m4(3), of "addr r" "[]"] m3(3) fresh(3) by auto
    moreover have "vlow (lim ?A) (vt_of t)" using low_t low by (rule vlow_mono)
    ultimately show ?thesis using srv m4(1,2) m2(3) m3(3) by auto
  qed (simp add: srv)
qed

end

section \<open>An instance\<close>

text \<open>The reference memory keeps a limit with every handle; \<open>args\<close> are the handles of the arguments.\<close>

interpretation rlimited: capnp_limited "ref_mem\<lparr>cm_Args := args\<rparr>" rm_world fst snd 128 for args
proof (unfold_locales, goal_cases)
  case (8 m h d ps i p)
  then show ?case by (auto simp: ref_mem_def rm_ptr_def split: if_splits option.splits)
next
  case (9 m h d ps i hs g)
  then show ?case by (cases "ps ! i") (auto simp: ref_mem_def rm_ptr_def split: if_splits option.splits)
next
  case (10 m h d ps i g)
  then show ?case by (cases "ps ! i") (auto simp: ref_mem_def rm_ptr_def split: if_splits option.splits)
qed (use rmemory.uint64 rmemory.set_uint64 rmemory.ptr rmemory.set_data rmemory.new_struct rmemory.new_list
  rmemory.alloc_results in \<open>simp_all del: split_paired_Ex\<close>)

section \<open>Properties\<close>

text \<open>C37: Whatever the depth of the requested tree and the limit of the handles, the tree handler
  of the go-capnp system returns. It answers a tree of fewer levels than the limit allows, and
  returns an error for one of more; when it answers, it is with the whole tree, every value
  multiplied. So although \<open>multTree\<close> gives up silently at the limit, no tree that was cut or
  multiplied in part is ever sent.\<close>

theorem gcp_MultTree_limit:
  assumes "capnp_limited mem wld addr lim lmax"
    and "stored (w_heap (wld m)) (addr (cm_Args mem c)) (CV [mult] [CStruct t])" "tree_cv t"
    and "w_results (wld m) c = None" "vnodes (vt_of t) < 2 ^ 28"
  shows "\<exists>err m'. gcp_srv_MultTree mem c m = Some (err, m') \<and>
    (\<forall>k. vlow k (vt_of t) \<and> Suc k < lim (cm_Args mem c) \<longrightarrow> err = None) \<and>
    (\<not> vlow (lim (cm_Args mem c)) (vt_of t) \<longrightarrow> err \<noteq> None) \<and>
    (err = None \<longrightarrow> (\<exists>r t'. w_results (wld m') c = Some r \<and>
       stored (w_heap (wld m')) r (CV [] [CStruct t']) \<and> tree_cv t' \<and> vt_of t' = vmult mult (vt_of t)))"
proof -
  have "capnp_memory mem wld addr lim lmax" using assms(1) by (simp add: capnp_limited_def)
  note within = capnp_memory.srv_MultTree_ok [OF this assms(2-4) _ _ assms(5)]
  from capnp_limited.srv_MultTree_either [OF assms] show ?thesis
    using within by fastforce
qed

text \<open>A tree of three levels in arguments whose handle goes down one: the handler answers with an error.\<close>

definition deep_request :: "nat rmem" where
  "deep_request =
     \<lparr>rm_objs = [([3], [CStruct 1]), ([5], [CList [2]]), ([7], [CList [3]]), ([9], [CNull])],
      rm_results = \<lambda>_. None\<rparr>"

lemma gcp_MultTree_limit_witness:
  "\<exists>e m'. gcp_srv_MultTree (ref_mem\<lparr>cm_Args := \<lambda>c. (c, 1)\<rparr>) 0 deep_request = Some (Some e, m')"
proof -
  let ?t = "CV [5] [CList [CV [7] [CList [CV [9] [CNull]]]]]"
  let ?x = "AV 1 [5] [CList [AV 2 [7] [CList [AV 3 [9] [CNull]]]]]"
  have "stored (list_heap (rm_objs deep_request)) 0 (CV [3] [CStruct ?t])"
    unfolding stored_struct
    by (intro exI [of _ ?x]) (simp add: list_heap_def deep_request_def nth_Cons')
  then show ?thesis
    using gcp_MultTree_limit [OF rlimited.capnp_limited_axioms [of "\<lambda>c. (c, 1)"], of deep_request 0 3 ?t]
    by (auto simp: deep_request_def)
qed

end
