(* ===== verification/StructDef.thy ===== *)
theory StructDef
  imports GoCapnpRef
begin

text \<open>
  The rest of \<open>internal/rpc/gocapnp/structdef.capnp.go\<close>: what \<open>capnpc-go\<close> generates for each of
  the nine structs of the schema, the fields that \<open>GoCapnp\<close> does not need, and the type ids that
  are registered. The library's functions are the argument \<open>lib\<close>, beside \<open>mem\<close>; what is relied on
  of them is the locale \<open>capnp_structs\<close>, which extends \<open>capnp_memory\<close>.
\<close>

section \<open>The library\<close>

text \<open>
  Functions on segments \<open>'g\<close> and messages \<open>'n\<close>. \<open>lb_Marshal\<close> is \<open>text.Marshal\<close>, which returns a
  string also with an error.
\<close>

record ('m, 'h, 'g, 'n) capnp_lib =
  lb_NewStruct :: "struct_size \<Rightarrow> 'g \<Rightarrow> 'm \<Rightarrow> 'h result \<times> 'm"
  lb_NewRootStruct :: "struct_size \<Rightarrow> 'g \<Rightarrow> 'm \<Rightarrow> 'h result \<times> 'm"
  lb_NewCompositeList :: "struct_size \<Rightarrow> 'g \<Rightarrow> 32 word \<Rightarrow> 'm \<Rightarrow> 'h list result \<times> 'm"
  lb_Root :: "'m \<Rightarrow> 'n \<Rightarrow> 'h cptr result"
  lb_HasPtr :: "'m \<Rightarrow> 'h \<Rightarrow> nat \<Rightarrow> bool"
  lb_Marshal :: "64 word \<Rightarrow> 'm \<Rightarrow> 'h \<Rightarrow> string \<times> go_error option"
  lb_EncodeAsPtr :: "'h \<Rightarrow> 'g \<Rightarrow> 'h cptr"
  lb_DecodeFromPtr :: "'h \<Rightarrow> 'h cptr \<Rightarrow> 'h"
  lb_ToPtr :: "'h \<Rightarrow> 'h cptr"
  lb_IsValid :: "'h \<Rightarrow> bool"
  lb_Message :: "'h \<Rightarrow> 'n"
  lb_Segment :: "'h \<Rightarrow> 'g"

section \<open>The functions of a struct\<close>

text \<open>
  Every struct of the schema has the same functions, written by the generator from one
  template; they differ in the type id and in the size of the struct, which is written out in
  each of them.
\<close>

record ('m, 'h, 'g, 'n) generated_struct =
  gs_TypeID :: "64 word"
  gs_New :: "'g \<Rightarrow> 'm \<Rightarrow> 'h result \<times> 'm"
  gs_NewRoot :: "'g \<Rightarrow> 'm \<Rightarrow> 'h result \<times> 'm"
  gs_ReadRoot :: "'m \<Rightarrow> 'n \<Rightarrow> 'h result"
  gs_String :: "'m \<Rightarrow> 'h \<Rightarrow> string"
  gs_EncodeAsPtr :: "'h \<Rightarrow> 'g \<Rightarrow> 'h cptr"
  gs_DecodeFromPtr :: "'h cptr \<Rightarrow> 'h"
  gs_ToPtr :: "'h \<Rightarrow> 'h cptr"
  gs_IsValid :: "'h \<Rightarrow> bool"
  gs_Message :: "'h \<Rightarrow> 'n"
  gs_Segment :: "'h \<Rightarrow> 'g"

definition generated_methods ::
  "('m, 'h, 'c) capnp_mem \<Rightarrow> ('m, 'h, 'g, 'n) capnp_lib \<Rightarrow> 64 word \<Rightarrow> struct_size \<Rightarrow> struct_size \<Rightarrow>
     64 word \<Rightarrow> ('m, 'h, 'g, 'n) generated_struct"
where
  "generated_methods mem lib type_id sz root_sz string_id =
     \<lparr>gs_TypeID = type_id,
      gs_New = lb_NewStruct lib sz,
      gs_NewRoot = lb_NewRootStruct lib root_sz,
      gs_ReadRoot = (\<lambda>m msg. bind_result (lb_Root lib m msg) (\<lambda>root. Inr (ptr_Struct mem root))),
      gs_String = (\<lambda>m s. fst (lb_Marshal lib string_id m s)),
      gs_EncodeAsPtr = lb_EncodeAsPtr lib,
      gs_DecodeFromPtr = lb_DecodeFromPtr lib (cm_zero mem),
      gs_ToPtr = lb_ToPtr lib,
      gs_IsValid = lb_IsValid lib,
      gs_Message = lb_Message lib,
      gs_Segment = lb_Segment lib\<rparr>"

definition TreeNode_struct ::
  "('m, 'h, 'c) capnp_mem \<Rightarrow> ('m, 'h, 'g, 'n) capnp_lib \<Rightarrow> ('m, 'h, 'g, 'n) generated_struct" where
  "TreeNode_struct mem lib =
     generated_methods mem lib 0xfb4644d73da03e24 (8, 1) (8, 1) 0xfb4644d73da03e24"

definition API_nop_Params_struct ::
  "('m, 'h, 'c) capnp_mem \<Rightarrow> ('m, 'h, 'g, 'n) capnp_lib \<Rightarrow> ('m, 'h, 'g, 'n) generated_struct" where
  "API_nop_Params_struct mem lib =
     generated_methods mem lib 0xf9d58e206a93eb9c (0, 0) (0, 0) 0xf9d58e206a93eb9c"

definition API_nop_Results_struct ::
  "('m, 'h, 'c) capnp_mem \<Rightarrow> ('m, 'h, 'g, 'n) capnp_lib \<Rightarrow> ('m, 'h, 'g, 'n) generated_struct" where
  "API_nop_Results_struct mem lib =
     generated_methods mem lib 0xfddd3379466d7927 (0, 0) (0, 0) 0xfddd3379466d7927"

definition API_add_Params_struct ::
  "('m, 'h, 'c) capnp_mem \<Rightarrow> ('m, 'h, 'g, 'n) capnp_lib \<Rightarrow> ('m, 'h, 'g, 'n) generated_struct" where
  "API_add_Params_struct mem lib =
     generated_methods mem lib 0xfbf5e01c6a8344e7 (16, 0) (16, 0) 0xfbf5e01c6a8344e7"

definition API_add_Results_struct ::
  "('m, 'h, 'c) capnp_mem \<Rightarrow> ('m, 'h, 'g, 'n) capnp_lib \<Rightarrow> ('m, 'h, 'g, 'n) generated_struct" where
  "API_add_Results_struct mem lib =
     generated_methods mem lib 0xce72004cadd1cdc5 (8, 0) (8, 0) 0xce72004cadd1cdc5"

definition API_multTree_Params_struct ::
  "('m, 'h, 'c) capnp_mem \<Rightarrow> ('m, 'h, 'g, 'n) capnp_lib \<Rightarrow> ('m, 'h, 'g, 'n) generated_struct" where
  "API_multTree_Params_struct mem lib =
     generated_methods mem lib 0xb91ace4c4a633a57 (8, 1) (8, 1) 0xb91ace4c4a633a57"

definition API_multTree_Results_struct ::
  "('m, 'h, 'c) capnp_mem \<Rightarrow> ('m, 'h, 'g, 'n) capnp_lib \<Rightarrow> ('m, 'h, 'g, 'n) generated_struct" where
  "API_multTree_Results_struct mem lib =
     generated_methods mem lib 0x983900eb0fa214ee (0, 1) (0, 1) 0x983900eb0fa214ee"

definition API_toHex_Params_struct ::
  "('m, 'h, 'c) capnp_mem \<Rightarrow> ('m, 'h, 'g, 'n) capnp_lib \<Rightarrow> ('m, 'h, 'g, 'n) generated_struct" where
  "API_toHex_Params_struct mem lib =
     generated_methods mem lib 0x880f4d13f4a8eb97 (0, 1) (0, 1) 0x880f4d13f4a8eb97"

definition API_toHex_Results_struct ::
  "('m, 'h, 'c) capnp_mem \<Rightarrow> ('m, 'h, 'g, 'n) capnp_lib \<Rightarrow> ('m, 'h, 'g, 'n) generated_struct" where
  "API_toHex_Results_struct mem lib =
     generated_methods mem lib 0x890d0dbe87503908 (0, 1) (0, 1) 0x890d0dbe87503908"

definition generated_structs ::
  "('m, 'h, 'c) capnp_mem \<Rightarrow> ('m, 'h, 'g, 'n) capnp_lib \<Rightarrow> ('m, 'h, 'g, 'n) generated_struct list" where
  "generated_structs mem lib =
     [TreeNode_struct mem lib,
      API_nop_Params_struct mem lib,
      API_nop_Results_struct mem lib,
      API_add_Params_struct mem lib,
      API_add_Results_struct mem lib,
      API_multTree_Params_struct mem lib,
      API_multTree_Results_struct mem lib,
      API_toHex_Params_struct mem lib,
      API_toHex_Results_struct mem lib]"

text \<open>The list of a struct and its future, which are generated after its fields.\<close>

record ('m, 'h, 'g, 'f) generated_list =
  gl_NewList :: "'g \<Rightarrow> 32 word \<Rightarrow> 'm \<Rightarrow> 'h list result \<times> 'm"
  gl_Struct :: "'f \<Rightarrow> 'm \<Rightarrow> 'h result \<times> 'm"

definition TreeNode_list ::
  "('m, 'h, 'c) capnp_mem \<Rightarrow> ('m, 'h, 'g, 'n) capnp_lib \<Rightarrow> ('m, 'h, 'f) capnp_conn \<Rightarrow>
     ('m, 'h, 'g, 'f) generated_list"
where
  "TreeNode_list mem lib conn = \<lparr>gl_NewList = lb_NewCompositeList lib (8, 1), gl_Struct = Future_Struct mem conn\<rparr>"

definition API_nop_Params_list ::
  "('m, 'h, 'c) capnp_mem \<Rightarrow> ('m, 'h, 'g, 'n) capnp_lib \<Rightarrow> ('m, 'h, 'f) capnp_conn \<Rightarrow>
     ('m, 'h, 'g, 'f) generated_list"
where
  "API_nop_Params_list mem lib conn = \<lparr>gl_NewList = lb_NewCompositeList lib (0, 0), gl_Struct = Future_Struct mem conn\<rparr>"

definition API_nop_Results_list ::
  "('m, 'h, 'c) capnp_mem \<Rightarrow> ('m, 'h, 'g, 'n) capnp_lib \<Rightarrow> ('m, 'h, 'f) capnp_conn \<Rightarrow>
     ('m, 'h, 'g, 'f) generated_list"
where
  "API_nop_Results_list mem lib conn = \<lparr>gl_NewList = lb_NewCompositeList lib (0, 0), gl_Struct = Future_Struct mem conn\<rparr>"

definition API_add_Params_list ::
  "('m, 'h, 'c) capnp_mem \<Rightarrow> ('m, 'h, 'g, 'n) capnp_lib \<Rightarrow> ('m, 'h, 'f) capnp_conn \<Rightarrow>
     ('m, 'h, 'g, 'f) generated_list"
where
  "API_add_Params_list mem lib conn = \<lparr>gl_NewList = lb_NewCompositeList lib (16, 0), gl_Struct = Future_Struct mem conn\<rparr>"

definition API_add_Results_list ::
  "('m, 'h, 'c) capnp_mem \<Rightarrow> ('m, 'h, 'g, 'n) capnp_lib \<Rightarrow> ('m, 'h, 'f) capnp_conn \<Rightarrow>
     ('m, 'h, 'g, 'f) generated_list"
where
  "API_add_Results_list mem lib conn = \<lparr>gl_NewList = lb_NewCompositeList lib (8, 0), gl_Struct = Future_Struct mem conn\<rparr>"

definition API_multTree_Params_list ::
  "('m, 'h, 'c) capnp_mem \<Rightarrow> ('m, 'h, 'g, 'n) capnp_lib \<Rightarrow> ('m, 'h, 'f) capnp_conn \<Rightarrow>
     ('m, 'h, 'g, 'f) generated_list"
where
  "API_multTree_Params_list mem lib conn = \<lparr>gl_NewList = lb_NewCompositeList lib (8, 1), gl_Struct = Future_Struct mem conn\<rparr>"

definition API_multTree_Results_list ::
  "('m, 'h, 'c) capnp_mem \<Rightarrow> ('m, 'h, 'g, 'n) capnp_lib \<Rightarrow> ('m, 'h, 'f) capnp_conn \<Rightarrow>
     ('m, 'h, 'g, 'f) generated_list"
where
  "API_multTree_Results_list mem lib conn = \<lparr>gl_NewList = lb_NewCompositeList lib (0, 1), gl_Struct = Future_Struct mem conn\<rparr>"

definition API_toHex_Params_list ::
  "('m, 'h, 'c) capnp_mem \<Rightarrow> ('m, 'h, 'g, 'n) capnp_lib \<Rightarrow> ('m, 'h, 'f) capnp_conn \<Rightarrow>
     ('m, 'h, 'g, 'f) generated_list"
where
  "API_toHex_Params_list mem lib conn = \<lparr>gl_NewList = lb_NewCompositeList lib (0, 1), gl_Struct = Future_Struct mem conn\<rparr>"

definition API_toHex_Results_list ::
  "('m, 'h, 'c) capnp_mem \<Rightarrow> ('m, 'h, 'g, 'n) capnp_lib \<Rightarrow> ('m, 'h, 'f) capnp_conn \<Rightarrow>
     ('m, 'h, 'g, 'f) generated_list"
where
  "API_toHex_Results_list mem lib conn = \<lparr>gl_NewList = lb_NewCompositeList lib (0, 1), gl_Struct = Future_Struct mem conn\<rparr>"

text \<open>The type ids that \<open>RegisterSchema\<close> registers, and that of the interface.\<close>

definition API_TypeID :: "64 word" where
  "API_TypeID = 0xfea5a1579f2ffa9e"

definition schema_nodes :: "64 word list" where
  "schema_nodes =
     [0x880f4d13f4a8eb97, 0x890d0dbe87503908, 0x983900eb0fa214ee, 0xb91ace4c4a633a57,
      0xce72004cadd1cdc5, 0xf9d58e206a93eb9c, 0xfb4644d73da03e24, 0xfbf5e01c6a8344e7,
      0xfddd3379466d7927, 0xfea5a1579f2ffa9e]"

section \<open>The other functions of the fields\<close>

definition TreeNode_HasChildren :: "('m, 'h, 'g, 'n) capnp_lib \<Rightarrow> 'm \<Rightarrow> 'h \<Rightarrow> bool" where
  "TreeNode_HasChildren lib m s = lb_HasPtr lib m s 0"

definition API_multTree_Params_HasTree :: "('m, 'h, 'g, 'n) capnp_lib \<Rightarrow> 'm \<Rightarrow> 'h \<Rightarrow> bool" where
  "API_multTree_Params_HasTree lib m s = lb_HasPtr lib m s 0"

definition API_multTree_Results_HasRes :: "('m, 'h, 'g, 'n) capnp_lib \<Rightarrow> 'm \<Rightarrow> 'h \<Rightarrow> bool" where
  "API_multTree_Results_HasRes lib m s = lb_HasPtr lib m s 0"

definition API_toHex_Params_HasIn :: "('m, 'h, 'g, 'n) capnp_lib \<Rightarrow> 'm \<Rightarrow> 'h \<Rightarrow> bool" where
  "API_toHex_Params_HasIn lib m s = lb_HasPtr lib m s 0"

definition API_toHex_Results_HasOut :: "('m, 'h, 'g, 'n) capnp_lib \<Rightarrow> 'm \<Rightarrow> 'h \<Rightarrow> bool" where
  "API_toHex_Results_HasOut lib m s = lb_HasPtr lib m s 0"

definition TreeNode_SetChildren ::
  "('m, 'h, 'c) capnp_mem \<Rightarrow> 'h \<Rightarrow> 'h list \<Rightarrow> 'm \<Rightarrow> go_error option \<times> 'm" where
  "TreeNode_SetChildren mem s v = cm_SetPtr mem s 0 (CList v)"

definition API_multTree_Params_SetTree ::
  "('m, 'h, 'c) capnp_mem \<Rightarrow> ('m, 'h, 'g, 'n) capnp_lib \<Rightarrow> 'h \<Rightarrow> 'h \<Rightarrow> 'm \<Rightarrow> go_error option \<times> 'm" where
  "API_multTree_Params_SetTree mem lib s v = cm_SetPtr mem s 0 (lb_ToPtr lib v)"

definition API_multTree_Results_SetRes ::
  "('m, 'h, 'c) capnp_mem \<Rightarrow> ('m, 'h, 'g, 'n) capnp_lib \<Rightarrow> 'h \<Rightarrow> 'h \<Rightarrow> 'm \<Rightarrow> go_error option \<times> 'm" where
  "API_multTree_Results_SetRes mem lib s v = cm_SetPtr mem s 0 (lb_ToPtr lib v)"

text \<open>
  The fields of a future that are futures themselves; \<open>field\<close> is \<open>Future.Field\<close> of the library
  with the number of the pointer.
\<close>

definition API_multTree_Params_Future_Tree :: "('f \<Rightarrow> nat \<Rightarrow> 'f) \<Rightarrow> 'f \<Rightarrow> 'f" where
  "API_multTree_Params_Future_Tree field p = field p 0"

definition API_multTree_Results_Future_Res :: "('f \<Rightarrow> nat \<Rightarrow> 'f) \<Rightarrow> 'f \<Rightarrow> 'f" where
  "API_multTree_Results_Future_Res field p = field p 0"

section \<open>The interface\<close>

text \<open>
  \<open>API\<close> is a name for \<open>capnp.Client\<close>, here \<open>'k\<close>, and its functions pass on to those of the client;
  only \<open>String\<close> adds to what it gets. A \<open>'p\<close> is a pointer and a \<open>'w\<close> a flow limiter.
\<close>

record ('m, 'k, 'g, 'p, 'w) client_functions =
  kf_WaitStreaming :: "'k \<Rightarrow> 'm \<Rightarrow> go_error option \<times> 'm"
  kf_String :: "'m \<Rightarrow> 'k \<Rightarrow> string"
  kf_AddRef :: "'k \<Rightarrow> 'm \<Rightarrow> 'k \<times> 'm"
  kf_Release :: "'k \<Rightarrow> 'm \<Rightarrow> 'm"
  kf_Resolve :: "'k \<Rightarrow> 'm \<Rightarrow> go_error option \<times> 'm"
  kf_EncodeAsPtr :: "'k \<Rightarrow> 'g \<Rightarrow> 'm \<Rightarrow> 'p \<times> 'm"
  kf_DecodeFromPtr :: "'p \<Rightarrow> 'k"
  kf_IsValid :: "'m \<Rightarrow> 'k \<Rightarrow> bool"
  kf_IsSame :: "'m \<Rightarrow> 'k \<Rightarrow> 'k \<Rightarrow> bool"
  kf_SetFlowLimiter :: "'k \<Rightarrow> 'w \<Rightarrow> 'm \<Rightarrow> 'm"
  kf_GetFlowLimiter :: "'m \<Rightarrow> 'k \<Rightarrow> 'w"

definition API_functions ::
  "('m, 'k, 'g, 'p, 'w) client_functions \<Rightarrow> ('m, 'k, 'g, 'p, 'w) client_functions" where
  "API_functions client =
     client\<lparr>kf_String := (\<lambda>m c. ''API('' @ kf_String client m c @ '')'')\<rparr>"

text \<open>
  The server of an implementation: \<open>new_server\<close> is \<open>server.New\<close> of the library, for the method
  table of the implementation \<open>s\<close>, which it also asks whether it is a \<open>Shutdowner\<close>.
\<close>

definition API_NewServer ::
  "((capnp_method \<times> ('c \<Rightarrow> 'm \<Rightarrow> (go_error option \<times> 'm) option)) list \<Rightarrow> 'i \<Rightarrow> 'v) \<Rightarrow>
     ('m, 'h, 'c) capnp_mem \<Rightarrow> 'i \<Rightarrow> 'v"
where
  "API_NewServer new_server mem s = new_server (API_Methods mem) s"

definition API_ServerToClient ::
  "('v \<Rightarrow> 'k) \<Rightarrow> ((capnp_method \<times> ('c \<Rightarrow> 'm \<Rightarrow> (go_error option \<times> 'm) option)) list \<Rightarrow> 'i \<Rightarrow> 'v) \<Rightarrow>
     ('m, 'h, 'c) capnp_mem \<Rightarrow> 'i \<Rightarrow> 'k"
where
  "API_ServerToClient new_client new_server mem s = new_client (API_NewServer new_server mem s)"

section \<open>What the library promises\<close>

text \<open>
  A new struct is zeroed and nowhere else, a root struct is what the root of its message points
  to, and a struct can be made a pointer and taken back. \<open>msg_of\<close> is the message of a segment.
  A pointer that is set to trees the struct is not part of points to trees of the same values
  afterwards and no other struct has changed: \<open>SetPtr\<close> copies what is in another message or an
  element of a list, as its documentation says, and the law leaves open whether it does. A copy
  reads what it copies, so the law asks that the trees are not deeper than their handles allow.
\<close>

definition settable :: "cheap \<Rightarrow> nat \<Rightarrow> nat \<Rightarrow> aval \<Rightarrow> bool" where
  "settable H a k x \<longleftrightarrow> tree_in H x \<and> a \<notin> set (addrs x) \<and> vlow k (avt x) \<and> vnodes (avt x) < 2 ^ 28"

locale capnp_structs = capnp_memory mem wld addr lim lmax
  for mem :: "('m, 'h, 'c) capnp_mem" and wld :: "'m \<Rightarrow> 'c world"
    and addr :: "'h \<Rightarrow> nat" and lim :: "'h \<Rightarrow> nat" and lmax :: nat +
  fixes lib :: "('m, 'h, 'g, 'n) capnp_lib" and msg_of :: "'g \<Rightarrow> 'n"
  assumes seg_struct: "\<exists>h m'. lb_NewStruct lib sz g m = (Inr h, m') \<and>
      addr h \<notin> dom (w_heap (wld m)) \<and> lmax \<le> lim h \<and>
      w_heap (wld m') = (w_heap (wld m))(addr h \<mapsto> zero_obj (fst sz div 8, snd sz))"
    and root_struct: "\<exists>h h' m'. lb_NewRootStruct lib sz g m = (Inr h, m') \<and>
      addr h \<notin> dom (w_heap (wld m)) \<and> lmax \<le> lim h \<and>
      w_heap (wld m') = (w_heap (wld m))(addr h \<mapsto> zero_obj (fst sz div 8, snd sz)) \<and>
      lb_Root lib m' (msg_of g) = Inr (CStruct h') \<and> addr h' = addr h \<and> lmax \<le> lim h'"
    and has_ptr: "w_heap (wld m) (addr h) = Some (d, ps) \<Longrightarrow> i < length ps \<Longrightarrow>
      lb_HasPtr lib m h i \<longleftrightarrow> ps ! i \<noteq> CNull"
    and decode_to_ptr: "lb_DecodeFromPtr lib z (lb_ToPtr lib h) = h"
    and decode_encoded: "lb_DecodeFromPtr lib z (lb_EncodeAsPtr lib h g) = h"
    and to_ptr: "lb_ToPtr lib h = CStruct h"
    and set_ptr: "w_heap (wld m) (addr h) = Some (d, ps) \<Longrightarrow> i < length ps \<Longrightarrow>
      map_cptr root q = map_cptr addr p \<Longrightarrow> distinct (concat (map addrs (elems q))) \<Longrightarrow>
      length (elems q) < 2 ^ 28 \<Longrightarrow>
      (\<And>x. x \<in> set (elems q) \<Longrightarrow> settable (w_heap (wld m)) (addr h) k x) \<Longrightarrow>
      (\<And>g. g \<in> set (elems p) \<Longrightarrow> k < lim g) \<Longrightarrow>
      \<exists>m' q'. cm_SetPtr mem h i p m = (None, m') \<and>
        w_heap (wld m') (addr h) = Some (d, ps[i := map_cptr root q']) \<and>
        map_cptr cvalue q' = map_cptr cvalue q \<and> (\<forall>x \<in> set (elems q'). tree_in (w_heap (wld m')) x) \<and>
        (\<forall>b \<in> dom (w_heap (wld m)) - {addr h}. w_heap (wld m') b = w_heap (wld m) b)"

lemmas generated_struct_defs = TreeNode_struct_def API_nop_Params_struct_def API_nop_Results_struct_def
  API_add_Params_struct_def API_add_Results_struct_def API_multTree_Params_struct_def
  API_multTree_Results_struct_def API_toHex_Params_struct_def API_toHex_Results_struct_def

lemma generated_struct_cases:
  assumes "T \<in> set (generated_structs mem lib)"
  obtains i sz where "T = generated_methods mem lib i sz sz i"
  using assms by (auto simp: generated_structs_def generated_struct_defs)

text \<open>
  What a generated field is: in a struct of the layout \<open>sz\<close>, in words, that holds anything, the
  getter of the word \<open>i\<close> returns that word, and the setter writes it and nothing else. For a
  pointer the getter finds what it points to, \<open>Has\<close> tells whether it is set, \<open>New\<close> lets it point
  to new zeroed structs and \<open>Set\<close> to what shows the given trees.
\<close>

definition new_zeroed ::
  "('m \<Rightarrow> 'c world) \<Rightarrow> ('h \<Rightarrow> nat) \<Rightarrow> ('h \<Rightarrow> nat) \<Rightarrow> nat \<Rightarrow> ('m, 'h, 'g, 'n) generated_struct \<Rightarrow> struct_size \<Rightarrow> bool"
where
  "new_zeroed wld addr lim lmax T sz \<longleftrightarrow>
     (\<forall>g m. \<exists>s m'. gs_New T g m = (Inr s, m') \<and> lmax \<le> lim s \<and> addr s \<notin> dom (w_heap (wld m)) \<and>
        w_heap (wld m') = (w_heap (wld m))(addr s \<mapsto> zero_obj sz))"

definition word_field ::
  "('m \<Rightarrow> 'c world) \<Rightarrow> ('h \<Rightarrow> nat) \<Rightarrow> struct_size \<Rightarrow> nat \<Rightarrow> ('m \<Rightarrow> 'h \<Rightarrow> int64) \<Rightarrow>
     ('h \<Rightarrow> int64 \<Rightarrow> 'm \<Rightarrow> 'm result) \<Rightarrow> bool"
where
  "word_field wld addr sz i get put \<longleftrightarrow> i < fst sz \<and>
     (\<forall>m s d ps. w_heap (wld m) (addr s) = Some (d, ps) \<and> length d = fst sz \<and> length ps = snd sz \<longrightarrow>
        get m s = d ! i \<and>
        (\<forall>v. \<exists>m'. put s v m = Inr m' \<and> w_heap (wld m') = (w_heap (wld m))(addr s \<mapsto> (d[i := v], ps))))"

definition data_field ::
  "('m \<Rightarrow> 'c world) \<Rightarrow> ('h \<Rightarrow> nat) \<Rightarrow> ('h \<Rightarrow> nat) \<Rightarrow> nat \<Rightarrow> ('m \<Rightarrow> 'h \<Rightarrow> byte list result) \<Rightarrow>
     ('m \<Rightarrow> 'h \<Rightarrow> bool) \<Rightarrow> ('h \<Rightarrow> byte list \<Rightarrow> 'm \<Rightarrow> go_error option \<times> 'm) \<Rightarrow> bool"
where
  "data_field wld addr lim words get has put \<longleftrightarrow>
     (\<forall>m s d p. w_heap (wld m) (addr s) = Some (d, [p]) \<and> length d = words \<longrightarrow>
        (has m s \<longleftrightarrow> p \<noteq> CNull) \<and>
        (\<forall>bs. p = CData bs \<and> 0 < lim s \<longrightarrow> get m s = Inr bs) \<and>
        (\<forall>bs. length bs < 2 ^ 29 \<longrightarrow>
           (\<exists>m'. put s bs m = (None, m') \<and> w_heap (wld m') = (w_heap (wld m))(addr s \<mapsto> (d, [CData bs])))))"

definition struct_field ::
  "('m \<Rightarrow> 'c world) \<Rightarrow> ('h \<Rightarrow> nat) \<Rightarrow> ('h \<Rightarrow> nat) \<Rightarrow> nat \<Rightarrow> nat \<Rightarrow> ('m \<Rightarrow> 'h \<Rightarrow> 'h result) \<Rightarrow>
     ('m \<Rightarrow> 'h \<Rightarrow> bool) \<Rightarrow> ('h \<Rightarrow> 'm \<Rightarrow> 'h result \<times> 'm) \<Rightarrow> ('h \<Rightarrow> 'h \<Rightarrow> 'm \<Rightarrow> go_error option \<times> 'm) \<Rightarrow> bool"
where
  "struct_field wld addr lim lmax words get has new put \<longleftrightarrow>
     (\<forall>m s d p. w_heap (wld m) (addr s) = Some (d, [p]) \<and> length d = words \<longrightarrow>
        (has m s \<longleftrightarrow> p \<noteq> CNull) \<and>
        (\<forall>a. p = CStruct a \<and> 0 < lim s \<longrightarrow> (\<exists>t. get m s = Inr t \<and> addr t = a)) \<and>
        (\<exists>t m'. new s m = (Inr t, m') \<and> addr t \<notin> dom (w_heap (wld m)) \<and> lmax \<le> lim t \<and>
           w_heap (wld m') = (w_heap (wld m))(addr t \<mapsto> ([0], [CNull]), addr s \<mapsto> (d, [CStruct (addr t)]))) \<and>
        (\<forall>t x k. root x = addr t \<and> settable (w_heap (wld m)) (addr s) k x \<and> k < lim t \<longrightarrow>
           (\<exists>m' a. put s t m = (None, m') \<and> w_heap (wld m') (addr s) = Some (d, [CStruct a]) \<and>
              stored (w_heap (wld m')) a (cvalue x) \<and>
              (\<forall>b \<in> dom (w_heap (wld m)) - {addr s}. w_heap (wld m') b = w_heap (wld m) b))))"

definition list_field ::
  "('m \<Rightarrow> 'c world) \<Rightarrow> ('h \<Rightarrow> nat) \<Rightarrow> ('h \<Rightarrow> nat) \<Rightarrow> nat \<Rightarrow> ('m \<Rightarrow> 'h \<Rightarrow> 'h list result) \<Rightarrow>
     ('m \<Rightarrow> 'h \<Rightarrow> bool) \<Rightarrow> ('h \<Rightarrow> 32 word \<Rightarrow> 'm \<Rightarrow> 'h list result \<times> 'm) \<Rightarrow>
     ('h \<Rightarrow> 'h list \<Rightarrow> 'm \<Rightarrow> go_error option \<times> 'm) \<Rightarrow> bool"
where
  "list_field wld addr lim lmax get has new put \<longleftrightarrow>
     (\<forall>m s v p. w_heap (wld m) (addr s) = Some ([v], [p]) \<longrightarrow>
        (has m s \<longleftrightarrow> p \<noteq> CNull) \<and>
        (listy p \<and> 0 < lim s \<longrightarrow> (\<exists>hs. get m s = Inr hs \<and> map addr hs = elems p)) \<and>
        (\<forall>n. n < 2 ^ 28 \<longrightarrow> (\<exists>hs m'. new s (word_of_nat n) m = (Inr hs, m') \<and> length hs = n \<and>
           distinct (map addr hs) \<and> set (map addr hs) \<inter> dom (w_heap (wld m)) = {} \<and>
           (\<forall>h \<in> set hs. lmax \<le> lim h) \<and>
           w_heap (wld m') = new_children (w_heap (wld m)) (addr s) v (map addr hs))) \<and>
        (\<forall>ts xs k. map root xs = map addr ts \<and> distinct (concat (map addrs xs)) \<and> length xs < 2 ^ 28 \<and>
           (\<forall>x \<in> set xs. settable (w_heap (wld m)) (addr s) k x) \<and> (\<forall>t \<in> set ts. k < lim t) \<longrightarrow>
           (\<exists>m' as. put s ts m = (None, m') \<and> w_heap (wld m') (addr s) = Some ([v], [CList as]) \<and>
              list_all2 (stored (w_heap (wld m'))) as (map cvalue xs) \<and>
              (\<forall>b \<in> dom (w_heap (wld m)) - {addr s}. w_heap (wld m') b = w_heap (wld m) b))))"

text \<open>So the fields of two words do not disturb each other, in either order.\<close>

lemma word_field_apart:
  assumes "word_field wld addr sz i get put" "word_field wld addr sz j get' put'" "i \<noteq> j"
    and "w_heap (wld m) (addr s) = Some (d, ps)" "length d = fst sz" "length ps = snd sz"
  obtains m' d' where "put s v m = Inr m'" "get m' s = v" "get' m' s = get' m s"
    "w_heap (wld m') (addr s) = Some (d', ps)" "length d' = fst sz"
proof -
  obtain m' where m': "put s v m = Inr m'" "w_heap (wld m') = (w_heap (wld m))(addr s \<mapsto> (d[i := v], ps))"
    using assms(1,4-6) unfolding word_field_def by blast
  then have at: "w_heap (wld m') (addr s) = Some (d[i := v], ps)" "length (d[i := v]) = fst sz"
    using assms(5) by simp_all
  have "get m' s = d[i := v] ! i" "get' m' s = d[i := v] ! j" "get' m s = d ! j" "i < fst sz"
    using assms(1,2,4-6) at unfolding word_field_def by blast+
  then show thesis using assms(3,5) that [OF m'(1) _ _ at] by simp
qed

context capnp_structs
begin

lemma struct_root:
  assumes "T \<in> set (generated_structs mem lib)"
  shows "\<exists>h h' m' d ps. gs_NewRoot T g m = (Inr h, m') \<and> gs_ReadRoot T m' (msg_of g) = Inr h' \<and>
    addr h' = addr h \<and> addr h \<notin> dom (w_heap (wld m)) \<and>
    w_heap (wld m') = (w_heap (wld m))(addr h \<mapsto> (d, ps)) \<and> set d \<subseteq> {0} \<and> set ps \<subseteq> {CNull} \<and>
    gs_DecodeFromPtr T (gs_ToPtr T h) = h \<and> gs_DecodeFromPtr T (gs_EncodeAsPtr T h g') = h"
proof -
  obtain i sz where T: "T = generated_methods mem lib i sz sz i"
    using assms by (rule generated_struct_cases)
  obtain h h' m' where h: "lb_NewRootStruct lib sz g m = (Inr h, m')" "addr h \<notin> dom (w_heap (wld m))"
      "w_heap (wld m') = (w_heap (wld m))(addr h \<mapsto> zero_obj (fst sz div 8, snd sz))"
      "lb_Root lib m' (msg_of g) = Inr (CStruct h')" "addr h' = addr h"
    using root_struct [of sz g m] by blast
  have "zero_obj (fst sz div 8, snd sz) = (replicate (fst sz div 8) 0, replicate (snd sz) CNull)"
    by (simp add: zero_obj_def)
  moreover have zeros: "set (replicate (fst sz div 8) (0 :: int64)) \<subseteq> {0}"
      "set (replicate (snd sz) (CNull :: nat cptr)) \<subseteq> {CNull}"
    by (auto simp: set_replicate_conv_if)
  ultimately have "gs_NewRoot T g m = (Inr h, m') \<and> gs_ReadRoot T m' (msg_of g) = Inr h' \<and>
      w_heap (wld m') = (w_heap (wld m))(addr h \<mapsto> (replicate (fst sz div 8) 0, replicate (snd sz) CNull)) \<and>
      gs_DecodeFromPtr T (gs_ToPtr T h) = h \<and> gs_DecodeFromPtr T (gs_EncodeAsPtr T h g') = h"
    using h by (simp add: T generated_methods_def ptr_Struct_def decode_to_ptr decode_encoded)
  with h(2,5) zeros
  show ?thesis by blast
qed

lemma struct_new:
  "new_zeroed wld addr lim lmax (generated_methods mem lib i sz rsz j) (fst sz div 8, snd sz)"
  unfolding new_zeroed_def using seg_struct [of sz] by (simp add: generated_methods_def) metis

lemma field_word:
  assumes "i < fst sz"
  shows "word_field wld addr sz i (\<lambda>m s. cm_Uint64 mem m s (8 * i)) (\<lambda>s. cm_SetUint64 mem s (8 * i))"
  unfolding word_field_def
proof (intro conjI allI impI)
  fix m s d ps v assume at: "w_heap (wld m) (addr s) = Some (d, ps) \<and> length d = fst sz \<and> length ps = snd sz"
  then show "cm_Uint64 mem m s (8 * i) = d ! i" using uint64 [of m s d ps i] assms by simp
  show "\<exists>m'. cm_SetUint64 mem s (8 * i) v m = Inr m' \<and>
      w_heap (wld m') = (w_heap (wld m))(addr s \<mapsto> (d[i := v], ps))"
    using set_uint64 [of m s d ps i v] at assms by auto
qed (rule assms)

lemma field_data:
  "data_field wld addr lim words (\<lambda>m s. bind_result (cm_Ptr mem m s 0) (\<lambda>p. Inr (ptr_Data p)))
     (\<lambda>m s. lb_HasPtr lib m s 0) (\<lambda>s. cm_SetData mem s 0)"
  unfolding data_field_def
proof (intro allI impI conjI)
  fix m s d p assume at: "w_heap (wld m) (addr s) = Some (d, [p]) \<and> length d = words"
  show "lb_HasPtr lib m s 0 \<longleftrightarrow> p \<noteq> CNull" using has_ptr [of m s d "[p]" 0] at by simp
  show "bind_result (cm_Ptr mem m s 0) (\<lambda>p. Inr (ptr_Data p)) = Inr bs" if bs: "p = CData bs \<and> 0 < lim s" for bs
  proof -
    obtain q where q: "cm_Ptr mem m s 0 = Inr q" "map_cptr addr q = CData bs"
      using ptr [of m s d "[p]" 0] at bs by auto
    then show ?thesis by (cases q) (auto simp: ptr_Data_def)
  qed
  show "\<exists>m'. cm_SetData mem s 0 bs m = (None, m') \<and> w_heap (wld m') = (w_heap (wld m))(addr s \<mapsto> (d, [CData bs]))"
    if "length bs < 2 ^ 29" for bs
    using set_data [of m s d "[p]" 0 bs] at that by auto
qed

lemma field_struct:
  "struct_field wld addr lim lmax words
     (\<lambda>m s. bind_result (cm_Ptr mem m s 0) (\<lambda>p. Inr (ptr_Struct mem p))) (\<lambda>m s. lb_HasPtr lib m s 0)
     (API_multTree_Params_NewTree mem) (\<lambda>s v. cm_SetPtr mem s 0 (lb_ToPtr lib v))"
  unfolding struct_field_def
proof (intro allI impI conjI)
  fix m s d p assume at: "w_heap (wld m) (addr s) = Some (d, [p]) \<and> length d = words"
  show "lb_HasPtr lib m s 0 \<longleftrightarrow> p \<noteq> CNull" using has_ptr [of m s d "[p]" 0] at by simp
  show "\<exists>t. bind_result (cm_Ptr mem m s 0) (\<lambda>p. Inr (ptr_Struct mem p)) = Inr t \<and> addr t = a"
    if a: "p = CStruct a \<and> 0 < lim s" for a
  proof -
    obtain q where q: "cm_Ptr mem m s 0 = Inr q" "map_cptr addr q = CStruct a"
      using ptr [of m s d "[p]" 0] at a by auto
    then show ?thesis by (cases q) (auto simp: ptr_Struct_def)
  qed
  show "\<exists>t m'. API_multTree_Params_NewTree mem s m = (Inr t, m') \<and> addr t \<notin> dom (w_heap (wld m)) \<and> lmax \<le> lim t \<and>
      w_heap (wld m') = (w_heap (wld m))(addr t \<mapsto> ([0], [CNull]), addr s \<mapsto> (d, [CStruct (addr t)]))"
    using new_struct [of m s d "[p]" 0 "(8, 1)"] at
    by (auto simp: API_multTree_Params_NewTree_def capnp_NewTreeNode_def zero_obj_def)
  show "\<exists>m' a. cm_SetPtr mem s 0 (lb_ToPtr lib t) m = (None, m') \<and>
      w_heap (wld m') (addr s) = Some (d, [CStruct a]) \<and> stored (w_heap (wld m')) a (cvalue x) \<and>
      (\<forall>b \<in> dom (w_heap (wld m)) - {addr s}. w_heap (wld m') b = w_heap (wld m) b)"
    if x: "root x = addr t \<and> settable (w_heap (wld m)) (addr s) k x \<and> k < lim t" for t x k
  proof -
    have d: "distinct (addrs x)" using x by (simp add: settable_def tree_in_def)
    obtain m' q' where q: "cm_SetPtr mem s 0 (CStruct t) m = (None, m')"
        "w_heap (wld m') (addr s) = Some (d, [map_cptr root q'])" "map_cptr cvalue q' = CStruct (cvalue x)"
        "\<forall>y \<in> set (elems q'). tree_in (w_heap (wld m')) y"
        "\<forall>b \<in> dom (w_heap (wld m)) - {addr s}. w_heap (wld m') b = w_heap (wld m) b"
      using set_ptr [of m s d "[p]" 0 "CStruct x" "CStruct t" k] at x d by auto
    from q(3) obtain y where "q' = CStruct y" "cvalue y = cvalue x" by (cases q') auto
    with q show ?thesis
      by (intro exI [of _ m'] exI [of _ "root y"]) (auto simp: to_ptr stored_def tree_in_def)
  qed
qed

lemma field_list:
  "list_field wld addr lim lmax (TreeNode_Children mem) (TreeNode_HasChildren lib)
     (TreeNode_NewChildren mem) (TreeNode_SetChildren mem)"
  unfolding list_field_def
proof (intro allI impI conjI)
  fix m s v p assume at: "w_heap (wld m) (addr s) = Some ([v], [p])"
  show "TreeNode_HasChildren lib m s \<longleftrightarrow> p \<noteq> CNull"
    using has_ptr [OF at, of 0] by (simp add: TreeNode_HasChildren_def)
  show "\<exists>hs. TreeNode_Children mem m s = Inr hs \<and> map addr hs = elems p" if "listy p \<and> 0 < lim s"
    using Children_at [OF at] that by auto
  show "\<exists>hs m'. TreeNode_NewChildren mem s (word_of_nat n) m = (Inr hs, m') \<and> length hs = n \<and>
      distinct (map addr hs) \<and> set (map addr hs) \<inter> dom (w_heap (wld m)) = {} \<and> (\<forall>h \<in> set hs. lmax \<le> lim h) \<and>
      w_heap (wld m') = new_children (w_heap (wld m)) (addr s) v (map addr hs)" if n: "n < 2 ^ 28" for n
    using NewChildren_at [OF at n] by auto
  show "\<exists>m' as. TreeNode_SetChildren mem s ts m = (None, m') \<and>
      w_heap (wld m') (addr s) = Some ([v], [CList as]) \<and>
      list_all2 (stored (w_heap (wld m'))) as (map cvalue xs) \<and>
      (\<forall>b \<in> dom (w_heap (wld m)) - {addr s}. w_heap (wld m') b = w_heap (wld m) b)"
    if x: "map root xs = map addr ts \<and> distinct (concat (map addrs xs)) \<and> length xs < 2 ^ 28 \<and>
      (\<forall>x \<in> set xs. settable (w_heap (wld m)) (addr s) k x) \<and> (\<forall>t \<in> set ts. k < lim t)" for ts xs k
  proof -
    obtain m' q' where q: "cm_SetPtr mem s 0 (CList ts) m = (None, m')"
        "w_heap (wld m') (addr s) = Some ([v], [map_cptr root q'])" "map_cptr cvalue q' = CList (map cvalue xs)"
        "\<forall>y \<in> set (elems q'). tree_in (w_heap (wld m')) y"
        "\<forall>b \<in> dom (w_heap (wld m)) - {addr s}. w_heap (wld m') b = w_heap (wld m) b"
      using set_ptr [of m s "[v]" "[p]" 0 "CList xs" "CList ts" k] at x by auto
    from q(3) obtain ys where ys: "q' = CList ys" "map cvalue ys = map cvalue xs" by (cases q') auto
    have "list_all2 (stored (w_heap (wld m'))) (map root ys) (map cvalue ys)"
      using q(4) ys(1) by (auto simp: list_all2_conv_all_nth stored_def tree_in_def)
    with q ys show ?thesis
      by (intro exI [of _ m'] exI [of _ "map root ys"]) (simp add: TreeNode_SetChildren_def)
  qed
qed

text \<open>The structs of the schema that have fields.\<close>

lemma node_fields:
  "new_zeroed wld addr lim lmax (TreeNode_struct mem lib) (1, 1)"
  "word_field wld addr (1, 1) 0 (TreeNode_Value mem) (TreeNode_SetValue mem)"
  "list_field wld addr lim lmax (TreeNode_Children mem) (TreeNode_HasChildren lib)
     (TreeNode_NewChildren mem) (TreeNode_SetChildren mem)"
  using struct_new [of _ "(8, 1)"] field_word [of 0 "(1, 1)"] field_list
  by (simp_all add: TreeNode_struct_def TreeNode_Value_def [abs_def] TreeNode_SetValue_def [abs_def])

lemma add_fields:
  "new_zeroed wld addr lim lmax (API_add_Params_struct mem lib) (2, 0)"
  "word_field wld addr (2, 0) 0 (API_add_Params_A mem) (API_add_Params_SetA mem)"
  "word_field wld addr (2, 0) 1 (API_add_Params_B mem) (API_add_Params_SetB mem)"
  using struct_new [of _ "(16, 0)"] field_word [of 0 "(2, 0)"] field_word [of 1 "(2, 0)"]
  by (simp_all add: API_add_Params_struct_def API_add_Params_A_def [abs_def] API_add_Params_SetA_def [abs_def]
      API_add_Params_B_def [abs_def] API_add_Params_SetB_def [abs_def])

lemma add_result_fields:
  "new_zeroed wld addr lim lmax (API_add_Results_struct mem lib) (1, 0)"
  "word_field wld addr (1, 0) 0 (API_add_Results_Res mem) (API_add_Results_SetRes mem)"
  using struct_new [of _ "(8, 0)"] field_word [of 0 "(1, 0)"]
  by (simp_all add: API_add_Results_struct_def API_add_Results_Res_def [abs_def] API_add_Results_SetRes_def [abs_def])

lemma tree_params_fields:
  "new_zeroed wld addr lim lmax (API_multTree_Params_struct mem lib) (1, 1)"
  "word_field wld addr (1, 1) 0 (API_multTree_Params_Mult mem) (API_multTree_Params_SetMult mem)"
  "struct_field wld addr lim lmax 1 (API_multTree_Params_Tree mem) (API_multTree_Params_HasTree lib)
     (API_multTree_Params_NewTree mem) (API_multTree_Params_SetTree mem lib)"
  using struct_new [of _ "(8, 1)"] field_word [of 0 "(1, 1)"] field_struct [of 1]
  by (simp_all add: API_multTree_Params_struct_def API_multTree_Params_Mult_def [abs_def]
      API_multTree_Params_SetMult_def [abs_def] API_multTree_Params_Tree_def [abs_def]
      API_multTree_Params_HasTree_def [abs_def] API_multTree_Params_SetTree_def [abs_def])

lemma tree_result_fields:
  "new_zeroed wld addr lim lmax (API_multTree_Results_struct mem lib) (0, 1)"
  "struct_field wld addr lim lmax 0 (API_multTree_Results_Res mem) (API_multTree_Results_HasRes lib)
     (API_multTree_Results_NewRes mem) (API_multTree_Results_SetRes mem lib)"
  using struct_new [of _ "(0, 1)"] field_struct [of 0]
  by (simp_all add: API_multTree_Results_struct_def API_multTree_Results_Res_def [abs_def]
      API_multTree_Results_HasRes_def [abs_def] API_multTree_Results_SetRes_def [abs_def]
      API_multTree_Results_NewRes_def [abs_def] API_multTree_Params_NewTree_def [abs_def])

lemma hex_params_fields:
  "new_zeroed wld addr lim lmax (API_toHex_Params_struct mem lib) (0, 1)"
  "data_field wld addr lim 0 (API_toHex_Params_In mem) (API_toHex_Params_HasIn lib) (API_toHex_Params_SetIn mem)"
  using struct_new [of _ "(0, 1)"] field_data [of 0]
  by (simp_all add: API_toHex_Params_struct_def API_toHex_Params_In_def [abs_def]
      API_toHex_Params_HasIn_def [abs_def] API_toHex_Params_SetIn_def [abs_def])

lemma hex_result_fields:
  "new_zeroed wld addr lim lmax (API_toHex_Results_struct mem lib) (0, 1)"
  "data_field wld addr lim 0 (API_toHex_Results_Out mem) (API_toHex_Results_HasOut lib) (API_toHex_Results_SetOut mem)"
  using struct_new [of _ "(0, 1)"] field_data [of 0]
  by (simp_all add: API_toHex_Results_struct_def API_toHex_Results_Out_def [abs_def]
      API_toHex_Results_HasOut_def [abs_def] API_toHex_Results_SetOut_def [abs_def])

end

section \<open>On the reference memory\<close>

text \<open>A segment and its message are a number, and the root of a message is kept like the results of a call.\<close>

definition ref_lib :: "(nat rmem, rhandle, nat, nat) capnp_lib" where
  "ref_lib =
     \<lparr>lb_NewStruct = (\<lambda>sz g m. case rm_new 1 (fst sz div 8, snd sz) m of (hs, m') \<Rightarrow> (Inr (hd hs), m')),
      lb_NewRootStruct = (\<lambda>sz g m. case rm_new_results g (fst sz div 8, snd sz) m of (h, m') \<Rightarrow> (Inr h, m')),
      lb_NewCompositeList = (\<lambda>sz g n m.
        case rm_new (unat n) (fst sz div 8, snd sz) m of (hs, m') \<Rightarrow> (Inr hs, m')),
      lb_Root = (\<lambda>m n. Inr (case rm_results m n of None \<Rightarrow> CNull | Some a \<Rightarrow> CStruct (a, 128))),
      lb_HasPtr = (\<lambda>m h i. case list_heap (rm_objs m) (fst h) of
          None \<Rightarrow> False | Some (d, ps) \<Rightarrow> i < length ps \<and> ps ! i \<noteq> CNull),
      lb_Marshal = (\<lambda>i m h. ([], None)),
      lb_EncodeAsPtr = (\<lambda>h g. CStruct h),
      lb_DecodeFromPtr = (\<lambda>z p. case p of CStruct h \<Rightarrow> h | _ \<Rightarrow> z),
      lb_ToPtr = CStruct,
      lb_IsValid = (\<lambda>h. True),
      lb_Message = (\<lambda>h. 0),
      lb_Segment = (\<lambda>h. 0)\<rparr>"

interpretation rstructs: capnp_structs ref_mem rm_world fst snd 128 ref_lib "\<lambda>g. g"
proof (unfold_locales, goal_cases)
  case (1 sz g m)
  then show ?case
    using rm_new_at [of 1 "(fst sz div 8, snd sz)" m]
    by (auto simp: ref_lib_def rm_new_def rm_world_def list_heap_snoc)
next
  case (2 sz g m)
  then show ?case by (simp add: ref_lib_def rm_new_results_def rm_new_def rm_world_def list_heap_snoc)
next
  case (3 m h d ps i)
  then show ?case by (simp add: ref_lib_def)
next
  case (7 m h d ps i q p k)
  have q: "holds (w_heap (rm_world m)) x" "distinct (addrs x)" "tree_cv (cvalue x)" "fst h \<notin> set (addrs x)"
    if "x \<in> set (elems q)" for x
    using 7(6) [OF that] by (auto simp: settable_def tree_in_def)
  obtain m' where m': "rm_set_ptr h i (map_cptr fst p) m = Some m'"
      "rm_world m' = (rm_world m)\<lparr>w_heap := (w_heap (rm_world m))(fst h \<mapsto> (d, ps[i := map_cptr fst p]))\<rparr>"
    using rm_set_ptr_at [of m h d ps i "map_cptr fst p"] 7(1,2) by auto
  have "tree_in (w_heap (rm_world m')) x" if x: "x \<in> set (elems q)" for x
  proof -
    have "holds (w_heap (rm_world m')) x = holds (w_heap (rm_world m)) x"
      using q(4) [OF x] m'(2) by (intro holds_cong) auto
    with q [OF x] show ?thesis by (simp add: tree_in_def)
  qed
  with m' 7(3) show ?case
    by (intro exI [of _ m'] exI [of _ q]) (simp add: ref_mem_def)
qed (simp_all add: ref_lib_def)

section \<open>Properties\<close>

text \<open>For each of the nine structs of the schema: a root made with \<open>NewRoot\<close> is what \<open>ReadRoot\<close>
  finds in its message, with zero in every word and pointer, nothing else in the messages
  changes, and the struct comes back from \<open>DecodeFromPtr\<close> of its pointer.\<close>

lemma generated_roots_round_trip:
  assumes "capnp_structs mem wld addr lim lmax lib msg_of" "T \<in> set (generated_structs mem lib)"
  shows "\<exists>h h' m' d ps. gs_NewRoot T g m = (Inr h, m') \<and> gs_ReadRoot T m' (msg_of g) = Inr h' \<and>
    addr h' = addr h \<and> addr h \<notin> dom (w_heap (wld m)) \<and>
    w_heap (wld m') = (w_heap (wld m))(addr h \<mapsto> (d, ps)) \<and> set d \<subseteq> {0} \<and> set ps \<subseteq> {CNull} \<and>
    gs_DecodeFromPtr T (gs_ToPtr T h) = h \<and> gs_DecodeFromPtr T (gs_EncodeAsPtr T h g') = h"
  using assms by (rule capnp_structs.struct_root)

lemma generated_roots_round_trip_witness:
  "\<exists>h h' m'. gs_NewRoot (TreeNode_struct ref_mem ref_lib) 4 \<lparr>rm_objs = [], rm_results = \<lambda>_. None\<rparr> = (Inr h, m') \<and>
    gs_ReadRoot (TreeNode_struct ref_mem ref_lib) m' 4 = Inr h' \<and> fst h' = fst h"
proof -
  have "TreeNode_struct ref_mem ref_lib \<in> set (generated_structs ref_mem ref_lib)"
    by (simp add: generated_structs_def)
  from generated_roots_round_trip [OF rstructs.capnp_structs_axioms this,
      of 4 "\<lparr>rm_objs = [], rm_results = \<lambda>_. None\<rparr>" 0]
  show ?thesis by metis
qed



text \<open>
  The ids that \<open>RegisterSchema\<close> registers are those of the nine structs and of the interface, in
  order and none twice, and each struct is printed with its own.
\<close>

lemma schema_nodes_exact:
  "set schema_nodes = insert API_TypeID (gs_TypeID ` set (generated_structs mem lib))"
  "sorted schema_nodes" "distinct schema_nodes" "API_TypeID = api_interface"
  by (auto simp: schema_nodes_def API_TypeID_def api_interface_def generated_structs_def
      generated_struct_defs generated_methods_def)

lemma gs_String_own_id:
  "T \<in> set (generated_structs mem lib) \<Longrightarrow> gs_String T m s = fst (lb_Marshal lib (gs_TypeID T) m s)"
  by (erule generated_struct_cases) (simp add: generated_methods_def)

end
