(* ===== verification/PrintTree.thy ===== *)
theory PrintTree
  imports TreeNode
begin

text \<open>
  \<open>PrintTreeNode\<close> of \<open>rpcbench/treenode.go\<close>, with which the harness writes down the two trees
  that did not match. What is printed is the depth and the value of each node in preorder;
  the lemmas show that it can be read back, so that the two files differ exactly when the trees
  do not match.
\<close>

section \<open>Printing\<close>

text \<open>An integer in decimal, as \<open>fmt\<close> prints it.\<close>

definition digit_char :: "nat \<Rightarrow> char" where
  "digit_char n = ''0123456789'' ! n"

fun show_nat :: "nat \<Rightarrow> string" where
  "show_nat n = (if n < 10 then [digit_char n] else show_nat (n div 10) @ [digit_char (n mod 10)])"

declare show_nat.simps [simp del]

definition show_int :: "int \<Rightarrow> string" where
  "show_int i = (if i < 0 then CHR ''-'' # show_nat (nat (- i)) else show_nat (nat i))"

text \<open>\<open>fmt.Fprintln(w, prefix, v)\<close>: a space between the two and a line feed after them.\<close>

definition Fprintln :: "string \<Rightarrow> string \<Rightarrow> int64 \<Rightarrow> string" where
  "Fprintln w p v = w @ p @ '' '' @ show_int (sint v) @ [CHR 0x0A]"

text \<open>
  The writer is the text written so far; its errors are not looked at. The recursion follows
  the children the tree gives, so it is partial.
\<close>

partial_function (option) PrintTreeNode ::
  "'t tree_ops \<Rightarrow> 't \<Rightarrow> int64 \<Rightarrow> string \<Rightarrow> string \<Rightarrow> (go_error option \<times> string) option"
where
  "PrintTreeNode ops t mult p w =
     (let w1 = Fprintln w p (op_GetValue ops t * mult)
      in case op_ChildrenCount ops t of
           Inl e \<Rightarrow> Some (Some e, w1)
         | Inr n \<Rightarrow>
             run_opt (\<lambda>i w.
                 case op_Child ops t i of
                   Inl e \<Rightarrow> Some (Some e, w)
                 | Inr c \<Rightarrow> PrintTreeNode ops c mult (p @ ''    '') w)
               [0..<n] w1)"

section \<open>What is printed\<close>

text \<open>The depth and value of each node, in preorder.\<close>

fun outline :: "nat \<Rightarrow> vtree \<Rightarrow> (nat \<times> int64) list" where
  "outline d (VT v ts) = (d, v) # concat (map (outline (Suc d)) ts)"

definition indent :: "nat \<Rightarrow> string" where
  "indent d = replicate (4 * d) CHR '' ''"

definition outline_text :: "(nat \<times> int64) list \<Rightarrow> string" where
  "outline_text ls = concat (map (\<lambda>(d, v). Fprintln [] (indent d) v) ls)"

lemma outline_text_simps [simp]:
  "outline_text [] = []"
  "outline_text ((d, v) # ls) = Fprintln [] (indent d) v @ outline_text ls"
  "outline_text (ls @ ls') = outline_text ls @ outline_text ls'"
  by (simp_all add: outline_text_def)

lemma indent_Suc: "indent d @ ''    '' = indent (Suc d)"
proof -
  have "4 * Suc d = 4 * d + 4" by simp
  then show ?thesis unfolding indent_def by (simp only: replicate_add) (simp add: eval_nat_numeral)
qed

lemma Fprintln_append: "Fprintln w p v = w @ Fprintln [] p v"
  by (simp add: Fprintln_def)

text \<open>A run over the children appends what each of them prints.\<close>

lemma run_opt_appends:
  assumes "\<And>i w. i < n \<Longrightarrow> f i w = Some (None, w @ out i)" "m \<le> n"
  shows "run_opt f [m..<n] w = Some (None, w @ concat (map out [m..<n]))"
  using assms(2)
proof (induction "n - m" arbitrary: m w)
  case (Suc k)
  then have "m < n" by simp
  with Suc.hyps(1) [of "Suc m" "w @ out m"] Suc.hyps(2) assms(1) [OF \<open>m < n\<close>] show ?case
    by (simp add: upt_conv_Cons)
qed simp

context tree_reader
begin

lemma PrintTreeNode_view:
  "ok t \<Longrightarrow> PrintTreeNode ops t mult (indent d) w =
     Some (None, w @ outline_text (outline d (vmult mult (view t))))"
proof (induction "view t" arbitrary: t d w)
  case (VT v ts)
  let ?out = "\<lambda>i. outline_text (outline (Suc d) (vmult mult (ts ! i)))"
  have view: "view t = VT v ts" using VT.hyps(2) by simp
  have child: "(case op_Child ops t i of Inl e \<Rightarrow> Some (Some e, w)
      | Inr c \<Rightarrow> PrintTreeNode ops c mult (indent d @ ''    '') w) = Some (None, w @ ?out i)"
    if i: "i < length ts" for i w
  proof -
    obtain c where c: "op_Child ops t i = Inr c" "ok c" "view c = ts ! i"
      using child_at [OF VT.prems, of i] i view by auto
    have "PrintTreeNode ops c mult (indent (Suc d)) w = Some (None, w @ ?out i)"
      using VT.hyps(1) [of c "Suc d" w] i c by simp
    with c(1) show ?thesis by (simp add: indent_Suc del: append.simps)
  qed
  have "concat (map ?out [0..<length ts]) = outline_text (concat (map (outline (Suc d)) (map (vmult mult) ts)))"
    (is "?l = ?r")
  proof -
    have "?l = concat (map (\<lambda>t. outline_text (outline (Suc d) (vmult mult t))) ts)"
      by (metis (no_types, lifting) map_nth map_map o_def map_eq_conv)
    also have "\<dots> = ?r" by (induction ts) simp_all
    finally show ?thesis .
  qed
  then show ?case
    using run_opt_appends [where out = ?out and m = 0, OF child] get_value [OF VT.prems] children_count [OF VT.prems] view
    by (subst PrintTreeNode.simps) (simp add: Let_def Fprintln_append [of w])
qed

end

section \<open>Reading it back\<close>

lemma digit_char_inj: "a < 10 \<Longrightarrow> b < 10 \<Longrightarrow> digit_char a = digit_char b \<Longrightarrow> a = b"
  unfolding digit_char_def by (subst (asm) nth_eq_iff_index_eq) simp_all

lemma digit_char_in: "a < 10 \<Longrightarrow> digit_char a \<in> set ''0123456789''"
  unfolding digit_char_def by (rule nth_mem) simp

lemma show_nat_digits: "set (show_nat n) \<subseteq> set ''0123456789''"
proof (induction n rule: show_nat.induct)
  case (1 n)
  show ?case
  proof (cases "n < 10")
    case True
    then show ?thesis using digit_char_in [of n] by (subst show_nat.simps) simp
  next
    case False
    then show ?thesis
      using "1.IH" digit_char_in [of "n mod 10"] unfolding show_nat.simps [of n] by simp
  qed
qed

lemma show_nat_nonempty [simp]: "show_nat n \<noteq> []"
  by (subst show_nat.simps) simp

lemma show_nat_inj: "show_nat m = show_nat n \<Longrightarrow> m = n"
proof (induction m arbitrary: n rule: show_nat.induct)
  case (1 m)
  have last: "last (show_nat k) = digit_char (k mod 10)" "butlast (show_nat k) = (if k < 10 then [] else show_nat (k div 10))" for k
    by (subst show_nat.simps, simp)+
  have "digit_char (m mod 10) = digit_char (n mod 10)" using "1.prems" last(1) by metis
  then have mods: "m mod 10 = n mod 10" by (rule digit_char_inj [rotated 2]) simp_all
  have "(if m < 10 then [] else show_nat (m div 10)) = (if n < 10 then [] else show_nat (n div 10))"
    using "1.prems" last(2) by metis
  then consider "m < 10" "n < 10" | "\<not> m < 10" "\<not> n < 10" "show_nat (m div 10) = show_nat (n div 10)"
    by (auto split: if_splits dest: sym)
  then show ?case
  proof cases
    case 2
    then have "m div 10 = n div 10" using "1.IH" by blast
    with mods show ?thesis by (metis div_mult_mod_eq)
  qed (use mods in simp)
qed

lemma show_int_chars: "c \<in> set (show_int i) \<Longrightarrow> c \<noteq> CHR '' '' \<and> c \<noteq> CHR 0x0A"
  using show_nat_digits [of "nat i"] show_nat_digits [of "nat (- i)"]
  by (auto simp: show_int_def split: if_splits)

lemma show_int_nonempty [simp]: "show_int i \<noteq> []"
  by (simp add: show_int_def)

lemma show_int_inj:
  assumes "show_int i = show_int j"
  shows "i = j"
proof -
  have minus: "show_nat n \<noteq> CHR ''-'' # xs" for xs n
    using show_nat_digits [of n] by auto
  then show ?thesis
    using assms show_nat_inj [of "nat (- i)" "nat (- j)"] show_nat_inj [of "nat i" "nat j"]
    by (auto simp: show_int_def split: if_splits dest: sym [of "CHR ''-'' # _"])
qed

text \<open>A line ends at its line feed, and its indentation at the first character that is no space.\<close>

lemma spaces:
  "c \<noteq> CHR '' '' \<Longrightarrow> takeWhile (\<lambda>c. c = CHR '' '') (replicate n CHR '' '' @ c # cs) = replicate n CHR '' ''"
  "c \<noteq> CHR '' '' \<Longrightarrow> dropWhile (\<lambda>c. c = CHR '' '') (replicate n CHR '' '' @ c # cs) = c # cs"
  by (induction n) simp_all

lemma Fprintln_inj:
  assumes "Fprintln [] (indent d) v @ xs = Fprintln [] (indent e) w @ ys"
  shows "d = e \<and> v = w \<and> xs = ys"
proof -
  define line where "line d v = indent d @ '' '' @ show_int (sint v)" for d and v :: int64
  have no_lf: "CHR 0x0A \<notin> set (line d v)" for d v
    using show_int_chars by (fastforce simp: line_def indent_def)
  have span: "takeWhile (\<lambda>c. c \<noteq> CHR 0x0A) (line d v @ CHR 0x0A # xs) = line d v"
      "dropWhile (\<lambda>c. c \<noteq> CHR 0x0A) (line d v @ CHR 0x0A # xs) = CHR 0x0A # xs" for d v xs
  proof -
    have "\<forall>c \<in> set (line d v). c \<noteq> CHR 0x0A" using no_lf [of d v] by auto
    then show "takeWhile (\<lambda>c. c \<noteq> CHR 0x0A) (line d v @ CHR 0x0A # xs) = line d v"
        "dropWhile (\<lambda>c. c \<noteq> CHR 0x0A) (line d v @ CHR 0x0A # xs) = CHR 0x0A # xs"
      by (simp_all add: takeWhile_append2 dropWhile_append2)
  qed
  have eq: "line d v @ CHR 0x0A # xs = line e w @ CHR 0x0A # ys"
    using assms by (simp add: Fprintln_def line_def)
  then have "line d v = line e w" "xs = ys"
    using span(1) [of d v xs] span(1) [of e w ys] span(2) [of d v xs] span(2) [of e w ys] by simp_all
  moreover have "takeWhile (\<lambda>c. c = CHR '' '') (line d v) = replicate (Suc (4 * d)) CHR '' ''"
      "dropWhile (\<lambda>c. c = CHR '' '') (line d v) = show_int (sint v)" for d v
  proof -
    obtain c cs where c: "show_int (sint v) = c # cs" by (cases "show_int (sint v)") simp_all
    then have "c \<noteq> CHR '' ''" using show_int_chars [of c "sint v"] by simp
    moreover have "line d v = replicate (Suc (4 * d)) CHR '' '' @ c # cs"
      using c by (simp add: line_def indent_def replicate_app_Cons_same)
    ultimately show "takeWhile (\<lambda>c. c = CHR '' '') (line d v) = replicate (Suc (4 * d)) CHR '' ''"
        "dropWhile (\<lambda>c. c = CHR '' '') (line d v) = show_int (sint v)"
      using c by (simp_all only: spaces simp_thms)
  qed
  ultimately have "Suc (4 * d) = Suc (4 * e)" "sint v = sint w"
    by (metis length_replicate, metis show_int_inj)
  with \<open>xs = ys\<close> show ?thesis by (simp add: signed_word_eqI)
qed

lemma outline_text_inj: "outline_text ls = outline_text ls' \<Longrightarrow> ls = ls'"
proof (induction ls arbitrary: ls')
  case Nil
  then show ?case by (cases ls') (auto simp: Fprintln_def)
next
  case (Cons l ls)
  obtain d v where l: "l = (d, v)" by (cases l)
  with Cons.prems obtain e w ls2 where ls': "ls' = (e, w) # ls2"
    by (cases ls') (auto simp: Fprintln_def)
  with Cons.prems l have "d = e \<and> v = w \<and> outline_text ls = outline_text ls2"
    by (intro Fprintln_inj) simp
  with Cons.IH l ls' show ?case by simp
qed

text \<open>The outline of a forest followed by lines that are less deep.\<close>

definition shallow :: "nat \<Rightarrow> (nat \<times> int64) list \<Rightarrow> bool" where
  "shallow d r \<longleftrightarrow> r = [] \<or> fst (hd r) < d"

lemma hd_outlines: "ts \<noteq> [] \<Longrightarrow> fst (hd (concat (map (outline d) ts) @ r)) = d"
  by (cases ts; cases "hd ts") auto

lemma outlines_inj:
  assumes "shallow d r" "shallow d r'"
    and "concat (map (outline d) ts) @ r = concat (map (outline d) us) @ r'"
  shows "ts = us \<and> r = r'"
  using assms
proof (induction "length (concat (map (outline d) ts))" arbitrary: d ts us r r' rule: less_induct)
  case less
  have empty: "us' = []" if "shallow d s" "s = concat (map (outline d) us') @ s'" for us' s s'
    using that hd_outlines [of us' d s'] by (cases us'; cases "hd us'") (auto simp: shallow_def)
  show ?case
  proof (cases ts)
    case Nil
    then have r: "r = concat (map (outline d) us) @ r'" using less.prems(3) by simp
    then have "us = []" by (rule empty [OF less.prems(1)])
    with r Nil show ?thesis by simp
  next
    case (Cons t ts')
    have "us \<noteq> []"
    proof
      assume "us = []"
      then have "r' = concat (map (outline d) ts) @ r" using less.prems(3) by simp
      then have "ts = []" by (rule empty [OF less.prems(2)])
      with Cons show False by simp
    qed
    then obtain u us' where us: "us = u # us'" by (cases us) simp_all
    obtain v cs where t: "t = VT v cs" by (cases t)
    obtain w es where u: "u = VT w es" by (cases u)
    let ?R = "concat (map (outline d) ts') @ r" and ?R' = "concat (map (outline d) us') @ r'"
    have len: "length (concat (map (outline (Suc d)) cs)) < length (concat (map (outline d) ts))"
        "length (concat (map (outline d) ts')) < length (concat (map (outline d) ts))"
      using Cons t by simp_all
    have deep: "shallow (Suc d) (concat (map (outline d) xs) @ s)" if "shallow d s" for xs s
      using that hd_outlines [of xs d s] by (cases xs) (auto simp: shallow_def)
    have "v = w" "concat (map (outline (Suc d)) cs) @ ?R = concat (map (outline (Suc d)) es) @ ?R'"
      using less.prems(3) Cons us t u by simp_all
    moreover have kids: "cs = es \<and> ?R = ?R'"
      using less.hyps [OF len(1) deep deep calculation(2)] less.prems(1,2) by simp
    moreover have "ts' = us' \<and> r = r'"
      using less.hyps [OF len(2) less.prems(1,2)] kids by blast
    ultimately show ?thesis using Cons us t u \<open>v = w\<close> by simp
  qed
qed

lemma outline_inj: "outline d t = outline d u \<Longrightarrow> t = u"
  using outlines_inj [of d "[]" "[]" "[t]" "[u]"] by (simp add: shallow_def)

section \<open>Properties\<close>

text \<open>C30: The two files the harness writes for a reply show the mismatch: printing the reply, and
  the tree that was sent with its values multiplied, always comes to an end without a panic, and
  the two texts are equal exactly when the comparison accepts the reply.\<close>

theorem PrintTreeNode_shows_mismatch:
  assumes "tree_reader ops view ok" "ok res" "tn_wf tgt"
  shows "\<exists>fr ft. PrintTreeNode ops res 1 [] [] = Some (None, fr) \<and>
    PrintTreeNode tn_ops tgt mult [] [] = Some (None, ft) \<and>
    (fr = ft \<longleftrightarrow> treeMatchesForMult ops res tgt mult = Inr True)"
proof -
  have top: "indent 0 = []" by (simp add: indent_def)
  have one: "vmult 1 t = t" for t
    by (induction t) (simp add: map_idI)
  have "PrintTreeNode ops res 1 [] [] = Some (None, outline_text (outline 0 (view res)))"
    using tree_reader.PrintTreeNode_view [OF assms(1,2), of 1 0 "[]"] by (simp add: top one)
  moreover have "PrintTreeNode tn_ops tgt mult [] [] =
      Some (None, outline_text (outline 0 (vmult mult (tn_view tgt))))"
    using tn.PrintTreeNode_view [OF assms(3), of mult 0 "[]"] by (simp add: top)
  moreover have "outline_text (outline 0 (view res)) = outline_text (outline 0 (vmult mult (tn_view tgt))) \<longleftrightarrow>
      view res = vmult mult (tn_view tgt)"
    by (auto dest: outline_text_inj outline_inj)
  ultimately show ?thesis
    using tree_reader.matches_view [OF assms(1,2), of tgt mult] by simp
qed

lemma PrintTreeNode_shows_mismatch_witness:
  "\<exists>fr ft. PrintTreeNode tn_ops (TreeNodeImpl 5 1 [TreeNodeImpl 7 0 []]) 1 [] [] = Some (None, fr) \<and>
    PrintTreeNode tn_ops (TreeNodeImpl 5 1 [TreeNodeImpl 7 0 []]) 2 [] [] = Some (None, ft) \<and> fr \<noteq> ft"
proof -
  let ?t = "TreeNodeImpl 5 1 [TreeNodeImpl 7 0 []]"
  have wf: "tn_wf ?t" by simp
  then have "treeMatchesForMult tn_ops ?t ?t 2 \<noteq> Inr True" by (subst tn.matches_view) simp_all
  with PrintTreeNode_shows_mismatch [OF tn.tree_reader_axioms wf wf, of 2] show ?thesis by blast
qed

lemma PrintTreeNode_example:
  "outline_text (outline 0 (VT 5 [VT (- 7) []])) = '' 5'' @ [CHR 0x0A] @ ''     -7'' @ [CHR 0x0A]"
  by (simp add: Fprintln_def indent_def show_int_def show_nat.simps digit_char_def numeral_eq_Suc)

end
