(* ===== verification/Spec2Isabelle.thy ===== *)
theory Spec2Isabelle
  imports Factories GoCapnpDepth StructDef PrintTree
begin

text \<open>
  This development models gorpcbench, a benchmark of seven ways to make the same four calls
  from a Go client to a Go server: \<open>Nop\<close>, \<open>Add\<close> of two 64-bit numbers, \<open>MultTreeValues\<close> (multiply
  every value of a tree) and \<open>ToHex\<close>. A harness draws the arguments at random, makes the calls
  through the interface \<open>Client\<close> and checks every answer. The systems under test are a
  hand-written protocol on TCP, the same messages over HTTP and over websockets, JSON over
  websockets, gRPC, go-capnp, and mdcapnp with two clients.

  The parts and the theories that model them (paths are under src/).

  \<^item> \<open>Prelude\<close>: machine integers, Go's error values, results, and loops: over a state, with
    early exit, and over bodies that may not return.

  \<^item> \<open>GoIO\<close>, \<open>HexCodec\<close>: what the program uses of \<open>io\<close>, \<open>bufio\<close>, \<open>bytes\<close> and \<open>encoding/hex\<close>.
    A connection is the chunks it still delivers and the error that follows, so the laws of
    the locales \<open>byte_reader\<close> and \<open>byte_writer\<close> hold for every way of cutting the bytes.

  \<^item> \<open>TreeNode\<close>: rpcbench/treenode.go. A slice is its length and its storage, so what \<open>Reset\<close>
    and \<open>InitChildren\<close> leave behind is in the model. The Go interface \<open>TreeNode\<close> is the record
    \<open>tree_ops\<close>; its contracts are the locales \<open>tree_reader\<close> (a tree that is read), \<open>tree_node\<close> (one
    that is also filled) and \<open>tree_filler\<close> (one that is filled in place in a message).

  \<^item> \<open>PrintTree\<close>: \<open>PrintTreeNode\<close> of treenode.go, decimal numbers included, and that what it prints
    can be read back.

  \<^item> \<open>Binutils\<close>: internal/binutils/binutils.go, over any reader and writer that meet the locales.

  \<^item> \<open>Api\<close>: rpcbench/interface.go. A client is a record of operations on its state; the locale
    \<open>rpc_system\<close> is what the harness needs of a client and its server together, and \<open>rpc_calls\<close>,
    a part of it, what it needs for the calls without a tree. The theory also has the abstract
    binary protocol and the loop of the \<open>ToHex\<close> servers.

  \<^item> \<open>Harness\<close>, \<open>Benches\<close>: rpcbench/bench_harness.go, rpcbench/bench_runner.go and benches.go.
    Generators are tapes of draws, \<open>testing.B\<close> is the number of iterations, and a parallel run
    takes the number of iterations of each worker. \<open>RunCase\<close> is a whole case: what \<open>net.Listen\<close>
    answered, the factory of the system, its server and clients, the calls. \<open>RunCase_ok\<close> of
    \<open>rpc_system\<close> shows that every case passes over any system that meets the contract, and
    \<open>RunCase_no_tree_ok\<close> of \<open>rpc_calls\<close> the same of the cases without trees.

  \<^item> \<open>Parallel\<close>: \<open>runParallelBench\<close> of bench_runner.go as the step relation \<open>bench_step\<close> of its
    goroutines and channels, and that \<open>parallel_run\<close> of \<open>Harness\<close> describes each of its runs.

  \<^item> \<open>Tcp\<close>, \<open>Http1\<close>, \<open>Websocket\<close> with \<open>JsonUtils\<close>: the directories of internal/rpc with these
    names and internal/jsonutils. Each has the server's loop or handlers, the client, the two
    connected, and an interpretation of \<open>rpc_system\<close>. gorilla/websocket is an argument of the
    websocket models: \<open>ws_conn_laws\<close> and \<open>ws_json_laws\<close> say that a connection delivers messages
    whole and in order, and the locale \<open>ws_link\<close> that the server's end of a client's connection
    is read by the loop of the package; ends in memory, \<open>ws_pipe\<close>, are an example of it.

  \<^item> \<open>Grpc\<close>: internal/rpc/grpc. What carries a unary call is the argument \<open>api\<close>, with the
    hypothesis \<open>grpc_api_laws\<close> that it takes a message to the handler and the answer back.

  \<^item> \<open>Capnp\<close>: what the two Cap'n Proto systems share. Both are written over libraries that are
    not in the repository, whose operations are arguments of the models. Their laws are
    stated over an abstract heap of structs, and \<open>built\<close> says that a tree was built in new
    structs and nothing else changed.

  \<^item> \<open>GoCapnp\<close>: internal/rpc/gocapnp with the accessors, the method table and the client calls
    of its structdef.capnp.go, and the locales \<open>capnp_memory\<close> and \<open>capnp_connection\<close>.

  \<^item> \<open>MdCapnp\<close>, \<open>MdCapnpCorrect\<close>: internal/rpc/mdcapnp, its interface, tree adapters, server and
    two clients; the locales \<open>md_memory\<close> and \<open>md_connection\<close> and the proofs over them.

  \<^item> \<open>CapnpRef\<close>, \<open>GoCapnpRef\<close>, \<open>MdCapnpRef\<close>: a memory in which structs are list elements, the
    interpretations of the four locales on it, and the properties of the two systems.

  \<^item> \<open>GoCapnpDepth\<close>: the tree functions of go-capnp at the depth limit, where reading a pointer is
    an error (locale \<open>capnp_limited\<close>), and what the tree handler does with a tree of any depth.

  \<^item> \<open>StructDef\<close>: the rest of structdef.capnp.go, by struct: the functions every generated struct
    has (\<open>generated_methods\<close>, the generator's template, with the ids and sizes written in each
    struct), lists, futures, the remaining fields and the registered ids; the locale
    \<open>capnp_structs\<close> and its instance on the reference memory.

  \<^item> \<open>ServerLoop\<close>: the \<open>Run\<close> methods of the servers. A run is the list of results of \<open>Accept\<close>; the
    library \<open>conc\<close> that waits for the tasks is an argument.

  \<^item> \<open>ServerRun\<close>: the goroutines of \<open>Run\<close> of the TCP and the go-capnp server as the step relations
    \<open>own_step\<close> (the server) and \<open>outside_step\<close> (clients, listener, context). The tasks of the
    connections enter through the locale \<open>conn_tasks\<close>. \<open>tcp_Run\<close> of \<open>ServerLoop\<close> is shown to give
    what every finished run returned.

  \<^item> \<open>VatRun\<close>: the goroutines of \<open>Run\<close> of the mdcapnp server, whose connections belong to the vat,
    as the step relations \<open>vat_own\<close> and \<open>vat_outside\<close>; what the vat's \<open>Run\<close> returns is an argument,
    with the hypothesis \<open>vat_pools\<close> that it ends when its context does.

  \<^item> \<open>ServeRun\<close>: the two goroutines of \<open>Run\<close> of the HTTP, websocket and gRPC servers, one in \<open>Serve\<close>
    of the library and one that stops it, as \<open>serve_own\<close> and \<open>serve_outside\<close>.

  \<^item> \<open>Factories\<close>: newFactory, NewServer and NewClient of the directories of internal/rpc. How a
    connection is made and what the libraries answer while a client is set up are arguments.

  What is shown. This theory has the statements that span components: every case of the
  benchmark matrix ends without an error on each of the systems, for all seeds, all
  numbers of calls and all ways the bytes of a connection are cut, and in all interleavings
  of the workers of a parallel run; for the trees of go-capnp this depends on a limit of the
  library, see below. Below them are: the refinement of the goroutines of the
  harness and of the servers to the functions that describe them, with progress, shutdown
  (what the servers wait for, and what they leave behind) and what one failed connection does
  to the others; the order and exactness of the answers of the connection loops; the soundness
  of the harness's checks for any client, and that what they accept is exactly the right
  answer; round trips of trees through bytes, JSON, protobuf and print, and the fields of the
  generated structs; the tree functions against the mathematical tree \<open>vtree\<close>; bounds of the
  test trees; the behaviour on truncated, unknown and oversized requests; reuse of trees,
  messages and adapters; and where the code does not do what it means to, a theorem that says
  what it does instead.

  Bounds. Loops and recursions that may not end are \<open>partial_function (option)\<close>, so no fuel
  is chosen and a theorem that gives \<open>Some\<close> includes that the code returns. The harness's
  trees have at most 87381 nodes (\<open>test_trees_shapes\<close>) and 64 levels below the root, and the
  data of \<open>ToHex\<close> is shorter than \<open>MaxHexEncodeSize\<close>; the contracts are stated with such bounds
  as parameters. Lists and data of a Cap'n Proto message are below \<open>2 ^ 29\<close> words and bytes, the
  limit of the encoding. \<open>lim\<close> counts the levels of a tree a reader may still go down: the code
  of mdcapnp sets it to 100, that of go-capnp leaves it to the library. So \<open>gocapnp_cases_pass\<close>
  covers the cases without trees, under every limit, and \<open>gocapnp_tree_call_passes\<close> says for
  which trees a tree call passes under which limit: the chain of 64 nodes asks for more than
  65 levels, the other trees for more than 9. Whether the default of the library, which is not in
  the repository, leaves room for the chain is not claimed. What happens beyond the limit is \<open>gcp_MultTree_limit\<close>: an error, and never a tree cut short.
  \<open>max_size\<close> is the number of structs and bytes of data a call can carry.

  Not modelled. Logging and the transport settings only do input and output; of dialling and
  listening the model has the results. The files the harness writes when trees do not match
  are not part of \<open>makeCall\<close>; \<open>PrintTree\<close> has what they hold. The scratch buffers \<open>aux\<close> of the
  binary functions hold nothing between calls. JSON is modelled as values, without its text
  syntax. Of the generated protobuf code only the shapes of the messages are modelled, and of
  the generated Cap'n Proto code not the compressed text of the schema and the lists of \<open>API\<close>,
  which nothing calls. The limits on traversal, memory and
  time of the Cap'n Proto libraries are taken to be enough, and what the libraries themselves do
  with the bytes of a message is outside of the repository. Concurrent calls of one client do not
  occur in the harness and are not modelled; the clients of a parallel run have connections
  of their own. \<open>Run\<close> of the websocket client is called by nothing.
\<close>

section \<open>Whole benchmark cases\<close>

lemma limits:
  "87381 \<le> (2 ^ 63 - 1 :: nat)" "64 \<le> (64 :: nat)" "MaxHexEncodeSize \<le> Suc (MaxHexEncodeSize - 1)"
  "MaxHexEncodeSize \<le> Suc (2 ^ 63 - 1)"
  by (simp_all add: MaxHexEncodeSize_def)

text \<open>C1: Every case of the matrix run on the TCP system ends without an error: for any random
  seeds, any way the bytes are cut in transit and any number of calls, the harness builds its
  server and clients, every answer passes its check and a number of bytes per call is reported.\<close>

theorem tcp_cases_pass:
  assumes "bc \<in> set fullTestMatrix" "\<And>i. i < length ks \<Longrightarrow> \<exists>cuts. dial addr i = Inr cuts"
    and "ks \<noteq> []" "0 < hd ks" "sum_list ks < 2 ^ 63"
  shows "\<exists>per_op. RunCase (tcp_client_ops tcp_peer) tn_ops tn_ops (Inr (l, addr)) (tcpFactory dial)
    pcg chacha bc ks = Some (Inr per_op)"
  by (rule tcp.RunCase_ok [OF refl factories_make_servers(1) _ limits(1,2,3) assms(1) refl];
      ((rule tcp_NewClient_ok, rule assms(2), assumption) | (use assms in simp)))

lemma tcp_cases_pass_witness:
  "\<exists>per_op. RunCase (tcp_client_ops tcp_peer) tn_ops tn_ops (Inr ((), ''127.0.0.1:80''))
      (tcpFactory (\<lambda>_ _. Inr [3, 1])) (\<lambda>i. []) (\<lambda>s. [])
      \<lparr>case_Sys = 0, case_Call = ClientCallTreeMult, case_Parallel = True\<rparr> [2, 3] = Some (Inr per_op)"
  by (rule tcp_cases_pass) (simp_all add: set_fullTestMatrix allSystems_def ClientCallMatrix_def)

text \<open>C2: Every case run on the HTTP system ends without an error.\<close>

theorem http1_cases_pass:
  assumes "bc \<in> set fullTestMatrix" "ks \<noteq> []" "0 < hd ks" "sum_list ks < 2 ^ 63"
  shows "\<exists>per_op. RunCase (http1_client_ops (http1_peer addr)) tn_ops tn_ops (Inr (l, addr))
    (http1Factory cuts) pcg chacha bc ks = Some (Inr per_op)"
  by (rule http.RunCase_ok [OF refl factories_make_servers(2) http1_NewClient_ok limits(1,2,4) assms(1) refl])
    (use assms in simp_all)

lemma http1_cases_pass_witness:
  "\<exists>per_op. RunCase (http1_client_ops (http1_peer ''127.0.0.1:80'')) tn_ops tn_ops
      (Inr ((), ''127.0.0.1:80'')) (http1Factory (\<lambda>_ _. [])) (\<lambda>i. []) (\<lambda>s. [])
      \<lparr>case_Sys = 1, case_Call = ClientCallToHex, case_Parallel = False\<rparr> [5] = Some (Inr per_op)"
  by (rule http1_cases_pass) (simp_all add: set_fullTestMatrix allSystems_def ClientCallMatrix_def)

text \<open>C3: Every case run on the websocket system ends without an error, in the binary form of
  the messages and in JSON, over every connection that delivers messages whole and in order: when
  dialing gives each client a connection whose server's end is read by the loop of this package.\<close>

theorem ws_cases_pass:
  assumes "ws_link conn sconn inbox outbox ok jinbox joutbox jok rest"
    and "\<And>i. i < length ks \<Longrightarrow> \<exists>n. dial (''ws://'' @ addr)
      (if isJson then [(''Content-Type'', ''text/json'')] else []) i = Inr n \<and> rest isJson n"
    and "bc \<in> set fullTestMatrix" "ks \<noteq> []" "0 < hd ks" "sum_list ks < 2 ^ 63"
  shows "\<exists>per_op. RunCase (ws_client_ops conn) tn_ops tn_ops (Inr (l, addr)) (wsFactory dial isJson)
    pcg chacha bc ks = Some (Inr per_op)"
  by (rule rpc_system.RunCase_ok [OF ws_link.ws_rpc_system [where isJson = isJson, OF assms(1)] refl
        factories_make_servers(3) _ limits(1,2,3) assms(3) refl];
      ((rule ws_NewClient_ok, rule assms(2), assumption) | (use assms in simp)))

lemma ws_cases_pass_witness:
  "\<exists>per_op. RunCase (ws_client_ops ws_pipe) tn_ops tn_ops (Inr ((), ''127.0.0.1:80''))
      (wsFactory (\<lambda>_ _ _. Inr (mem_with [] [], json_vars_init)) True) (\<lambda>i. []) (\<lambda>s. [])
      \<lparr>case_Sys = 3, case_Call = ClientCallNop, case_Parallel = False\<rparr> [7] = Some (Inr per_op)"
  by (rule ws_cases_pass [OF mem.ws_link_axioms])
    (simp_all add: set_fullTestMatrix allSystems_def ClientCallMatrix_def mem_idle_def mem_with_def)

text \<open>C4: Every case run on the gRPC system ends without an error, when a unary call carries
  trees of 87381 nodes and \<open>MaxHexEncodeSize\<close> bytes to the handlers and back.\<close>

theorem grpc_cases_pass:
  assumes "grpc_api_laws api ok 87381 MaxHexEncodeSize"
    and "\<And>i. i < length ks \<Longrightarrow> \<exists>conn. new_conn addr i = Inr conn \<and> ok conn"
    and "bc \<in> set fullTestMatrix" "ks \<noteq> []" "0 < hd ks" "sum_list ks < 2 ^ 63"
  shows "\<exists>per_op. RunCase (grpc_client_ops api) pb_ops pb_ops (Inr (l, addr))
    (grpcFactory new_server register new_conn) pcg chacha bc ks = Some (Inr per_op)"
  by (rule rpc_system.RunCase_ok [OF grpc_rpc_system [where l = 64, OF assms(1)] refl
        factories_make_servers(4) _ order_refl _ _ assms(3) refl];
      ((rule grpc_NewClient_ok, rule assms(2), assumption) | (use assms in simp)))

text \<open>An API that hands each request to the handler itself, for the example.\<close>

definition direct_api :: "unit grpc_api" where
  "direct_api =
     \<lparr>ga_Nop = (\<lambda>n. (grpc_srv_Nop, n)), ga_Add = (\<lambda>n req. (grpc_srv_Add req, n)),
      ga_MultTree = (\<lambda>n req. (grpc_srv_MultTree req, n)), ga_ToHex = (\<lambda>n req. (grpc_srv_ToHex req, n))\<rparr>"

lemma direct_api_laws: "grpc_api_laws direct_api (\<lambda>_. True) N M"
proof -
  have "\<exists>t1. same_tree t t1 \<and> (\<forall>res. grpc_srv_MultTree \<lparr>pmr_Mult = m, pmr_Tree = t1\<rparr> = Inr res \<longrightarrow>
      (\<exists>t2. grpc_srv_MultTree \<lparr>pmr_Mult = m, pmr_Tree = t\<rparr> = Inr \<lparr>pms_Tree = t2\<rparr> \<and> same_tree (pms_Tree res) t2))"
    for t m
    by (rule exI [of _ t]) (auto simp: same_tree_def grpc_srv_MultTree_def bind_result_Inr_conv)
  then show ?thesis by (simp add: grpc_api_laws_def direct_api_def)
qed

lemma grpc_cases_pass_witness:
  "\<exists>per_op. RunCase (grpc_client_ops direct_api) pb_ops pb_ops (Inr ((), ''127.0.0.1:80''))
      (grpcFactory () id (\<lambda>_ _. Inr ())) (\<lambda>i. []) (\<lambda>s. [])
      \<lparr>case_Sys = 4, case_Call = ClientCallAdd, case_Parallel = False\<rparr> [4] = Some (Inr per_op)"
  by (rule grpc_cases_pass [OF direct_api_laws])
    (simp_all add: set_fullTestMatrix allSystems_def ClientCallMatrix_def)

text \<open>C5: Every \<open>Nop\<close>, \<open>Add\<close> and \<open>ToHex\<close> case run on the go-capnp system ends without an error,
  whatever the depth limit of the messages, when the library delivers messages of up to 262144
  structs and bytes.\<close>

theorem gocapnp_cases_pass:
  assumes "capnp_connection mem wld addr lim lmax conn max_size" "0 < lmax" "2 ^ 18 \<le> max_size"
    and "\<And>i. i < length ks \<Longrightarrow>
      \<exists>m m'. dial saddr i = Inr m \<and> resolve m = (None, m') \<and> w_up (wld m')"
    and "bc \<in> set fullTestMatrix" "case_Call bc \<noteq> ClientCallTreeMult"
    and "ks \<noteq> []" "0 < hd ks" "sum_list ks < 2 ^ 63"
  shows "\<exists>per_op. RunCase (gcp_client_ops mem conn) (gcp_ops mem) (gcp_ops mem) (Inr (l, saddr))
    (gocapnpFactory dial resolve) pcg chacha bc ks = Some (Inr per_op)"
proof -
  have sizes: "0 < max_size" "2 * (MaxHexEncodeSize - 1) < 2 ^ 29"
      "Suc (2 * (MaxHexEncodeSize - 1)) \<le> max_size"
    using assms(3) by (simp_all add: MaxHexEncodeSize_def)
  show ?thesis
    by (rule rpc_calls.RunCase_no_tree_ok [OF capnp_connection.gcp_rpc_calls [OF assms(1,2) sizes] refl
          factories_make_servers(5) _ limits(3) assms(5,6) refl];
      ((rule gocapnp_NewClient_ok, rule assms(4), assumption) | (use assms(7-) in simp)))
qed

lemma gocapnp_cases_pass_witness:
  "\<exists>per_op. RunCase (gcp_client_ops ref_mem ref_conn) (gcp_ops ref_mem) (gcp_ops ref_mem)
      (Inr ((), ''127.0.0.1:80''))
      (gocapnpFactory (\<lambda>_ _. Inr \<lparr>rm_objs = [], rm_results = \<lambda>_. None\<rparr>) (\<lambda>m. (None, m)))
      (\<lambda>i. []) (\<lambda>s. [])
      \<lparr>case_Sys = 5, case_Call = ClientCallToHex, case_Parallel = True\<rparr> [2, 3] = Some (Inr per_op)"
  by (rule gocapnp_cases_pass [OF rconn.capnp_connection_axioms [of "2 ^ 18"]])
    (simp_all add: set_fullTestMatrix allSystems_def ClientCallMatrix_def)

text \<open>C6: A tree call of a client of the go-capnp system passes the harness's check whenever the
  test tree it draws has at most \<open>levels\<close> levels below its root and \<open>nodes\<close> nodes, when a handle
  of a new message goes down more than \<open>levels + 1\<close> levels of pointers; the client is then ready
  for its next call. For the trees of the harness this asks for more than 65 levels when the
  chain of 64 nodes is drawn and for more than 9 otherwise.\<close>

theorem gocapnp_tree_call_passes:
  assumes "capnp_connection mem wld addr lim lmax conn max_size"
    and "Suc levels < lmax" "nodes < 2 ^ 28" "Suc nodes \<le> max_size"
    and "w_up (wld (bc_c b))" "rng_IntN (int (length (bc_testTrees b))) (bc_rng b) = Inr (i, g)"
    and "tn_wf (bc_testTrees b ! nat i)" "vwithin nodes levels (tn_view (bc_testTrees b ! nat i))"
  shows "\<exists>b'. makeCall (gcp_client_ops mem conn) (gcp_ops mem) (gcp_ops mem) ClientCallTreeMult b = (Inr 0, b') \<and>
    w_up (wld (bc_c b'))"
proof -
  have hex: "2 * 0 < (2 ^ 29 :: nat)" "Suc (2 * 0) \<le> max_size" using assms(4) by simp_all
  show ?thesis
    using rpc_system.call_tree_drawn [OF capnp_connection.gcp_rpc_system [OF assms(1-4) hex] assms(5-8)]
    by auto
qed

definition gocapnp_bench :: "nat rmem benchClient" where
  "gocapnp_bench =
     \<lparr>bc_c = \<lparr>rm_objs = [], rm_results = \<lambda>_. None\<rparr>, bc_rng = [4, 5, 6], bc_reader = [],
      bc_testTrees = [tn_InitChildren 2 tn_zero], bc_chosenTestTree = 0, bc_hexInBuf = [], bc_hexOutBuf = [],
      bc_hexCheckBuf = []\<rparr>"

lemma gocapnp_tree_call_passes_witness:
  "\<exists>b'. makeCall (gcp_client_ops ref_mem ref_conn) (gcp_ops ref_mem) (gcp_ops ref_mem) ClientCallTreeMult
      gocapnp_bench = (Inr 0, b')"
proof -
  obtain i g where i: "rng_IntN 1 [4, 5, 6] = Inr (i, g)" "0 \<le> i" "i < 1"
    by (rule rng_IntN_bound [of 1 "[4, 5, 6]"]) simp
  then have "nat i = 0" by simp
  moreover have "tn_wf tn_zero" "tn_view tn_zero = VT 0 []" by (simp_all add: tn_zero_def)
  then have "tn_wf (tn_InitChildren 2 tn_zero)" "vwithin 3 1 (tn_view (tn_InitChildren 2 tn_zero))"
    by (simp_all add: tn_InitChildren_zero vwithin_def numeral_2_eq_2)
  ultimately show ?thesis
    using gocapnp_tree_call_passes [OF rconn.capnp_connection_axioms [of "2 ^ 18"], of 1 3 gocapnp_bench i g] i(1)
    by (auto simp: gocapnp_bench_def simp del: makeCall.simps)
qed

lemma mdcapnp_sizes:
  assumes "2 ^ 18 \<le> max_size"
  shows "(64 :: nat) < 100" "(87381 :: nat) < 2 ^ 28" "Suc 87381 \<le> max_size"
    "2 * (MaxHexEncodeSize - 1) < 2 ^ 29" "Suc (2 * (MaxHexEncodeSize - 1)) \<le> max_size"
  using assms by (simp_all add: MaxHexEncodeSize_def)

text \<open>C7: Every case run on the mdcapnp system ends without an error, when the library delivers
  messages of up to 262144 structs and bytes.\<close>

theorem mdcapnp_cases_pass:
  assumes "md_connection ser ctx wld baddr saddr lim rpc boot max_size" "2 ^ 18 \<le> max_size"
    and "\<And>i. i < length ks \<Longrightarrow>
      \<exists>m m'. dial addr i = Inr m \<and> boot_wait m = (Inr boot, m') \<and> w_up (wld m')"
    and "bc \<in> set fullTestMatrix" "ks \<noteq> []" "0 < hd ks" "sum_list ks < 2 ^ 63"
  shows "\<exists>per_op. RunCase (md_client_ops ser rpc) (tnb_ops ser) (tnr_ops ser) (Inr (l, addr))
    (mdcapFactory new_vat dial boot_wait) pcg chacha bc ks = Some (Inr per_op)"
  by (rule rpc_system.RunCase_ok [OF md_connection.md_rpc_system [OF assms(1) mdcapnp_sizes [OF assms(2)]] refl
        factories_make_servers(6) _ order_refl limits(2,3) assms(4) refl];
      ((rule md_NewClient_ok, rule assms(3), assumption) | (use assms(5-) in simp)))

lemma mdcapnp_cases_pass_witness:
  "\<exists>per_op. RunCase (md_client_ops md_ref_ser md_ref_rpc) (tnb_ops md_ref_ser) (tnr_ops md_ref_ser)
      (Inr ((), ''127.0.0.1:80''))
      (mdcapFactory () (\<lambda>_ _. Inr md_no_messages) (\<lambda>m. (Inr ((0, 0), None), m))) (\<lambda>i. []) (\<lambda>s. [])
      \<lparr>case_Sys = 6, case_Call = ClientCallToHex, case_Parallel = False\<rparr> [2] = Some (Inr per_op)"
  by (rule mdcapnp_cases_pass [OF md_ref.md_connection_axioms [of "((0, 0), None)" "2 ^ 18"]])
    (simp_all add: set_fullTestMatrix allSystems_def ClientCallMatrix_def)

text \<open>C8: The same for the level 0 client, whose adapters are reused by every call of a case.\<close>

theorem mdcapnp_level0_cases_pass:
  assumes "md_connection ser ctx wld baddr saddr lim rpc boot max_size" "2 ^ 18 \<le> max_size"
    and "\<And>i. i < length ks \<Longrightarrow>
      \<exists>m m'. dial addr i = Inr m \<and> boot_wait m = (Inr boot, m') \<and> w_up (wld m')"
    and "bc \<in> set fullTestMatrix" "ks \<noteq> []" "0 < hd ks" "sum_list ks < 2 ^ 63"
  shows "\<exists>per_op. RunCase (md_level0_client_ops ser rpc) (tnb_ops ser) (tnr_ops ser) (Inr (l, addr))
    (mdcapFactory_level0 new_vat ser dial boot_wait) pcg chacha bc ks = Some (Inr per_op)"
  by (rule rpc_system.RunCase_ok [OF md_connection.md_level0_rpc_system [OF assms(1) mdcapnp_sizes [OF assms(2)]]
        refl factories_make_servers(7) _ order_refl limits(2,3) assms(4) refl];
      ((rule md_NewClient_level0_ok, rule assms(3), assumption) | (use assms(5-) in simp)))

lemma mdcapnp_level0_cases_pass_witness:
  "\<exists>per_op. RunCase (md_level0_client_ops md_ref_ser md_ref_rpc) (tnb_ops md_ref_ser) (tnr_ops md_ref_ser)
      (Inr ((), ''127.0.0.1:80''))
      (mdcapFactory_level0 () md_ref_ser (\<lambda>_ _. Inr md_no_messages) (\<lambda>m. (Inr ((0, 0), None), m)))
      (\<lambda>i. []) (\<lambda>s. [])
      \<lparr>case_Sys = 7, case_Call = ClientCallTreeMult, case_Parallel = False\<rparr> [4] = Some (Inr per_op)"
  by (rule mdcapnp_level0_cases_pass [OF md_ref.md_connection_axioms [of "((0, 0), None)" "2 ^ 18"]])
    (simp_all add: set_fullTestMatrix allSystems_def ClientCallMatrix_def)

text \<open>C10: On every system that meets the contract of the harness, in every interleaving of the
  workers of a parallel run, no worker fails, and a run in which nothing can take a step has
  returned a number of bytes per call.\<close>

theorem parallel_schedules_pass:
  assumes "rpc_system cl I aops start filled rops rview rok max_tree max_levels max_hex"
    and "\<forall>b \<in> set clients. bench_ok I max_tree max_levels max_hex b" "clients \<noteq> []"
    and "call \<in> set ClientCallMatrix" "0 < iters" "iters < 2 ^ 63"
    and "bench_reaches (makeCall cl aops rops call) clients iters s"
  shows "failures s = 0 \<and>
    ((\<nexists>s'. bench_step (makeCall cl aops rops call) s s') \<longrightarrow>
      (\<exists>per_op. pr_main s = Returned (Inr per_op)))"
  using rpc_system.parallel_any_schedule [OF assms] by blast

lemma parallel_schedules_pass_witness:
  "\<exists>clients s per_op. bench_reaches (makeCall (tcp_client_ops tcp_peer) tn_ops tn_ops ClientCallToHex) clients 5 s \<and>
    length clients = 3 \<and> pr_main s = Returned (Inr per_op)"
proof -
  let ?call = "makeCall (tcp_client_ops tcp_peer) tn_ops tn_ops ClientCallToHex"
  have new: "\<And>i. i < (3 :: nat) \<Longrightarrow> \<exists>c. fac_NewClient (tcpFactory (\<lambda>_ _. Inr [])) ''127.0.0.1:80'' i = Inr c \<and> tcp_idle c"
    by (rule tcp_NewClient_ok) simp
  have "\<exists>clients. newClientHarness (\<lambda>i. []) (\<lambda>s. [])
      (fac_NewClient (tcpFactory (\<lambda>_ _. Inr [])) ''127.0.0.1:80'') 3 = Inr clients \<and> length clients = 3 \<and>
      (\<forall>b \<in> set clients. bench_ok tcp_idle (2 ^ 63 - 1) 64 (MaxHexEncodeSize - 1) b)"
    by (rule new_clients_ok [OF new limits(1,2,3)])
  then obtain clients where clients: "length clients = 3"
      "\<forall>b \<in> set clients. bench_ok tcp_idle (2 ^ 63 - 1) 64 (MaxHexEncodeSize - 1) b"
    by blast
  obtain s where s: "bench_reaches ?call clients 5 s" "\<nexists>s'. bench_step ?call s s'"
    using bench_completes [of ?call "bench_start clients 5"] by (auto simp: bench_reaches_def)
  have "clients \<noteq> []" "ClientCallToHex \<in> set ClientCallMatrix"
    using clients(1) by (auto simp: ClientCallMatrix_def)
  from parallel_schedules_pass [OF tcp.rpc_system_axioms clients(2) this _ _ s(1)] s(2) have
    "\<exists>per_op. pr_main s = Returned (Inr per_op)" by simp
  with s(1) clients(1) show ?thesis by blast
qed

end
